(* ===== verification/GoBase.thy ===== *)
theory GoBase
  imports Main "HOL-Library.Word" "HOL-Library.AList" "HOL-Library.Sublist"
    "HOL-Library.Char_ord" "HOL-Library.List_Lexorder" "HOL-Library.Product_Lexorder"
begin

text \<open>
  The prelude: what the Go code takes from the language and its standard library.
  Strings are byte lists (\<^typ>\<open>string\<close>), \<open>int\<close> and \<open>int64\<close> values are \<^typ>\<open>int\<close>
  with the two's complement wrap-around of \<open>wrap64\<close> written out, \<open>time.Time\<close> is a number of
  nanoseconds counted from Go's zero time, \<open>time.Duration\<close> a number of nanoseconds,
  and a Go map is an association list with distinct keys whose order stands for the
  (unspecified) iteration order.  Errors are the left summand of \<open>'e + 'a\<close>.
\<close>

named_theorems go_string \<open>facts about the string functions of the prelude\<close>
named_theorems go_time \<open>definitions of the time and duration arithmetic\<close>
named_theorems go_map \<open>facts about Go maps as association lists\<close>

section \<open>Machine integers\<close>

definition max_int64 :: int where "max_int64 = 2 ^ 63 - 1"
definition min_int64 :: int where "min_int64 = - (2 ^ 63)"

text \<open>Two's complement wrap-around of a 64-bit signed result.\<close>

definition wrap64 :: "int \<Rightarrow> int" where
  "wrap64 x = (x + 2 ^ 63) mod 2 ^ 64 - 2 ^ 63"

definition is_int64 :: "int \<Rightarrow> bool" where
  "is_int64 x \<longleftrightarrow> min_int64 \<le> x \<and> x \<le> max_int64"

lemma is_int64_wrap64 [simp]: "is_int64 (wrap64 x)"
proof -
  have "0 \<le> (x + 2 ^ 63) mod 2 ^ 64" and "(x + 2 ^ 63) mod 2 ^ 64 < (2 :: int) ^ 64"
    by simp_all
  then show ?thesis
    by (simp add: is_int64_def wrap64_def min_int64_def max_int64_def)
qed

lemma wrap64_id: "is_int64 x \<Longrightarrow> wrap64 x = x"
  by (simp add: is_int64_def wrap64_def min_int64_def max_int64_def)

lemma wrap64_overflow: "wrap64 (max_int64 + 1) = min_int64"
  by (simp add: wrap64_def min_int64_def max_int64_def)

section \<open>Time\<close>

type_synonym time = int
type_synonym duration = int

definition time_zero :: time where "time_zero = 0"

definition is_zero_time :: "time \<Rightarrow> bool" where "is_zero_time t \<longleftrightarrow> t = 0"

definition millisecond :: duration where "millisecond = 10 ^ 6"
definition second :: duration where "second = 10 ^ 9"
definition minute :: duration where "minute = 60 * 10 ^ 9"

text \<open>\<open>t.Sub(u)\<close> saturates at the ends of the duration range.\<close>

definition time_sub :: "time \<Rightarrow> time \<Rightarrow> duration" where
  "time_sub t u = max min_int64 (min max_int64 (t - u))"

text \<open>\<open>t.Add(d)\<close>; the seconds of a \<open>time.Time\<close> are themselves an \<open>int64\<close>, far beyond any
  instant the program meets.\<close>

definition time_add :: "time \<Rightarrow> duration \<Rightarrow> time" where "time_add t d = t + d"

text \<open>\<open>time.Duration(n) * time.Second\<close> for a computed \<open>n\<close>: the product wraps.\<close>

definition secs :: "int \<Rightarrow> duration" where "secs n = wrap64 (n * second)"

lemmas [go_time] = time_sub_def time_add_def millisecond_def second_def minute_def
  min_int64_def max_int64_def is_zero_time_def time_zero_def

lemma secs_small: "0 \<le> n \<Longrightarrow> n \<le> 3600 \<Longrightarrow> secs n = n * 10 ^ 9"
  unfolding secs_def by (subst wrap64_id) (simp_all add: is_int64_def go_time)

lemma time_sub_nonneg: "u \<le> t \<Longrightarrow> 0 \<le> time_sub t u"
  by (simp add: go_time)

lemma time_sub_self [simp]: "time_sub t t = 0"
  by (simp add: go_time)

lemma time_sub_less: "time_sub t u < d \<Longrightarrow> d \<le> max_int64 \<Longrightarrow> t < u + d"
  by (auto simp: time_sub_def)

lemma time_sub_ge: "d \<le> time_sub t u \<Longrightarrow> min_int64 < d \<Longrightarrow> u + d \<le> t"
  by (auto simp: time_sub_def)

lemma time_sub_le_iff: "0 \<le> d \<Longrightarrow> d < max_int64 \<Longrightarrow> time_sub t u \<le> d \<longleftrightarrow> t \<le> u + d"
  by (auto simp: go_time)

lemma time_sub_less_iff: "0 \<le> d \<Longrightarrow> d \<le> max_int64 \<Longrightarrow> time_sub t u < d \<longleftrightarrow> t < u + d"
  by (auto simp: go_time)

section \<open>Strings\<close>

text \<open>\<open>strings.HasPrefix\<close> and its kin, on bytes.\<close>

definition has_prefix :: "string \<Rightarrow> string \<Rightarrow> bool" where
  "has_prefix s p \<longleftrightarrow> take (length p) s = p"

definition has_suffix :: "string \<Rightarrow> string \<Rightarrow> bool" where
  "has_suffix s p \<longleftrightarrow> has_prefix (rev s) (rev p)"

definition trim_prefix :: "string \<Rightarrow> string \<Rightarrow> string" where
  "trim_prefix s p = (if has_prefix s p then drop (length p) s else s)"

definition trim_suffix :: "string \<Rightarrow> string \<Rightarrow> string" where
  "trim_suffix s p = (if has_suffix s p then take (length s - length p) s else s)"

fun contains :: "string \<Rightarrow> string \<Rightarrow> bool" where
  "contains [] p \<longleftrightarrow> p = []"
| "contains (c # s) p \<longleftrightarrow> has_prefix (c # s) p \<or> contains s p"

text \<open>\<open>strings.Split\<close>, \<open>strings.Cut\<close> and \<open>strings.Index\<close> at a one-byte separator.\<close>

fun split_on :: "char \<Rightarrow> string \<Rightarrow> string list" where
  "split_on c [] = [[]]"
| "split_on c (x # xs) =
     (if x = c then [] # split_on c xs
      else (x # hd (split_on c xs)) # tl (split_on c xs))"

fun cut_at :: "char \<Rightarrow> string \<Rightarrow> (string \<times> string) option" where
  "cut_at c [] = None"
| "cut_at c (x # xs) =
     (if x = c then Some ([], xs)
      else map_option (\<lambda>(a, b). (x # a, b)) (cut_at c xs))"

fun join_with :: "string \<Rightarrow> string list \<Rightarrow> string" where
  "join_with sep [] = []"
| "join_with sep [x] = x"
| "join_with sep (x # xs) = x @ sep @ join_with sep xs"

lemma split_on_nonempty [simp]: "split_on c s \<noteq> []"
  by (cases s) auto

lemma split_on_code [code]:
  "split_on c [] = [[]]"
  "split_on c (x # xs) =
     (case split_on c xs of [] \<Rightarrow> [] | y # ys \<Rightarrow> if x = c then [] # y # ys else (x # y) # ys)"
  by (simp_all split: list.split)

lemma has_prefix_append [simp, go_string]: "has_prefix (p @ s) p"
  by (simp add: has_prefix_def)

lemma has_prefix_iff [go_string]: "has_prefix s p \<longleftrightarrow> (\<exists>t. s = p @ t)"
  by (auto simp: has_prefix_def) (metis append_take_drop_id)

lemma has_suffix_iff [go_string]: "has_suffix s p \<longleftrightarrow> (\<exists>t. s = t @ p)"
proof -
  have "has_suffix s p \<longleftrightarrow> (\<exists>t. rev s = rev p @ t)"
    by (simp add: has_suffix_def has_prefix_iff)
  also have "\<dots> \<longleftrightarrow> (\<exists>t. s = t @ p)"
    by (metis rev_append rev_rev_ident)
  finally show ?thesis .
qed

lemma trim_suffix_append [simp, go_string]: "trim_suffix (s @ p) p = s"
  by (simp add: trim_suffix_def has_suffix_iff)

lemma cut_at_Some: "cut_at c s = Some (a, b) \<Longrightarrow> s = a @ c # b \<and> c \<notin> set a"
  by (induction s arbitrary: a) (auto split: if_splits)

lemma cut_at_None: "cut_at c s = None \<longleftrightarrow> c \<notin> set s"
  by (induction s) auto

lemma cut_at_append: "c \<notin> set a \<Longrightarrow> cut_at c (a @ c # b) = Some (a, b)"
  by (induction a) auto

lemma split_on_join: "join_with [c] (split_on c s) = s"
proof (induction s)
  case (Cons x s)
  then show ?case
    by (cases "split_on c s"; cases "tl (split_on c s)") auto
qed simp

lemma split_on_no_sep: "p \<in> set (split_on c s) \<Longrightarrow> c \<notin> set p"
proof (induction s arbitrary: p)
  case (Cons x s)
  then show ?case
    by (cases "split_on c s") (auto split: if_splits)
qed simp

text \<open>
  White space of \<open>strings.TrimSpace\<close> and \<open>strings.Fields\<close> (\<open>unicode.IsSpace\<close>): six ASCII
  bytes, and the UTF-8 encodings of the other white space.  No encoding begins with a
  continuation byte, so matching whole encodings at the ends of a byte string is what the
  decoding loops of the library do, on invalid UTF-8 too.
\<close>

definition ascii_space :: "char \<Rightarrow> bool" where
  "ascii_space c \<longleftrightarrow> c = CHR 0x20 \<or> c = CHR 0x09 \<or> c = CHR 0x0A \<or> c = CHR 0x0B \<or> c = CHR 0x0C \<or> c = CHR 0x0D"

definition wide_spaces :: "string list" where
  "wide_spaces =
     [[CHR 0xC2, CHR 0x85], [CHR 0xC2, CHR 0xA0], [CHR 0xE1, CHR 0x9A, CHR 0x80],
      [CHR 0xE2, CHR 0x80, CHR 0x80], [CHR 0xE2, CHR 0x80, CHR 0x81], [CHR 0xE2, CHR 0x80, CHR 0x82],
      [CHR 0xE2, CHR 0x80, CHR 0x83], [CHR 0xE2, CHR 0x80, CHR 0x84], [CHR 0xE2, CHR 0x80, CHR 0x85],
      [CHR 0xE2, CHR 0x80, CHR 0x86], [CHR 0xE2, CHR 0x80, CHR 0x87], [CHR 0xE2, CHR 0x80, CHR 0x88],
      [CHR 0xE2, CHR 0x80, CHR 0x89], [CHR 0xE2, CHR 0x80, CHR 0x8A], [CHR 0xE2, CHR 0x80, CHR 0xA8],
      [CHR 0xE2, CHR 0x80, CHR 0xA9], [CHR 0xE2, CHR 0x80, CHR 0xAF], [CHR 0xE2, CHR 0x81, CHR 0x9F],
      [CHR 0xE3, CHR 0x80, CHR 0x80]]"

text \<open>The number of bytes of the white space at the front of a string, 0 if there is none; bytes
  below 128 (\<open>digit7\<close> unset) take the ASCII path.\<close>

definition space_len :: "string list \<Rightarrow> string \<Rightarrow> nat" where
  "space_len wide s =
     (case s of
        [] \<Rightarrow> 0
      | c # _ \<Rightarrow>
          if \<not> digit7 c then (if ascii_space c then 1 else 0)
          else (case List.find (has_prefix s) wide of None \<Rightarrow> 0 | Some w \<Rightarrow> length w))"

function trim_left_wide :: "string list \<Rightarrow> string \<Rightarrow> string" where
  "trim_left_wide wide s =
     (case space_len wide s of 0 \<Rightarrow> s | Suc n \<Rightarrow> trim_left_wide wide (drop n (tl s)))"
  by pat_completeness auto
termination
  by (relation "measure (\<lambda>(wide, s). length s)") (auto simp: space_len_def split: list.splits)

declare trim_left_wide.simps [simp del]

definition trim_left :: "string \<Rightarrow> string" where
  "trim_left s = trim_left_wide wide_spaces s"

definition trim_right :: "string \<Rightarrow> string" where
  "trim_right s = rev (trim_left_wide (map rev wide_spaces) (rev s))"

definition trim_space :: "string \<Rightarrow> string" where
  "trim_space s = trim_right (trim_left s)"

text \<open>\<open>trim_space\<close> is idempotent: after one pass neither end begins with white space.\<close>

lemma trim_left_wide_stop: "space_len wide s = 0 \<Longrightarrow> trim_left_wide wide s = s"
  by (simp add: trim_left_wide.simps [of wide s])

lemma trim_left_wide_step:
  "space_len wide s \<noteq> 0 \<Longrightarrow> trim_left_wide wide s = trim_left_wide wide (drop (space_len wide s) s)"
  by (cases "space_len wide s") (simp_all add: trim_left_wide.simps [of wide s] drop_Suc)

lemma trim_left_wide_done: "space_len wide (trim_left_wide wide s) = 0"
proof (induction wide s rule: trim_left_wide.induct)
  case (1 wide s)
  then show ?case
    by (cases "space_len wide s") (auto simp: trim_left_wide.simps [of wide s])
qed

lemma trim_left_wide_suffix: "\<exists>p. s = p @ trim_left_wide wide s"
proof (induction "length s" arbitrary: s rule: less_induct)
  case less
  show ?case
  proof (cases "space_len wide s")
    case 0
    then show ?thesis by (simp add: trim_left_wide_stop)
  next
    case (Suc n)
    then have "s \<noteq> []" by (auto simp: space_len_def)
    then have "length (drop (Suc n) s) < length s" by (cases s) auto
    with less obtain p where "drop (Suc n) s = p @ trim_left_wide wide (drop (Suc n) s)" by blast
    then have "s = (take (Suc n) s @ p) @ trim_left_wide wide (drop (Suc n) s)"
      by (metis append_take_drop_id append.assoc)
    then show ?thesis using Suc trim_left_wide_step [of wide s] by (metis nat.distinct(1))
  qed
qed

lemma space_len_prefix:
  assumes "space_len wide (s @ t) = 0" and "[] \<notin> set wide"
  shows "space_len wide s = 0"
proof (cases s)
  case (Cons c u)
  have no: "\<not> has_prefix s w" if "w \<in> set wide" "digit7 c" for w
  proof -
    have "\<not> has_prefix (s @ t) w"
      using assms that Cons
      by (auto simp: space_len_def find_None_iff find_Some_iff split: option.splits if_splits) (metis nth_mem)
    then show ?thesis by (auto simp: has_prefix_iff)
  qed
  then have "List.find (has_prefix s) wide = None" if "digit7 c"
    using that by (auto simp: find_None_iff)
  then show ?thesis
    using assms(1) Cons by (auto simp: space_len_def split: if_splits)
qed (simp add: space_len_def)

lemma wide_spaces_nonempty: "[] \<notin> set wide_spaces"
  by (simp add: wide_spaces_def)

lemma trim_right_prefix: "\<exists>u. s = trim_right s @ u"
proof -
  obtain p where "rev s = p @ trim_left_wide (map rev wide_spaces) (rev s)"
    using trim_left_wide_suffix by blast
  then have "s = trim_right s @ rev p"
    unfolding trim_right_def by (metis rev_append rev_rev_ident)
  then show ?thesis ..
qed

lemma trim_right_idem: "trim_right (trim_right s) = trim_right s"
  by (simp add: trim_right_def trim_left_wide_stop trim_left_wide_done)

theorem trim_space_idem [simp, go_string]: "trim_space (trim_space s) = trim_space s"
proof -
  obtain u where "trim_left s = trim_space s @ u"
    unfolding trim_space_def using trim_right_prefix by blast
  moreover have "space_len wide_spaces (trim_left s) = 0"
    by (simp add: trim_left_def trim_left_wide_done)
  ultimately have "space_len wide_spaces (trim_space s) = 0"
    using space_len_prefix wide_spaces_nonempty by metis
  then have "trim_left (trim_space s) = trim_space s"
    by (simp add: trim_left_def trim_left_wide_stop)
  then show ?thesis
    by (simp add: trim_space_def trim_right_idem)
qed

lemma trim_space_Nil [simp, go_string]: "trim_space [] = []"
  by (simp add: trim_space_def trim_left_def trim_right_def trim_left_wide_stop space_len_def)

lemmas trim_eval = trim_space_def trim_left_def trim_right_def trim_left_wide.simps space_len_def ascii_space_def

text \<open>\<open>strings.Fields\<close>: the maximal runs of bytes between white space.\<close>

function fields_from :: "string \<Rightarrow> string \<Rightarrow> string list" where
  "fields_from cur [] = (if cur = [] then [] else [rev cur])"
| "fields_from cur (c # s) =
     (if space_len wide_spaces (c # s) = 0 then fields_from (c # cur) s
      else (if cur = [] then [] else [rev cur]) @
           fields_from [] (drop (space_len wide_spaces (c # s)) (c # s)))"
  by pat_completeness auto
termination
  by (relation "measure (\<lambda>(cur, s). length s)") auto

definition fields :: "string \<Rightarrow> string list" where "fields s = fields_from [] s"

text \<open>
  \<open>strings.ToLower\<close>, for comparison with ASCII text only: ASCII letters, and the two other
  code points whose lower case is ASCII (the Kelvin sign and the dotted capital I).  Every
  other byte outside ASCII is kept; its lower case has no ASCII byte either.
\<close>

definition lower_byte :: "char \<Rightarrow> char" where
  "lower_byte c = (if of_char c \<in> {65 .. 90 :: nat} then char_of (of_char c + (32 :: nat)) else c)"

fun to_lower :: "string \<Rightarrow> string" where
  "to_lower [] = []"
| "to_lower (c # s) =
     (if take 3 (c # s) = [CHR 0xE2, CHR 0x84, CHR 0xAA]
      then CHR ''k'' # to_lower (drop 2 s)
      else if take 2 (c # s) = [CHR 0xC4, CHR 0xB0]
      then CHR ''i'' # to_lower (drop 1 s)
      else lower_byte c # to_lower s)"

text \<open>\<open>strings.EqualFold\<close> against ASCII text: the long s and the Kelvin sign fold to ASCII letters.\<close>

fun fold_case :: "string \<Rightarrow> string" where
  "fold_case [] = []"
| "fold_case (c # s) =
     (if take 3 (c # s) = [CHR 0xE2, CHR 0x84, CHR 0xAA] then CHR ''k'' # fold_case (drop 2 s)
      else if take 2 (c # s) = [CHR 0xC5, CHR 0xBF] then CHR ''s'' # fold_case (drop 1 s)
      else lower_byte c # fold_case s)"

definition equal_fold :: "string \<Rightarrow> string \<Rightarrow> bool" where
  "equal_fold s t \<longleftrightarrow> fold_case s = fold_case t"

lemma equal_fold_refl [simp]: "equal_fold s s"
  by (simp add: equal_fold_def)

section \<open>Numbers in text\<close>

definition is_digit :: "char \<Rightarrow> bool" where
  "is_digit c \<longleftrightarrow> of_char c \<in> {48 .. 57 :: nat}"

definition digit_val :: "char \<Rightarrow> int" where
  "digit_val c = int (of_char c) - 48"

definition digits_val :: "string \<Rightarrow> int" where
  "digits_val s = fold (\<lambda>c n. 10 * n + digit_val c) s 0"

text \<open>\<open>strconv.ParseUint(s, 10, 64)\<close>, \<open>strconv.ParseInt(s, 10, 64)\<close> and, on 64-bit
  platforms, \<open>strconv.Atoi\<close>: \<open>None\<close> is a syntax or range error.\<close>

definition parse_uint :: "string \<Rightarrow> int option" where
  "parse_uint s =
     (if s \<noteq> [] \<and> list_all is_digit s \<and> digits_val s < 2 ^ 64 then Some (digits_val s) else None)"

definition parse_int :: "string \<Rightarrow> int option" where
  "parse_int s =
     (case s of
        [] \<Rightarrow> None
      | c # ds \<Rightarrow>
          (let neg = (c = CHR ''-''); body = (if c = CHR ''-'' \<or> c = CHR ''+'' then ds else s)
           in if body = [] \<or> \<not> list_all is_digit body then None
              else let n = (if neg then - digits_val body else digits_val body)
                   in if is_int64 n then Some n else None))"

fun nat_text :: "nat \<Rightarrow> string" where
  "nat_text n = (if n < 10 then [char_of (48 + n)] else nat_text (n div 10) @ [char_of (48 + n mod 10)])"

declare nat_text.simps [simp del]

definition itoa :: "int \<Rightarrow> string" where
  "itoa i = (if i < 0 then CHR ''-'' # nat_text (nat (- i)) else nat_text (nat i))"

lemma parse_int_bounds: "parse_int s = Some n \<Longrightarrow> is_int64 n"
  by (auto simp: parse_int_def Let_def split: list.splits if_splits)

lemma parse_uint_nonneg: "parse_uint s = Some n \<Longrightarrow> 0 \<le> n \<and> n < 2 ^ 64"
proof -
  have *: "list_all is_digit s \<Longrightarrow> 0 \<le> acc \<Longrightarrow> 0 \<le> fold (\<lambda>c n. 10 * n + digit_val c) s acc" for acc
    by (induction s arbitrary: acc) (auto simp: is_digit_def digit_val_def)
  show "parse_uint s = Some n \<Longrightarrow> 0 \<le> n \<and> n < 2 ^ 64"
    using * [of 0] by (auto simp: parse_uint_def digits_val_def split: if_splits)
qed

section \<open>Maps\<close>

type_synonym ('k, 'v) gomap = "('k \<times> 'v) list"

definition keys_distinct :: "('k, 'v) gomap \<Rightarrow> bool" where
  "keys_distinct m \<longleftrightarrow> distinct (map fst m)"

lemma keys_distinct_Nil [simp, go_map]: "keys_distinct []"
  by (simp add: keys_distinct_def)

lemma keys_distinct_update [simp, go_map]: "keys_distinct m \<Longrightarrow> keys_distinct (AList.update k v m)"
  by (simp add: keys_distinct_def distinct_update)

lemma keys_distinct_delete [simp, go_map]: "keys_distinct m \<Longrightarrow> keys_distinct (AList.delete k m)"
  by (simp add: keys_distinct_def distinct_delete)

lemma keys_distinct_filter [simp, go_map]: "keys_distinct m \<Longrightarrow> keys_distinct (filter P m)"
  by (simp add: keys_distinct_def distinct_map_filter)

lemma map_of_update_go [simp, go_map]: "map_of (AList.update k v m) = (map_of m)(k \<mapsto> v)"
  by (simp add: update_conv')

lemma map_of_delete_go [simp, go_map]: "map_of (AList.delete k m) = (map_of m)(k := None)"
  by (simp add: delete_conv')

lemma map_of_filter_Some:
  "keys_distinct m \<Longrightarrow> map_of m k = Some v \<Longrightarrow> P (k, v) \<Longrightarrow> map_of (filter P m) k = Some v"
  by (auto simp: keys_distinct_def distinct_map_filter)

lemma update_fresh: "map_of m k = None \<Longrightarrow> AList.update k v m = m @ [(k, v)]"
  by (induction m) (auto split: if_splits)

lemma length_update_fresh: "map_of m k = None \<Longrightarrow> length (AList.update k v m) = Suc (length m)"
  by (simp add: update_fresh)

lemma delete_fresh: "map_of m k = None \<Longrightarrow> AList.delete k m = m"
  by (induction m) (auto split: if_splits)

lemma update_present_keys: "map_of m k = Some w \<Longrightarrow> map fst (AList.update k v m) = map fst m"
  by (induction m) auto

lemma length_update_present: "map_of m k = Some w \<Longrightarrow> length (AList.update k v m) = length m"
  by (metis length_map update_present_keys)

lemma keys_distinct_snoc [simp, go_map]:
  "keys_distinct (m @ [(k, v)]) \<longleftrightarrow> keys_distinct m \<and> map_of m k = None"
  by (auto simp: keys_distinct_def map_of_eq_None_iff)

lemma dom_keys: "map_of m k \<noteq> None \<longleftrightarrow> k \<in> set (map fst m)"
  by (simp add: map_of_eq_None_iff)

end
