(* ===== verification/GoFs.thy ===== *)
theory GoFs
  imports GoBase
begin

text \<open>
  The file system as the program uses it: a map from paths to nodes, one operation per
  \<open>os\<close> call, and scripts of calls that stop at the first failure.  Which calls fail is not
  known, so it is an argument (an oracle); a failing \<open>Write\<close> leaves a partial file, every
  other failing call leaves the file system as it was.  The states between two calls are
  kept, so that a theorem can speak about a crash in the middle.  The locale
  \<open>publisher\<close> states what the temp-file-and-rename idiom promises; the components that use
  the idiom (\<open>reportcfg.Save\<close>, \<open>writeFileAtomic\<close>, \<open>writeGuest\<close>) interpret it.
\<close>

text \<open>A cleaned absolute path is the list of its components.\<close>

type_synonym path = "string list"

text \<open>Permission bits, written in octal in the source.\<close>

definition mode_0600 :: nat where "mode_0600 = 6 * 64"
definition mode_0644 :: nat where "mode_0644 = 6 * 64 + 4 * 8 + 4"
definition mode_0755 :: nat where "mode_0755 = 7 * 64 + 5 * 8 + 5"

datatype fnode = RegFile (fdata: string) (fmode: nat) | Symlink path | Directory

type_synonym fsys = "path \<rightharpoonup> fnode"

datatype fop =
    MkdirAll path
  | CreateTemp path
  | Chmod path nat
  | WriteTo path string
  | SyncFile path
  | CloseFile path
  | ChownFile path
  | RenameTo path path
  | RemoveFile path
  | TryRemove path
  | SymlinkTo path path

text \<open>The oracle: \<open>None\<close> lets a call go through, \<open>Some k\<close> makes it fail (a write after \<open>k\<close> bytes).\<close>

type_synonym fs_oracle = "fop \<Rightarrow> nat option"

fun fs_apply :: "fop \<Rightarrow> fsys \<Rightarrow> fsys option" where
  "fs_apply (MkdirAll p) fs =
     (case fs p of None \<Rightarrow> Some (fs(p \<mapsto> Directory)) | Some Directory \<Rightarrow> Some fs | Some _ \<Rightarrow> None)"
| "fs_apply (CreateTemp p) fs =
     (case fs p of None \<Rightarrow> Some (fs(p \<mapsto> RegFile [] mode_0600)) | Some _ \<Rightarrow> None)"
| "fs_apply (Chmod p m) fs =
     (case fs p of Some (RegFile d _) \<Rightarrow> Some (fs(p \<mapsto> RegFile d m)) | _ \<Rightarrow> None)"
| "fs_apply (WriteTo p d) fs =
     (case fs p of Some (RegFile e m) \<Rightarrow> Some (fs(p \<mapsto> RegFile (e @ d) m)) | _ \<Rightarrow> None)"
| "fs_apply (SyncFile p) fs = (case fs p of Some _ \<Rightarrow> Some fs | None \<Rightarrow> None)"
| "fs_apply (CloseFile p) fs = Some fs"
| "fs_apply (ChownFile p) fs = (case fs p of Some _ \<Rightarrow> Some fs | None \<Rightarrow> None)"
| "fs_apply (RenameTo p q) fs =
     (case fs p of Some n \<Rightarrow> Some ((fs(p := None))(q \<mapsto> n)) | None \<Rightarrow> None)"
| "fs_apply (RemoveFile p) fs = (case fs p of Some _ \<Rightarrow> Some (fs(p := None)) | None \<Rightarrow> None)"
| "fs_apply (TryRemove p) fs = Some (fs(p := None))"
| "fs_apply (SymlinkTo target p) fs =
     (case fs p of None \<Rightarrow> Some (fs(p \<mapsto> Symlink target)) | Some _ \<Rightarrow> None)"

text \<open>One call: the file system after it and whether it succeeded.  \<open>TryRemove\<close> is a removal whose
  error the caller ignores (\<open>_ = os.Remove(p)\<close>), so the script goes on after it.\<close>

fun fs_step :: "fs_oracle \<Rightarrow> fop \<Rightarrow> fsys \<Rightarrow> fsys \<times> bool" where
  "fs_step fails oper fs =
     (case fails oper of
        None \<Rightarrow> (case fs_apply oper fs of None \<Rightarrow> (fs, False) | Some fs' \<Rightarrow> (fs', True))
      | Some k \<Rightarrow>
          (case oper of
             WriteTo p d \<Rightarrow>
               ((case fs_apply (WriteTo p (take k d)) fs of None \<Rightarrow> fs | Some fs' \<Rightarrow> fs'), False)
           | TryRemove p \<Rightarrow> (fs, True)
           | _ \<Rightarrow> (fs, False)))"

declare fs_step.simps [simp del]

text \<open>A script: the file system at the end and the call that failed, if one did.\<close>

fun run_ops :: "fs_oracle \<Rightarrow> fop list \<Rightarrow> fsys \<Rightarrow> fsys \<times> fop option" where
  "run_ops fails [] fs = (fs, None)"
| "run_ops fails (oper # ops) fs =
     (case fs_step fails oper fs of
        (fs', True) \<Rightarrow> run_ops fails ops fs'
      | (fs', False) \<Rightarrow> (fs', Some oper))"

text \<open>Every file system a crash during the script can leave.\<close>

fun crash_states :: "fs_oracle \<Rightarrow> fop list \<Rightarrow> fsys \<Rightarrow> fsys list" where
  "crash_states fails [] fs = [fs]"
| "crash_states fails (oper # ops) fs =
     fs # (case fs_step fails oper fs of
             (fs', True) \<Rightarrow> crash_states fails ops fs'
           | (fs', False) \<Rightarrow> [fs'])"

text \<open>Calls whose error is ignored (\<open>_ = os.Remove(...)\<close>), and deferred clean-up.\<close>

definition fs_ignore :: "fs_oracle \<Rightarrow> fop \<Rightarrow> fsys \<Rightarrow> fsys" where
  "fs_ignore fails oper fs = fst (fs_step fails oper fs)"

definition no_faults :: fs_oracle where "no_faults = (\<lambda>_. None)"

fun op_paths :: "fop \<Rightarrow> path set" where
  "op_paths (MkdirAll p) = {p}"
| "op_paths (CreateTemp p) = {p}"
| "op_paths (Chmod p m) = {p}"
| "op_paths (WriteTo p d) = {p}"
| "op_paths (SyncFile p) = {}"
| "op_paths (CloseFile p) = {}"
| "op_paths (ChownFile p) = {}"
| "op_paths (RenameTo p q) = {p, q}"
| "op_paths (RemoveFile p) = {p}"
| "op_paths (TryRemove p) = {p}"
| "op_paths (SymlinkTo t p) = {p}"

text \<open>\<open>filepath.Join(dir, name)\<close>: the name is split at slashes and cleaned.\<close>

fun clean_step :: "path \<Rightarrow> string \<Rightarrow> path" where
  "clean_step p c = (if c = [] \<or> c = ''.'' then p else if c = ''..'' then butlast p else p @ [c])"

definition join_path :: "path \<Rightarrow> string \<Rightarrow> path" where
  "join_path dir name = fold (\<lambda>c p. clean_step p c) (split_on CHR ''/'' name) dir"

lemma split_on_single: "c \<notin> set s \<Longrightarrow> split_on c s = [s]"
  by (induction s) auto

lemma join_path_plain:
  "CHR ''/'' \<notin> set name \<Longrightarrow> name \<notin> {[], ''.'', ''..''} \<Longrightarrow> join_path dir name = dir @ [name]"
  by (simp add: join_path_def split_on_single)

section \<open>Frame and crash lemmas\<close>

lemma fs_apply_frame: "fs_apply oper fs = Some fs' \<Longrightarrow> p \<notin> op_paths oper \<Longrightarrow> fs' p = fs p"
  by (cases oper) (auto split: option.splits fnode.splits if_splits)

lemma fs_step_frame: "p \<notin> op_paths oper \<Longrightarrow> fst (fs_step fails oper fs) p = fs p"
proof (cases "fails oper")
  case None
  then show "p \<notin> op_paths oper \<Longrightarrow> ?thesis"
    by (auto simp: fs_step.simps split: option.splits dest: fs_apply_frame)
next
  case (Some k)
  then show "p \<notin> op_paths oper \<Longrightarrow> ?thesis"
    by (cases oper) (auto simp: fs_step.simps split: option.splits fnode.splits)
qed

lemma fs_step_ok:
  "fs_step fails oper fs = (fs', True) \<Longrightarrow> \<forall>p. oper \<noteq> TryRemove p \<Longrightarrow> fs_apply oper fs = Some fs'"
  by (cases oper) (auto simp: fs_step.simps split: option.splits)

lemma try_remove_step:
  "fs_step fails (TryRemove p) fs = (fs', ok) \<Longrightarrow> ok \<and> (fs' = fs \<or> fs' = fs(p := None))"
  by (auto simp: fs_step.simps split: option.splits)

lemma rename_step_ok:
  "fs_step fails (RenameTo p q) fs = (fs', True) \<Longrightarrow>
   \<exists>n. fs p = Some n \<and> fs' = (fs(p := None))(q \<mapsto> n)"
  by (auto dest!: fs_step_ok split: option.splits)

lemma rename_step_fail: "fs_step fails (RenameTo p q) fs = (fs', False) \<Longrightarrow> fs' = fs"
  by (auto simp: fs_step.simps split: option.splits)

lemma run_ops_Cons_ok:
  "run_ops fails (oper # ops) fs = (fs', None) \<longleftrightarrow>
     (\<exists>fs1. fs_step fails oper fs = (fs1, True) \<and> run_ops fails ops fs1 = (fs', None))"
  by (auto split: prod.splits bool.splits)

lemma fs_step_fail_same:
  "fs_step fails oper fs = (fs', False) \<Longrightarrow> \<forall>p d. oper \<noteq> WriteTo p d \<Longrightarrow> fs' = fs"
  by (cases oper) (auto simp: fs_step.simps split: option.splits)

lemma fs_ignore_frame [simp]: "p \<notin> op_paths oper \<Longrightarrow> fs_ignore fails oper fs p = fs p"
  by (simp add: fs_ignore_def fs_step_frame)

lemma fs_ignore_remove_absent [simp]: "fs p = None \<Longrightarrow> fs_ignore fails (RemoveFile p) fs = fs"
  by (auto simp: fs_ignore_def fs_step.simps split: option.splits)

lemma run_ops_frame:
  "p \<notin> \<Union> (op_paths ` set ops) \<Longrightarrow> fst (run_ops fails ops fs) p = fs p"
proof (induction ops arbitrary: fs)
  case (Cons oper ops)
  obtain fs' ok where st: "fs_step fails oper fs = (fs', ok)" by (cases "fs_step fails oper fs")
  have "fs' p = fs p" using fs_step_frame [of p oper fails fs] Cons.prems st by auto
  then show ?case using Cons st by (cases ok) auto
qed simp

lemma crash_states_frame:
  "p \<notin> \<Union> (op_paths ` set ops) \<Longrightarrow> fs' \<in> set (crash_states fails ops fs) \<Longrightarrow> fs' p = fs p"
proof (induction ops arbitrary: fs)
  case (Cons oper ops)
  obtain fs1 ok where st: "fs_step fails oper fs = (fs1, ok)" by (cases "fs_step fails oper fs")
  have "fs1 p = fs p" using fs_step_frame [of p oper fails fs] Cons.prems st by auto
  then show ?case using Cons st by (cases ok) auto
qed simp

lemma run_ops_append:
  "run_ops fails (xs @ ys) fs =
     (case run_ops fails xs fs of (fs', None) \<Rightarrow> run_ops fails ys fs' | (fs', Some x) \<Rightarrow> (fs', Some x))"
  by (induction xs arbitrary: fs) (auto split: prod.splits bool.splits)

lemma crash_states_append:
  "set (crash_states fails (xs @ ys) fs) =
     set (crash_states fails xs fs) \<union>
     (case run_ops fails xs fs of (fs', None) \<Rightarrow> set (crash_states fails ys fs') | (_, Some _) \<Rightarrow> {})"
proof (induction xs arbitrary: fs)
  case Nil
  then show ?case by (cases ys) auto
next
  case (Cons x xs)
  obtain fs1 ok where st: "fs_step fails x fs = (fs1, ok)" by (cases "fs_step fails x fs")
  show ?case using Cons.IH [of fs1] st by (cases ok) auto
qed

lemma run_ops_final_crash: "fst (run_ops fails ops fs) \<in> set (crash_states fails ops fs)"
proof (induction ops arbitrary: fs)
  case (Cons oper ops)
  obtain fs1 ok where st: "fs_step fails oper fs = (fs1, ok)" by (cases "fs_step fails oper fs")
  show ?case using Cons.IH [of fs1] st by (cases ok) auto
qed simp

section \<open>Atomic publication\<close>

text \<open>
  A publisher prepares a file under a temporary name with calls that touch nothing else and,
  when they all succeed, has put the data there with its mode; then it renames.
\<close>

locale publisher =
  fixes prep :: "path \<Rightarrow> string \<Rightarrow> fop list" and mode :: nat
  assumes prep_local: "oper \<in> set (prep tmp data) \<Longrightarrow> op_paths oper \<subseteq> {tmp}"
    and prep_content:
      "fs tmp = None \<Longrightarrow> run_ops fails (prep tmp data) fs = (fs', None) \<Longrightarrow>
       fs' tmp = Some (RegFile data mode)"
begin

lemma prep_frame: "p \<noteq> tmp \<Longrightarrow> p \<notin> \<Union> (op_paths ` set (prep tmp data))"
  using prep_local by fastforce

lemma publish_success:
  assumes "fs tmp = None" and "tmp \<noteq> path"
    and "run_ops fails (prep tmp data @ [RenameTo tmp path]) fs = (fs', None)"
  shows "fs' path = Some (RegFile data mode)" and "fs' tmp = None"
    and "p \<noteq> path \<Longrightarrow> p \<noteq> tmp \<Longrightarrow> fs' p = fs p"
proof -
  obtain fs1 where pre: "run_ops fails (prep tmp data) fs = (fs1, None)"
    and ren: "run_ops fails [RenameTo tmp path] fs1 = (fs', None)"
    using assms(3) by (auto simp: run_ops_append split: prod.splits option.splits)
  have c: "fs1 tmp = Some (RegFile data mode)" by (rule prep_content [OF assms(1) pre])
  have fr: "p \<noteq> tmp \<Longrightarrow> fs1 p = fs p" for p
    using run_ops_frame [OF prep_frame, of p tmp fails data fs] pre by simp
  have fs': "fs' = (fs1(tmp := None))(path \<mapsto> RegFile data mode)"
    using ren c by (auto split: prod.splits bool.splits dest!: rename_step_ok)
  show "fs' path = Some (RegFile data mode)" and "fs' tmp = None"
    using fs' assms(2) by auto
  show "p \<noteq> path \<Longrightarrow> p \<noteq> tmp \<Longrightarrow> fs' p = fs p"
    using fs' fr by auto
qed

lemma publish_crash:
  assumes "fs tmp = None" and "tmp \<noteq> path"
    and "fs' \<in> set (crash_states fails (prep tmp data @ [RenameTo tmp path]) fs)"
  shows "fs' path = fs path \<or> fs' path = Some (RegFile data mode)"
proof -
  have old: "fs2 path = fs path" if "fs2 \<in> set (crash_states fails (prep tmp data) fs)" for fs2
    using crash_states_frame [OF prep_frame [of path tmp data] that] assms(2) by simp
  show ?thesis
  proof (cases "fs' \<in> set (crash_states fails (prep tmp data) fs)")
    case False
    then obtain fs1 where pre: "run_ops fails (prep tmp data) fs = (fs1, None)"
      and mem: "fs' \<in> set (crash_states fails [RenameTo tmp path] fs1)"
      using assms(3) by (auto simp: crash_states_append split: prod.splits option.splits)
    have "fs1 path = fs path"
      using run_ops_frame [OF prep_frame, of path tmp fails data fs] pre assms(2) by simp
    moreover have "fs1 tmp = Some (RegFile data mode)" by (rule prep_content [OF assms(1) pre])
    moreover obtain fs2 ok where "fs_step fails (RenameTo tmp path) fs1 = (fs2, ok)"
      by (cases "fs_step fails (RenameTo tmp path) fs1")
    ultimately show ?thesis
      using mem assms(2)
      by (cases ok) (auto dest!: rename_step_ok dest: rename_step_fail)
  qed (simp add: old)
qed

lemma publish_failure:
  assumes "fs tmp = None" and "tmp \<noteq> path"
    and "run_ops fails (prep tmp data @ [RenameTo tmp path]) fs = (fs', Some oper)"
  shows "fs' path = fs path"
proof (cases "run_ops fails (prep tmp data) fs")
  case (Pair fs1 r)
  have fr: "fs1 path = fs path"
    using run_ops_frame [OF prep_frame, of path tmp fails data fs] Pair assms(2) by simp
  show ?thesis
    using assms(3) Pair fr
    by (cases r) (auto simp: run_ops_append split: prod.splits bool.splits dest: rename_step_fail)
qed

end

end
