(* ===== verification/GoUrl.thy ===== *)
theory GoUrl
  imports GoBase
begin

text \<open>
  What the program reads from a parsed URL.  \<open>net/url.Parse\<close> is an argument of every
  definition that parses a URL (\<open>url_parse\<close>, \<open>None\<close> for its error); the fields below are
  the ones the code looks at: \<open>Scheme\<close>, \<open>Host\<close> (with port), \<open>Hostname()\<close>, \<open>Port()\<close> and \<open>Path\<close>.
\<close>

record url =
  u_scheme :: string
  u_host :: string
  u_hostname :: string
  u_port :: string
  u_path :: string

type_synonym url_parser = "string \<Rightarrow> url option"

text \<open>A stand-in parser for concrete examples: \<open>scheme://host[:port]/path\<close> without user information,
  query, fragment, escapes or IPv6 literals.\<close>

definition demo_parse :: url_parser where
  "demo_parse s =
     (case cut_at CHR '':'' s of
        None \<Rightarrow> None
      | Some (scheme, rest) \<Rightarrow>
          if \<not> has_prefix rest ''//'' then None
          else
            (let r = drop 2 rest;
                 (auth, path) = (case cut_at CHR ''/'' r of None \<Rightarrow> (r, '''') | Some (a, b) \<Rightarrow> (a, CHR ''/'' # b));
                 (name, port) = (case cut_at CHR '':'' auth of None \<Rightarrow> (auth, '''') | Some (a, b) \<Rightarrow> (a, b))
             in Some \<lparr>u_scheme = scheme, u_host = auth, u_hostname = name, u_port = port, u_path = path\<rparr>))"

end
