(* ===== verification/SelfUpdate.thy ===== *)
theory SelfUpdate
  imports GoFs GoUrl
begin

text \<open>
  \<open>internal/selfupdate/update.go\<close> (and the staging half of the Windows path): the manifest and
  its validation, the release layout, the download with its size and hash checks, and the
  switch of the \<open>current\<close> link.  Every call on the file system is a \<open>fop\<close> of \<open>GoFs\<close>, so the
  theorems cover a crash between any two calls.  The HTTP response is an input;
  SHA-256 (as hex text) is an argument.
\<close>

section \<open>Manifest\<close>

record manifest =
  m_id :: string
  m_version :: string
  m_url :: string
  m_sha :: string
  m_size :: int
  m_secret :: string

datatype upd_error =
    UpdDisabled
  | VersionEmpty | VersionInvalid | VersionSeparator
  | ShaEmpty | ShaLength | SizeNotPositive | SizeTooLarge
  | UpdUrlParse | UpdUrlScheme | UpdUrlHost
  | DownloadFailed | DownloadStatus | CopyFailed | SizeExceeds | SizeMismatch | ShaMismatch
  | UpdOpFailed fop

definition validate_manifest :: "url_parser \<Rightarrow> manifest \<Rightarrow> upd_error + unit" where
  "validate_manifest url_parse m =
     (if trim_space (m_version m) = '''' then Inl VersionEmpty
      else if m_version m = ''.'' \<or> m_version m = ''..'' then Inl VersionInvalid
      else if list_ex (\<lambda>c. c = CHR ''/'' \<or> c = CHR 0x5C) (m_version m) then Inl VersionSeparator
      else if trim_space (m_sha m) = '''' then Inl ShaEmpty
      else if length (trim_space (m_sha m)) \<noteq> 32 * 2 then Inl ShaLength
      else if m_size m \<le> 0 then Inl SizeNotPositive
      else if wrap64 (m_size m + 1) \<le> m_size m then Inl SizeTooLarge
      else case url_parse (trim_space (m_url m)) of
        None \<Rightarrow> Inl UpdUrlParse
      | Some u \<Rightarrow>
          if u_scheme u \<noteq> ''http'' \<and> u_scheme u \<noteq> ''https'' then Inl UpdUrlScheme
          else if u_host u = '''' then Inl UpdUrlHost
          else Inr ())"

section \<open>Release layout\<close>

definition node_name :: string where "node_name = ''ithiltir-node''"

definition releases_dir :: "path \<Rightarrow> path" where "releases_dir home = join_path home ''releases''"
definition current_dir :: "path \<Rightarrow> path" where "current_dir home = join_path home ''current''"
definition current_node_path :: "path \<Rightarrow> path" where
  "current_node_path home = join_path (current_dir home) node_name"
definition release_dir :: "path \<Rightarrow> string \<Rightarrow> path" where
  "release_dir home version = join_path (releases_dir home) version"
definition release_node_path :: "path \<Rightarrow> string \<Rightarrow> path" where
  "release_node_path home version = join_path (release_dir home version) node_name"

definition staging_dir :: "path \<Rightarrow> path" where "staging_dir home = join_path home ''staging''"
definition staged_node_path :: "path \<Rightarrow> path" where
  "staged_node_path home = join_path (staging_dir home) ''ithiltir-node.exe.new''"
definition staged_manifest_path :: "path \<Rightarrow> path" where
  "staged_manifest_path home = join_path (staging_dir home) ''manifest.json''"

text \<open>\<open>filepath.Rel\<close> of two cleaned absolute paths.\<close>

definition path_rel :: "path \<Rightarrow> path \<Rightarrow> path" where
  "path_rel base targ =
     (let n = length (takeWhile (\<lambda>(a, b). a = b) (zip base targ))
      in replicate (length base - n) ''..'' @ drop n targ)"

definition unix_release_version :: "path \<Rightarrow> path \<Rightarrow> string option" where
  "unix_release_version home p =
     (if p = [] \<or> last p \<noteq> node_name then None
      else let rel = path_rel (releases_dir home) p in
        if rel = [] \<or> hd rel = ''..'' then None
        else if last rel \<noteq> node_name then None
        else if butlast rel = [] \<or> length (butlast rel) \<noteq> 1 then None
        else Some (hd rel))"

definition current_unix_version :: "path \<Rightarrow> fsys \<Rightarrow> string option" where
  "current_unix_version home fs =
     (case fs (current_dir home) of
        Some (Symlink link) \<Rightarrow> unix_release_version home (join_path link node_name)
      | _ \<Rightarrow> None)"

text \<open>\<open>exe\<close> is the result of \<open>os.Executable\<close>.\<close>

definition active_unix_version :: "path \<Rightarrow> path option \<Rightarrow> fsys \<Rightarrow> string option" where
  "active_unix_version home exe fs =
     (case exe of
        None \<Rightarrow> None
      | Some p \<Rightarrow> if p = current_node_path home then current_unix_version home fs
                 else unix_release_version home p)"

definition unix_managed_path :: "path \<Rightarrow> path \<Rightarrow> fsys \<Rightarrow> bool" where
  "unix_managed_path home p fs =
     (if p = current_node_path home then current_unix_version home fs \<noteq> None
      else unix_release_version home p \<noteq> None)"

definition installed_unix :: "path \<Rightarrow> path option \<Rightarrow> fsys \<Rightarrow> bool" where
  "installed_unix home exe fs = (case exe of None \<Rightarrow> False | Some p \<Rightarrow> unix_managed_path home p fs)"

section \<open>Download\<close>

record download_resp =
  dr_error :: bool
  dr_status :: int
  dr_body :: string
  dr_read_fails :: bool

text \<open>The calls of \<open>download\<close> on the temporary file, and the error it returns after them.  The body
  is read through \<open>io.LimitReader(resp.Body, m.Size+1)\<close>; a read error past the limit is never seen.\<close>

definition download_plan ::
  "(string \<Rightarrow> string) \<Rightarrow> manifest \<Rightarrow> path \<Rightarrow> nat \<Rightarrow> download_resp \<Rightarrow> fop list \<times> upd_error option" where
  "download_plan sha m tmp mode resp =
     (if dr_error resp then ([], Some DownloadFailed)
      else if dr_status resp \<noteq> 200 then ([], Some DownloadStatus)
      else
        (let data = take (nat (m_size m + 1)) (dr_body resp);
             n = int (length data);
             ops = [Chmod tmp mode, WriteTo tmp data]
         in if dr_read_fails resp \<and> int (length (dr_body resp)) \<le> m_size m then (ops, Some CopyFailed)
            else if n > m_size m then (ops, Some SizeExceeds)
            else if n \<noteq> m_size m then (ops, Some SizeMismatch)
            else if \<not> equal_fold (sha data) (trim_space (m_sha m)) then (ops, Some ShaMismatch)
            else (ops @ [SyncFile tmp], None)))"

section \<open>Applying an update\<close>

text \<open>\<open>switchCurrent\<close>: the link is staged under a temporary name and renamed over \<open>current\<close>.\<close>

definition switch_current_ops :: "path \<Rightarrow> path \<Rightarrow> path \<Rightarrow> fop list" where
  "switch_current_ops home ltmp target =
     [TryRemove ltmp, SymlinkTo target ltmp, RenameTo ltmp (current_dir home)]"

definition apply_unix_plan ::
  "(string \<Rightarrow> string) \<Rightarrow> path \<Rightarrow> manifest \<Rightarrow> path \<Rightarrow> path \<Rightarrow> download_resp \<Rightarrow> fop list \<times> upd_error option" where
  "apply_unix_plan sha home m tmp ltmp resp =
     (let target = release_dir home (m_version m) in
      case download_plan sha m tmp mode_0755 resp of
        (ops, Some e) \<Rightarrow> ([MkdirAll target, CreateTemp tmp] @ ops, Some e)
      | (ops, None) \<Rightarrow>
          ([MkdirAll target, CreateTemp tmp] @ ops @
           [CloseFile tmp, RenameTo tmp (release_node_path home (m_version m))] @
           switch_current_ops home ltmp target, None))"

datatype upd_outcome = UpdNone | UpdRestart | UpdFailed upd_error

definition run_plan :: "fs_oracle \<Rightarrow> fop list \<times> upd_error option \<Rightarrow> fsys \<Rightarrow> fsys \<times> upd_outcome" where
  "run_plan fails plan fs =
     (case run_ops fails (fst plan) fs of
        (fs', Some oper) \<Rightarrow> (fs', UpdFailed (UpdOpFailed oper))
      | (fs', None) \<Rightarrow> (fs', case snd plan of None \<Rightarrow> UpdRestart | Some e \<Rightarrow> UpdFailed e))"

text \<open>\<open>applyUnix\<close>; the deferred removals of the two temporary names close the run.\<close>

definition apply_unix ::
  "fs_oracle \<Rightarrow> (string \<Rightarrow> string) \<Rightarrow> path \<Rightarrow> path option \<Rightarrow> manifest \<Rightarrow> path \<Rightarrow> path \<Rightarrow> download_resp \<Rightarrow>
   fsys \<Rightarrow> fsys \<times> upd_outcome" where
  "apply_unix fails sha home exe m tmp ltmp resp fs =
     (if active_unix_version home exe fs = Some (m_version m) then (fs, UpdNone)
      else case run_plan fails (apply_unix_plan sha home m tmp ltmp resp) fs of
        (fs1, out) \<Rightarrow>
          (let fs2 = (case out of
                        UpdFailed (UpdOpFailed (RenameTo p q)) \<Rightarrow>
                          (if p = ltmp then fs_ignore fails (TryRemove ltmp) fs1 else fs1)
                      | _ \<Rightarrow> fs1)
           in (case out of
                 UpdFailed (UpdOpFailed (MkdirAll _)) \<Rightarrow> fs2
               | UpdFailed (UpdOpFailed (CreateTemp _)) \<Rightarrow> fs2
               | _ \<Rightarrow> fs_ignore fails (TryRemove tmp) fs2, out)))"

text \<open>\<open>Apply\<close> on Linux and macOS.\<close>

definition apply_update_unix ::
  "fs_oracle \<Rightarrow> url_parser \<Rightarrow> (string \<Rightarrow> string) \<Rightarrow> path \<Rightarrow> path option \<Rightarrow> manifest \<Rightarrow> path \<Rightarrow> path \<Rightarrow>
   download_resp \<Rightarrow> fsys \<Rightarrow> fsys \<times> upd_outcome" where
  "apply_update_unix fails url_parse sha home exe m tmp ltmp resp fs =
     (if \<not> installed_unix home exe fs then (fs, UpdFailed UpdDisabled)
      else case validate_manifest url_parse m of
        Inl e \<Rightarrow> (fs, UpdFailed e)
      | Inr _ \<Rightarrow> apply_unix fails sha home exe m tmp ltmp resp fs)"

section \<open>Staging for the Windows runner\<close>

definition atomic_prep :: "path \<Rightarrow> nat \<Rightarrow> string \<Rightarrow> fop list" where
  "atomic_prep tmp mode data =
     [CreateTemp tmp, Chmod tmp mode, WriteTo tmp data, SyncFile tmp, CloseFile tmp]"

text \<open>\<open>writeFileAtomic\<close>.\<close>

definition write_file_atomic :: "path \<Rightarrow> path \<Rightarrow> string \<Rightarrow> nat \<Rightarrow> fop list" where
  "write_file_atomic tmp dest data mode = atomic_prep tmp mode data @ [RenameTo tmp dest]"

text \<open>\<open>stageWindows\<close>: \<open>body\<close> is the JSON text of the manifest, \<open>None\<close> if it cannot be encoded.\<close>

definition stage_windows_plan ::
  "(string \<Rightarrow> string) \<Rightarrow> path \<Rightarrow> manifest \<Rightarrow> path \<Rightarrow> path \<Rightarrow> download_resp \<Rightarrow> string option \<Rightarrow>
   fop list \<times> upd_error option" where
  "stage_windows_plan sha home m tmp mtmp resp body =
     (let head = [MkdirAll (staging_dir home), TryRemove (staged_manifest_path home),
                  TryRemove (staged_node_path home), CreateTemp tmp]
      in case download_plan sha m tmp mode_0644 resp of
           (ops, Some e) \<Rightarrow> (head @ ops, Some e)
         | (ops, None) \<Rightarrow>
             (let ops1 = head @ ops @ [CloseFile tmp, RenameTo tmp (staged_node_path home)]
              in case body of
                   None \<Rightarrow> (ops1, Some CopyFailed)
                 | Some text \<Rightarrow>
                     (ops1 @ write_file_atomic mtmp (staged_manifest_path home) text mode_0600, None)))"

interpretation atomic_pub: publisher "\<lambda>tmp. atomic_prep tmp mode" mode for mode
proof
  show "op_paths oper \<subseteq> {tmp}" if "oper \<in> set (atomic_prep tmp mode data)" for oper tmp data
    using that by (auto simp: atomic_prep_def)
  show "fs' tmp = Some (RegFile data mode)"
    if "fs tmp = None" and "run_ops fails (atomic_prep tmp mode data) fs = (fs', None)"
    for fs tmp fails data fs'
    using that
    by (auto simp: atomic_prep_def run_ops_Cons_ok simp del: run_ops.simps(2) dest!: fs_step_ok split: option.splits)
qed

text \<open>A staged manifest is never seen half written.\<close>

lemma write_file_atomic_crash:
  assumes "fs tmp = None" and "tmp \<noteq> dest"
    and "fs' \<in> set (crash_states fails (write_file_atomic tmp dest data mode) fs)"
  shows "fs' dest = fs dest \<or> fs' dest = Some (RegFile data mode)"
  using atomic_pub.publish_crash [of fs tmp dest] assms by (simp add: write_file_atomic_def)

section \<open>The layout\<close>

lemma layout_dirs [simp]:
  "releases_dir home = home @ [''releases'']"
  "current_dir home = home @ [''current'']"
  "staging_dir home = home @ [''staging'']"
  by (simp_all add: releases_dir_def current_dir_def staging_dir_def join_path_plain)

lemma layout_files [simp]:
  "current_node_path home = home @ [''current'', node_name]"
  "staged_node_path home = home @ [''staging'', ''ithiltir-node.exe.new'']"
  "staged_manifest_path home = home @ [''staging'', ''manifest.json'']"
  by (simp_all add: current_node_path_def staged_node_path_def staged_manifest_path_def node_name_def
      join_path_plain)

lemma join_node_name [simp]: "join_path dir node_name = dir @ [node_name]"
  by (simp add: node_name_def join_path_plain)

lemma valid_version:
  assumes "validate_manifest url_parse m = Inr ()"
  shows "CHR ''/'' \<notin> set (m_version m)" and "m_version m \<notin> {[], ''.'', ''..''}"
    and "0 < m_size m" and "m_size m < max_int64"
proof -
  have v: "trim_space (m_version m) \<noteq> ''''" and d: "\<not> (m_version m = ''.'' \<or> m_version m = ''..'')"
    and sl: "\<not> list_ex (\<lambda>c. c = CHR ''/'' \<or> c = CHR 0x5C) (m_version m)"
    and pos: "\<not> m_size m \<le> 0" and ov: "\<not> wrap64 (m_size m + 1) \<le> m_size m"
    using assms unfolding validate_manifest_def by (metis sum.distinct(1))+
  show "CHR ''/'' \<notin> set (m_version m)" using sl by (auto simp: list_ex_iff)
  have "m_version m \<noteq> []" using v trim_space_Nil by metis
  then show "m_version m \<notin> {[], ''.'', ''..''}" using d by simp
  show "0 < m_size m" using pos by simp
  show "m_size m < max_int64"
  proof (rule ccontr)
    assume "\<not> m_size m < max_int64"
    then have "wrap64 (m_size m + 1) \<le> m_size m"
      using is_int64_wrap64 [of "m_size m + 1"] by (simp add: is_int64_def)
    with ov show False ..
  qed
qed

lemma release_dir_inside:
  assumes "validate_manifest url_parse m = Inr ()"
  shows "release_dir home (m_version m) = home @ [''releases'', m_version m] \<and>
         release_node_path home (m_version m) = home @ [''releases'', m_version m, ''ithiltir-node'']"
  using valid_version [OF assms] by (simp add: release_dir_def release_node_path_def join_path_plain node_name_def)

text \<open>A validated manifest cannot leave the release tree: whatever its version text, the release
  directory is a direct child of \<open>releases\<close>.\<close>

theorem release_dir_no_traversal:
  assumes "validate_manifest url_parse m = Inr ()"
  shows "release_dir home (m_version m) = home @ [''releases'', m_version m] \<and>
         release_node_path home (m_version m) = home @ [''releases'', m_version m, ''ithiltir-node'']"
  using assms by (rule release_dir_inside)

lemma takeWhile_zip_full:
  "length (takeWhile (\<lambda>(a, b). a = b) (zip xs ys)) = length xs \<longleftrightarrow> take (length xs) ys = xs"
proof (induction xs arbitrary: ys)
  case (Cons x xs)
  then show ?case by (cases ys) auto
qed simp

lemma path_rel_inside: "path_rel base (base @ rest) = rest"
proof -
  have "length (takeWhile (\<lambda>(a, b). a = b) (zip base (base @ rest))) = length base"
    by (simp add: takeWhile_zip_full)
  then show ?thesis by (simp add: path_rel_def Let_def)
qed

lemma path_rel_outside:
  assumes "\<nexists>rest. targ = base @ rest"
  shows "path_rel base targ \<noteq> [] \<and> hd (path_rel base targ) = ''..''"
proof -
  let ?n = "length (takeWhile (\<lambda>(a, b). a = b) (zip base targ))"
  have "?n \<noteq> length base"
  proof
    assume "?n = length base"
    then have "take (length base) targ = base" by (simp add: takeWhile_zip_full)
    then have "targ = base @ drop (length base) targ" by (metis append_take_drop_id)
    then show False using assms by blast
  qed
  moreover have "?n \<le> length (zip base targ)" by (rule length_takeWhile_le)
  then have "?n \<le> length base" by simp
  ultimately have "length base - ?n = Suc (length base - ?n - 1)" by simp
  then have "\<exists>k. length base - ?n = Suc k" ..
  then show ?thesis by (auto simp: path_rel_def Let_def)
qed

text \<open>A path counts as an installed release exactly when it is
  \<open>releases/<version>/ithiltir-node\<close> under the home directory.\<close>

theorem unix_release_version_iff:
  "unix_release_version home p = Some v \<longleftrightarrow>
     p = home @ [''releases'', v, ''ithiltir-node''] \<and> v \<noteq> ''..''"
proof (cases "\<exists>rest. p = (home @ [''releases'']) @ rest")
  case True
  then obtain rest where p: "p = (home @ [''releases'']) @ rest" by blast
  have rel: "path_rel (releases_dir home) p = rest" unfolding p layout_dirs by (rule path_rel_inside)
  show ?thesis
  proof (cases rest rule: rev_cases)
    case Nil
    then show ?thesis using p rel by (auto simp: unix_release_version_def)
  next
    case (snoc ys y)
    then show ?thesis using p rel
      by (cases ys) (auto simp: unix_release_version_def Let_def node_name_def)
  qed
next
  case False
  then have "path_rel (releases_dir home) p \<noteq> [] \<and> hd (path_rel (releases_dir home) p) = ''..''"
    unfolding layout_dirs by (intro path_rel_outside) simp
  then have "unix_release_version home p = None" by (simp add: unix_release_version_def Let_def)
  then show ?thesis using False by auto
qed

section \<open>Download\<close>

lemma download_plan_ok:
  assumes "download_plan sha m tmp mode resp = (ops, None)"
  obtains data where "ops = [Chmod tmp mode, WriteTo tmp data, SyncFile tmp]"
    and "int (length data) = m_size m" and "equal_fold (sha data) (trim_space (m_sha m))"
    and "dr_status resp = 200" and "data = take (nat (m_size m + 1)) (dr_body resp)"
  using assms by (auto simp: download_plan_def Let_def split: if_splits)

lemma download_plan_local: "oper \<in> set (fst (download_plan sha m tmp mode resp)) \<Longrightarrow> op_paths oper \<subseteq> {tmp}"
  by (auto simp: download_plan_def Let_def split: if_splits)

section \<open>Crash safety of the release switch\<close>

text \<open>The temporary names: the download is a new file of the release directory, the staged link a
  new entry of the home directory.\<close>

definition fresh_names :: "path \<Rightarrow> manifest \<Rightarrow> path \<Rightarrow> path \<Rightarrow> fsys \<Rightarrow> bool" where
  "fresh_names home m tmp ltmp fs \<longleftrightarrow>
     (\<exists>t. tmp = home @ [''releases'', m_version m, t] \<and> t \<noteq> node_name) \<and> fs tmp = None \<and>
     (\<exists>l. ltmp = home @ [l] \<and> l \<noteq> ''current'' \<and> l \<noteq> ''releases'')"

text \<open>The node binary a manifest promises: exact size, matching hash.\<close>

definition verified :: "(string \<Rightarrow> string) \<Rightarrow> manifest \<Rightarrow> string \<Rightarrow> bool" where
  "verified sha m data \<longleftrightarrow> int (length data) = m_size m \<and> equal_fold (sha data) (trim_space (m_sha m))"

lemma apply_unix_plan_err:
  assumes "apply_unix_plan sha home m tmp ltmp resp = (ops, Some e)"
    and "validate_manifest url_parse m = Inr ()" and "fresh_names home m tmp ltmp fs"
  shows "current_dir home \<notin> \<Union> (op_paths ` set ops)"
proof -
  have "current_dir home \<noteq> tmp" and "current_dir home \<noteq> release_dir home (m_version m)"
    using assms(3) release_dir_inside [OF assms(2)] by (auto simp: fresh_names_def)
  moreover have "ops = [MkdirAll (release_dir home (m_version m)), CreateTemp tmp] @
      fst (download_plan sha m tmp mode_0755 resp)"
    using assms(1) by (auto simp: apply_unix_plan_def Let_def split: prod.splits option.splits)
  ultimately show ?thesis
    using download_plan_local [of _ sha m tmp mode_0755 resp] by fastforce
qed

lemma apply_unix_plan_ok:
  assumes "apply_unix_plan sha home m tmp ltmp resp = (ops, None)"
    and "validate_manifest url_parse m = Inr ()"
  obtains pre data where "ops = pre @ [RenameTo ltmp (home @ [''current''])]" and "verified sha m data"
    and "pre = [MkdirAll (home @ [''releases'', m_version m]), CreateTemp tmp, Chmod tmp mode_0755,
                WriteTo tmp data, SyncFile tmp, CloseFile tmp,
                RenameTo tmp (home @ [''releases'', m_version m, node_name]), TryRemove ltmp,
                SymlinkTo (home @ [''releases'', m_version m]) ltmp]"
proof -
  obtain dops where d: "download_plan sha m tmp mode_0755 resp = (dops, None)"
    using assms(1) by (auto simp: apply_unix_plan_def Let_def split: prod.splits option.splits)
  then obtain data where "dops = [Chmod tmp mode_0755, WriteTo tmp data, SyncFile tmp]" "verified sha m data"
    by (auto simp: verified_def elim: download_plan_ok)
  with d assms(1) release_dir_inside [OF assms(2), of home] show thesis
    by (intro that [of "[MkdirAll (home @ [''releases'', m_version m]), CreateTemp tmp, Chmod tmp mode_0755,
                WriteTo tmp data, SyncFile tmp, CloseFile tmp,
                RenameTo tmp (home @ [''releases'', m_version m, node_name]), TryRemove ltmp,
                SymlinkTo (home @ [''releases'', m_version m]) ltmp]" data])
      (auto simp: apply_unix_plan_def Let_def switch_current_ops_def node_name_def)
qed

lemma switch_prefix_result:
  assumes "fresh_names home m tmp ltmp fs"
    and "run_ops fails [MkdirAll (home @ [''releases'', m_version m]), CreateTemp tmp, Chmod tmp mode,
                WriteTo tmp data, SyncFile tmp, CloseFile tmp,
                RenameTo tmp (home @ [''releases'', m_version m, node_name]), TryRemove ltmp,
                SymlinkTo (home @ [''releases'', m_version m]) ltmp] fs = (fs1, None)"
  shows "fs1 ltmp = Some (Symlink (home @ [''releases'', m_version m]))"
    and "fs1 (home @ [''releases'', m_version m, node_name]) = Some (RegFile data mode)"
proof -
  obtain t l where tmp: "tmp = home @ [''releases'', m_version m, t]" and t: "t \<noteq> node_name"
    and ltmp: "ltmp = home @ [l]" and l: "l \<noteq> ''current''" "l \<noteq> ''releases''" and none: "fs tmp = None"
    using assms(1) by (auto simp: fresh_names_def)
  have "fs1 ltmp = Some (Symlink (home @ [''releases'', m_version m])) \<and>
        fs1 (home @ [''releases'', m_version m, node_name]) = Some (RegFile data mode)"
    using assms(2) none t unfolding tmp ltmp
    by (auto simp: run_ops_Cons_ok simp del: run_ops.simps(2) dest!: fs_step_ok try_remove_step
        split: option.splits fnode.splits)
  then show "fs1 ltmp = Some (Symlink (home @ [''releases'', m_version m]))"
    and "fs1 (home @ [''releases'', m_version m, node_name]) = Some (RegFile data mode)" by simp_all
qed

text \<open>C1. At every point of an update, also after a crash or a failed call, \<open>current\<close> is either what
  it was or the new release, and then the release holds a binary of exactly the promised size and hash.\<close>

theorem current_never_unverified:
  assumes "validate_manifest url_parse m = Inr ()" and "fresh_names home m tmp ltmp fs"
    and "fs' \<in> set (crash_states fails (fst (apply_unix_plan sha home m tmp ltmp resp)) fs)"
  shows "fs' (home @ [''current'']) = fs (home @ [''current'']) \<or>
    (fs' (home @ [''current'']) = Some (Symlink (home @ [''releases'', m_version m])) \<and>
     (\<exists>data. fs' (home @ [''releases'', m_version m, ''ithiltir-node'']) = Some (RegFile data mode_0755) \<and>
             verified sha m data))"
proof (cases "apply_unix_plan sha home m tmp ltmp resp")
  case (Pair ops err)
  show ?thesis
  proof (cases err)
    case (Some e)
    then show ?thesis
      using crash_states_frame [OF apply_unix_plan_err [OF _ assms(1,2)]] assms(3) Pair by auto
  next
    case None
    obtain pre data where ops: "ops = pre @ [RenameTo ltmp (home @ [''current''])]" and ver: "verified sha m data"
      and pre: "pre = [MkdirAll (home @ [''releases'', m_version m]), CreateTemp tmp, Chmod tmp mode_0755,
                WriteTo tmp data, SyncFile tmp, CloseFile tmp,
                RenameTo tmp (home @ [''releases'', m_version m, node_name]), TryRemove ltmp,
                SymlinkTo (home @ [''releases'', m_version m]) ltmp]"
      using apply_unix_plan_ok [OF _ assms(1)] Pair None by metis
    have frame: "home @ [''current''] \<notin> \<Union> (op_paths ` set pre)"
      using assms(2) unfolding pre by (auto simp: fresh_names_def)
    show ?thesis
    proof (cases "fs' \<in> set (crash_states fails pre fs)")
      case True
      then show ?thesis using crash_states_frame [OF frame] by blast
    next
      case False
      then obtain fs1 where run: "run_ops fails pre fs = (fs1, None)"
        and mem: "fs' \<in> set (crash_states fails [RenameTo ltmp (home @ [''current''])] fs1)"
        using assms(3) Pair ops by (auto simp: crash_states_append split: prod.splits option.splits)
      note fs1 = switch_prefix_result [OF assms(2) run [unfolded pre]]
      obtain l where l: "ltmp = home @ [l]" using assms(2) by (auto simp: fresh_names_def)
      have same: "fs1 (home @ [''current'']) = fs (home @ [''current''])"
        using run_ops_frame [OF frame, of fails fs] run by simp
      obtain fs2 ok where "fs_step fails (RenameTo ltmp (home @ [''current''])) fs1 = (fs2, ok)"
        by (cases "fs_step fails (RenameTo ltmp (home @ [''current''])) fs1")
      then show ?thesis
        using mem fs1 same ver l
        by (cases ok) (auto simp: node_name_def dest!: rename_step_ok dest: rename_step_fail)
    qed
  qed
qed

text \<open>C23. \<open>Apply\<close> asks for a restart only after \<open>current\<close> points to the verified release; a running
  release of the same version is left alone; in every other case \<open>current\<close> is untouched.\<close>

theorem apply_unix_outcome:
  assumes "validate_manifest url_parse m = Inr ()" and "fresh_names home m tmp ltmp fs"
    and "apply_unix fails sha home exe m tmp ltmp resp fs = (fs', out)"
  shows "(out = UpdNone \<longleftrightarrow> active_unix_version home exe fs = Some (m_version m)) \<and>
    (if out = UpdRestart
     then fs' (home @ [''current'']) = Some (Symlink (home @ [''releases'', m_version m])) \<and>
          (\<exists>data. fs' (home @ [''releases'', m_version m, ''ithiltir-node'']) = Some (RegFile data mode_0755) \<and>
                  verified sha m data)
     else fs' (home @ [''current'']) = fs (home @ [''current'']))"
proof (cases "active_unix_version home exe fs = Some (m_version m)")
  case True
  then show ?thesis using assms(3) by (auto simp: apply_unix_def)
next
  case False
  obtain ops err where plan: "apply_unix_plan sha home m tmp ltmp resp = (ops, err)" by fastforce
  obtain fs1 r where run: "run_ops fails ops fs = (fs1, r)" by fastforce
  obtain t l where names: "tmp = home @ [''releases'', m_version m, t]" "t \<noteq> node_name"
    "ltmp = home @ [l]" "l \<noteq> ''current''" "l \<noteq> ''releases''"
    using assms(2) by (auto simp: fresh_names_def)
  let ?c = "home @ [''current'']" and ?n = "home @ [''releases'', m_version m, ''ithiltir-node'']"
  have keep: "fs' ?c = fs1 ?c" "fs' ?n = fs1 ?n"
    using assms(3) False plan run names
    by (auto simp: apply_unix_def run_plan_def Let_def node_name_def
        split: option.splits if_splits upd_outcome.splits upd_error.splits fop.splits)
  have out: "out = (case r of Some oper \<Rightarrow> UpdFailed (UpdOpFailed oper)
                    | None \<Rightarrow> (case err of None \<Rightarrow> UpdRestart | Some e \<Rightarrow> UpdFailed e))"
    using assms(3) False plan run by (cases r) (auto simp: apply_unix_def run_plan_def Let_def)
  have fail: "fs1 ?c = fs ?c" if "r \<noteq> None \<or> err \<noteq> None"
  proof (cases err)
    case (Some e)
    then show ?thesis
      using run_ops_frame [OF apply_unix_plan_err [OF _ assms(1,2)], of sha resp ops e fails fs] plan run by simp
  next
    case None
    then obtain pre data where ops: "ops = pre @ [RenameTo ltmp ?c]"
      and pre: "pre = [MkdirAll (home @ [''releases'', m_version m]), CreateTemp tmp, Chmod tmp mode_0755,
                WriteTo tmp data, SyncFile tmp, CloseFile tmp,
                RenameTo tmp (home @ [''releases'', m_version m, node_name]), TryRemove ltmp,
                SymlinkTo (home @ [''releases'', m_version m]) ltmp]"
      using apply_unix_plan_ok [OF _ assms(1)] plan by metis
    have frame: "?c \<notin> \<Union> (op_paths ` set pre)" using names unfolding pre by auto
    obtain fs2 r2 where run2: "run_ops fails pre fs = (fs2, r2)" by fastforce
    have "fs2 ?c = fs ?c" using run_ops_frame [OF frame, of fails fs] run2 by simp
    then show ?thesis
      using run run2 that None ops
      by (cases r2) (auto simp: run_ops_append split: prod.splits bool.splits dest: rename_step_fail)
  qed
  have succeed: "fs1 ?c = Some (Symlink (home @ [''releases'', m_version m])) \<and>
      (\<exists>data. fs1 ?n = Some (RegFile data mode_0755) \<and> verified sha m data)" if c: "r = None" "err = None"
  proof -
    obtain pre data where ops: "ops = pre @ [RenameTo ltmp ?c]" and ver: "verified sha m data"
      and pre: "pre = [MkdirAll (home @ [''releases'', m_version m]), CreateTemp tmp, Chmod tmp mode_0755,
                WriteTo tmp data, SyncFile tmp, CloseFile tmp,
                RenameTo tmp (home @ [''releases'', m_version m, node_name]), TryRemove ltmp,
                SymlinkTo (home @ [''releases'', m_version m]) ltmp]"
      using apply_unix_plan_ok [OF _ assms(1)] plan c(2) by metis
    obtain fs2 where run2: "run_ops fails pre fs = (fs2, None)"
      and ren: "fs_step fails (RenameTo ltmp ?c) fs2 = (fs1, True)"
      using run c(1) ops by (auto simp: run_ops_append split: prod.splits option.splits bool.splits)
    show ?thesis
      using switch_prefix_result [OF assms(2) run2 [unfolded pre]] rename_step_ok [OF ren] ver names
      by (auto simp: node_name_def)
  qed
  show ?thesis
    using False out keep fail succeed by (cases r; cases err) auto
qed

section \<open>Concrete instances\<close>

text \<open>A manifest, a hash that accepts one text only, and a node that runs release 1.0.\<close>

definition demo_manifest :: manifest where
  "demo_manifest = \<lparr>m_id = ''7'', m_version = ''2.0'', m_url = '' https://a/n '', m_sha = replicate 64 CHR ''A'',
     m_size = 3, m_secret = ''''\<rparr>"

definition demo_sha :: "string \<Rightarrow> string" where
  "demo_sha d = (if d = ''new'' then replicate 64 CHR ''a'' else replicate 64 CHR ''0'')"

definition demo_home_fs :: fsys where
  "demo_home_fs = [[''h'', ''current''] \<mapsto> Symlink [''h'', ''releases'', ''1.0'']]"

abbreviation "demo_tmp \<equiv> [''h'', ''releases'', ''2.0'', ''.t'']"
abbreviation "demo_ltmp \<equiv> [''h'', ''.current-1.tmp'']"

definition demo_resp :: download_resp where
  "demo_resp = \<lparr>dr_error = False, dr_status = 200, dr_body = ''new'', dr_read_fails = False\<rparr>"

lemma demo_manifest_valid: "validate_manifest demo_parse demo_manifest = Inr ()"
  by code_simp

lemma demo_fresh: "fresh_names [''h''] demo_manifest demo_tmp demo_ltmp demo_home_fs"
  by (simp add: fresh_names_def demo_manifest_def node_name_def demo_home_fs_def)

theorem release_dir_no_traversal_witness:
  "release_dir [''h''] ''2.0'' = [''h'', ''releases'', ''2.0'']"
  using release_dir_no_traversal [OF demo_manifest_valid, of "[''h'']"] by (simp add: demo_manifest_def)

theorem current_never_unverified_witness:
  "list_all (\<lambda>fs'. fs' [''h'', ''current''] = Some (Symlink [''h'', ''releases'', ''1.0'']) \<or>
       fs' [''h'', ''current''] = Some (Symlink [''h'', ''releases'', ''2.0'']))
     (crash_states no_faults
       (fst (apply_unix_plan demo_sha [''h''] demo_manifest demo_tmp demo_ltmp demo_resp)) demo_home_fs)"
  unfolding list_all_iff
  using current_never_unverified [OF demo_manifest_valid demo_fresh, of _ no_faults demo_sha demo_resp]
  by (auto simp: demo_manifest_def demo_home_fs_def)

theorem apply_unix_outcome_witness:
  "snd (apply_unix no_faults demo_sha [''h''] (Some [''h'', ''current'', ''ithiltir-node'']) demo_manifest
      demo_tmp demo_ltmp demo_resp demo_home_fs) = UpdRestart \<and>
   fst (apply_unix no_faults demo_sha [''h''] (Some [''h'', ''current'', ''ithiltir-node'']) demo_manifest
      demo_tmp demo_ltmp demo_resp demo_home_fs) [''h'', ''current''] = Some (Symlink [''h'', ''releases'', ''2.0''])"
proof -
  let ?run = "apply_unix no_faults demo_sha [''h''] (Some [''h'', ''current'', ''ithiltir-node'']) demo_manifest
      demo_tmp demo_ltmp demo_resp demo_home_fs"
  have out: "snd ?run = UpdRestart" by code_simp
  obtain fs' r where run: "?run = (fs', r)" by fastforce
  show ?thesis
    using apply_unix_outcome [OF demo_manifest_valid demo_fresh run] out unfolding run
    by (simp add: demo_manifest_def)
qed

end
