(* ===== verification/Runner.thy ===== *)
theory Runner
  imports SelfUpdate
begin

text \<open>
  \<open>internal/runner/runner_windows.go\<close>: the Windows supervisor.  \<open>applyStaged\<close> installs a staged
  binary only after checking its hash against the staged manifest, with the old binary kept
  aside until the new one is in place; \<open>loop\<close> restarts the node with a growing delay.
  JSON decoding of the manifest is an argument; so are the failures of each call.
\<close>

record staged_manifest =
  sm_version :: string
  sm_sha :: string

datatype run_error =
    ManifestOpen | ManifestDecode | ManifestShaEmpty
  | StagedMissing | StagedStat
  | HashOpen | HashMismatch
  | RunnerOp fop

record runner_env =
  re_home :: path
  re_parse :: "string \<Rightarrow> staged_manifest option"
  re_sha :: "string \<Rightarrow> string"
  re_read_fails :: "path \<Rightarrow> bool"
  re_stat_fails :: "path \<Rightarrow> bool"
  re_faults :: fs_oracle

definition bin_path :: "path \<Rightarrow> path" where "bin_path home = home @ [''bin'', ''ithiltir-node.exe'']"
definition backup_path :: "path \<Rightarrow> path" where "backup_path home = home @ [''bin'', ''ithiltir-node.exe.old'']"

text \<open>\<open>readManifest\<close>: \<open>Inr None\<close> when the file does not exist.\<close>

definition read_manifest :: "runner_env \<Rightarrow> fsys \<Rightarrow> run_error + staged_manifest option" where
  "read_manifest env fs =
     (case fs (staged_manifest_path (re_home env)) of
        None \<Rightarrow> Inr None
      | Some (RegFile text mode) \<Rightarrow>
          if re_read_fails env (staged_manifest_path (re_home env)) then Inl ManifestOpen
          else (case re_parse env text of
                  None \<Rightarrow> Inl ManifestDecode
                | Some m \<Rightarrow> if trim_space (sm_sha m) = '''' then Inl ManifestShaEmpty else Inr (Some m))
      | Some _ \<Rightarrow> Inl ManifestOpen)"

definition verify_file :: "runner_env \<Rightarrow> path \<Rightarrow> string \<Rightarrow> fsys \<Rightarrow> run_error + unit" where
  "verify_file env p want fs =
     (case fs p of
        Some (RegFile data mode) \<Rightarrow>
          if re_read_fails env p then Inl HashOpen
          else if \<not> equal_fold (re_sha env data) (trim_space want) then Inl HashMismatch
          else Inr ()
      | _ \<Rightarrow> Inl HashOpen)"

definition cleanup_staged :: "runner_env \<Rightarrow> fsys \<Rightarrow> fsys" where
  "cleanup_staged env fs =
     fs_ignore (re_faults env) (TryRemove (staged_node_path (re_home env)))
       (fs_ignore (re_faults env) (TryRemove (staged_manifest_path (re_home env))) fs)"

text \<open>The calls of \<open>applyStaged\<close> after verification.\<close>

definition install_staged :: "runner_env \<Rightarrow> fsys \<Rightarrow> fsys \<times> (run_error + unit)" where
  "install_staged env fs =
     (let home = re_home env; bin = bin_path home; backup = backup_path home;
          staged = staged_node_path home; fails = re_faults env in
      case fs_step fails (MkdirAll (butlast bin)) fs of
        (fs1, False) \<Rightarrow> (fs1, Inl (RunnerOp (MkdirAll (butlast bin))))
      | (fs1, True) \<Rightarrow>
          (let fs2 = fs_ignore fails (TryRemove backup) fs1;
               (fs3, ok) = (if fs2 bin \<noteq> None \<and> \<not> re_stat_fails env bin
                            then fs_step fails (RenameTo bin backup) fs2 else (fs2, True))
           in if \<not> ok then (fs3, Inl (RunnerOp (RenameTo bin backup)))
              else case fs_step fails (RenameTo staged bin) fs3 of
                     (fs4, False) \<Rightarrow>
                       (fs_ignore fails (RenameTo backup bin) fs4, Inl (RunnerOp (RenameTo staged bin)))
                   | (fs4, True) \<Rightarrow>
                       (fs_ignore fails (TryRemove (staged_manifest_path home))
                          (fs_ignore fails (TryRemove backup) fs4), Inr ())))"

definition apply_staged :: "runner_env \<Rightarrow> fsys \<Rightarrow> fsys \<times> (run_error + unit)" where
  "apply_staged env fs =
     (let staged = staged_node_path (re_home env) in
      case read_manifest env fs of
        Inr None \<Rightarrow> (fs, Inr ())
      | Inl e \<Rightarrow> (cleanup_staged env fs, Inl e)
      | Inr (Some m) \<Rightarrow>
          if fs staged = None then (cleanup_staged env fs, Inl StagedMissing)
          else if re_stat_fails env staged then (fs, Inl StagedStat)
          else case verify_file env staged (sm_sha m) fs of
                 Inl e \<Rightarrow> (cleanup_staged env fs, Inl e)
               | Inr _ \<Rightarrow> install_staged env fs)"

section \<open>The restart delay\<close>

definition first_backoff :: duration where "first_backoff = second"

definition next_backoff :: "duration \<Rightarrow> duration" where
  "next_backoff b = (if b < 30 * second then b * 2 else b)"

text \<open>The delay before the \<open>n\<close>-th restart.\<close>

fun restart_delay :: "nat \<Rightarrow> duration" where
  "restart_delay 0 = first_backoff"
| "restart_delay (Suc n) = next_backoff (restart_delay n)"

text \<open>The delay before a restart never leaves one second to thirty-two seconds, and never shrinks.\<close>

theorem restart_delay_bounds:
  "second \<le> restart_delay n \<and> restart_delay n \<le> 32 * second \<and> restart_delay n \<le> restart_delay (Suc n)"
proof -
  have "restart_delay n \<in> (\<lambda>k. k * second) ` {1, 2, 4, 8, 16, 32}"
  proof (induction n)
    case (Suc n)
    then show ?case by (auto simp: next_backoff_def second_def image_iff)
  qed (simp add: first_backoff_def)
  then show ?thesis by (auto simp: next_backoff_def second_def)
qed

section \<open>Installing a staged binary\<close>

lemma staged_paths [simp]:
  "bin_path home \<noteq> backup_path home" "bin_path home \<noteq> staged_node_path home"
  "bin_path home \<noteq> staged_manifest_path home" "backup_path home \<noteq> staged_node_path home"
  "staged_node_path home \<noteq> staged_manifest_path home" "butlast (bin_path home) = home @ [''bin'']"
  by (simp_all add: bin_path_def backup_path_def butlast_append)

lemma bin_dir_neq [simp]:
  "bin_path home \<noteq> home @ [''bin'']" "backup_path home \<noteq> home @ [''bin'']"
  "staged_node_path home \<noteq> home @ [''bin'']"
  by (simp_all add: bin_path_def backup_path_def)

lemma cleanup_keeps_bin: "cleanup_staged env fs (bin_path (re_home env)) = fs (bin_path (re_home env))"
proof -
  let ?bin = "bin_path (re_home env)"
  have "?bin \<noteq> home @ [''staging'', n]" if "home = re_home env" for home n
    using that by (simp add: bin_path_def)
  then show ?thesis by (simp add: cleanup_staged_def)
qed

text \<open>What one rename does to the paths involved.\<close>

lemma rename_step_cases:
  assumes "fs_step fails (RenameTo p q) fs = (fs', ok)" and "p \<noteq> q"
  shows "if ok then fs p \<noteq> None \<and> fs' q = fs p \<and> fs' p = None \<and> (\<forall>r. r \<noteq> p \<longrightarrow> r \<noteq> q \<longrightarrow> fs' r = fs r)
         else fs' = fs"
  using assms by (cases ok) (auto dest: rename_step_ok rename_step_fail)

lemma ignore_rename_cases:
  "fs_ignore fails (RenameTo p q) fs = fs \<or>
   (\<exists>n. fs p = Some n \<and> fs_ignore fails (RenameTo p q) fs = (fs(p := None))(q \<mapsto> n))"
proof -
  obtain fs' ok where st: "fs_step fails (RenameTo p q) fs = (fs', ok)"
    by (cases "fs_step fails (RenameTo p q) fs")
  then show ?thesis
    unfolding fs_ignore_def by (cases ok) (auto dest: rename_step_ok rename_step_fail)
qed

lemma install_staged_bin:
  assumes "install_staged env fs = (fs', r)"
  defines "bin \<equiv> bin_path (re_home env)" and "staged \<equiv> staged_node_path (re_home env)"
  shows "(r = Inr () \<longrightarrow> fs' bin = fs staged \<and> fs staged \<noteq> None) \<and>
         (r \<noteq> Inr () \<longrightarrow> fs' bin \<in> {fs bin, fs (backup_path (re_home env)), None})"
proof -
  let ?backup = "backup_path (re_home env)" and ?f = "re_faults env"
  obtain fs1 ok1 where s1: "fs_step ?f (MkdirAll (re_home env @ [''bin''])) fs = (fs1, ok1)" by fastforce
  have f1: "fs1 p = fs p" if "p \<noteq> re_home env @ [''bin'']" for p
    using fs_step_frame [of p "MkdirAll (re_home env @ [''bin''])" ?f fs] s1 that by simp
  have ne: "bin \<noteq> ?backup" "bin \<noteq> staged" "?backup \<noteq> staged" "bin \<noteq> re_home env @ [''bin'']"
      "staged \<noteq> re_home env @ [''bin'']" "bin \<noteq> staged_manifest_path (re_home env)"
    unfolding bin_def staged_def by (simp_all add: bin_path_def backup_path_def)
  show ?thesis
  proof (cases ok1)
    case False
    then show ?thesis using assms(1) s1 f1 [OF ne(4)] by (auto simp: install_staged_def Let_def)
  next
    case True
    define fs2 where "fs2 = fs_ignore ?f (TryRemove ?backup) fs1"
    have f2: "fs2 bin = fs bin" "fs2 staged = fs staged"
      using f1 ne unfolding fs2_def by simp_all
    have b2: "fs2 ?backup \<in> {fs ?backup, None}"
      using f1 [of ?backup] try_remove_step [of ?f ?backup fs1 fs2]
      unfolding fs2_def fs_ignore_def by (cases "fs_step ?f (TryRemove ?backup) fs1") auto
    obtain fs3 ok3 where s3: "(if fs2 bin \<noteq> None \<and> \<not> re_stat_fails env bin
        then fs_step ?f (RenameTo bin ?backup) fs2 else (fs2, True)) = (fs3, ok3)" by fastforce
    have f3: "fs3 staged = fs staged" "fs3 bin \<in> {fs bin, None}" "fs3 ?backup \<in> {fs bin, fs ?backup, None}"
      "\<not> ok3 \<Longrightarrow> fs3 bin = fs bin"
      using s3 f2 b2 ne rename_step_cases [of ?f bin ?backup fs2 fs3 ok3] by (auto split: if_splits)
    obtain fs4 ok4 where s4: "fs_step ?f (RenameTo staged bin) fs3 = (fs4, ok4)" by fastforce
    note r4 = rename_step_cases [OF s4 ne(2) [symmetric]]
    have unfold: "install_staged env fs =
        (if \<not> ok3 then (fs3, Inl (RunnerOp (RenameTo bin ?backup)))
         else if \<not> ok4 then (fs_ignore ?f (RenameTo ?backup bin) fs4, Inl (RunnerOp (RenameTo staged bin)))
         else (fs_ignore ?f (TryRemove (staged_manifest_path (re_home env)))
                 (fs_ignore ?f (TryRemove ?backup) fs4), Inr ()))"
      using s1 True s3 s4 unfolding install_staged_def Let_def fs2_def bin_def staged_def
      by (auto split: prod.splits bool.splits)
    show ?thesis
    proof (cases "ok3 \<and> ok4")
      case True
      then show ?thesis using assms(1) unfold r4 f3 ne by auto
    next
      case False
      then show ?thesis
        using assms(1) unfold r4 f3 ne ignore_rename_cases [of ?f ?backup bin fs4] by (auto split: if_splits)
    qed
  qed
qed

text \<open>C24. Whatever fails, the runner never puts an unverified binary in place: the installed binary is
  the one from before, or the staged one whose hash matches the staged manifest (and then the call
  succeeded), or, only after a failed call, the backup kept beside it or no file at all.\<close>

theorem apply_staged_verified:
  assumes "apply_staged env fs = (fs', r)"
  defines "bin \<equiv> bin_path (re_home env)" and "staged \<equiv> staged_node_path (re_home env)"
  shows "fs' bin = fs bin \<or> fs' bin \<in> {fs (backup_path (re_home env)), None} \<and> r \<noteq> Inr () \<or>
    (\<exists>m data mode. read_manifest env fs = Inr (Some m) \<and> fs staged = Some (RegFile data mode) \<and>
       fs' bin = Some (RegFile data mode) \<and> equal_fold (re_sha env data) (trim_space (sm_sha m)) \<and> r = Inr ())"
proof (cases "\<exists>m. read_manifest env fs = Inr (Some m) \<and> fs staged \<noteq> None \<and> \<not> re_stat_fails env staged \<and>
    verify_file env staged (sm_sha m) fs = Inr ()")
  case True
  then obtain m where m: "read_manifest env fs = Inr (Some m)" and v: "verify_file env staged (sm_sha m) fs = Inr ()"
    by blast
  from v obtain data mode where d: "fs staged = Some (RegFile data mode)"
    and h: "equal_fold (re_sha env data) (trim_space (sm_sha m))"
    by (auto simp: verify_file_def split: option.splits fnode.splits if_splits)
  have "install_staged env fs = (fs', r)"
    using assms(1) True m v unfolding staged_def by (auto simp: apply_staged_def)
  from install_staged_bin [OF this] show ?thesis
    using m d h unfolding bin_def staged_def by auto
next
  case False
  then have "fs' bin = fs bin"
    using assms(1) cleanup_keeps_bin unfolding bin_def staged_def
    by (auto simp: apply_staged_def Let_def split: sum.splits option.splits if_splits)
  then show ?thesis by blast
qed

section \<open>A concrete instance\<close>

definition demo_runner :: runner_env where
  "demo_runner = \<lparr>re_home = [''h''], re_parse = (\<lambda>s. Some \<lparr>sm_version = ''2.0'', sm_sha = s\<rparr>),
     re_sha = demo_sha, re_read_fails = (\<lambda>_. False), re_stat_fails = (\<lambda>_. False), re_faults = no_faults\<rparr>"

definition demo_staged_fs :: "string \<Rightarrow> fsys" where
  "demo_staged_fs data =
     [[''h'', ''staging'', ''manifest.json''] \<mapsto> RegFile (replicate 64 CHR ''A'') mode_0600,
      [''h'', ''staging'', ''ithiltir-node.exe.new''] \<mapsto> RegFile data mode_0644,
      [''h'', ''bin'', ''ithiltir-node.exe''] \<mapsto> RegFile ''old'' mode_0644]"

text \<open>A staged binary with a wrong hash is not installed.\<close>

theorem apply_staged_verified_witness:
  "case apply_staged demo_runner (demo_staged_fs ''bad'') of (fs', r) \<Rightarrow>
     fs' [''h'', ''bin'', ''ithiltir-node.exe''] = Some (RegFile ''old'' mode_0644) \<or>
     fs' [''h'', ''bin'', ''ithiltir-node.exe''] = None \<and> r \<noteq> Inr ()"
proof -
  obtain fs' r where run: "apply_staged demo_runner (demo_staged_fs ''bad'') = (fs', r)"
    by (cases "apply_staged demo_runner (demo_staged_fs ''bad'')")
  have read: "read_manifest demo_runner (demo_staged_fs ''bad'') =
      Inr (Some \<lparr>sm_version = ''2.0'', sm_sha = replicate 64 CHR ''A''\<rparr>)" by code_simp
  have bad: "\<not> equal_fold (re_sha demo_runner ''bad'') (trim_space (replicate 64 CHR ''A''))" by code_simp
  have files: "demo_staged_fs ''bad'' (bin_path (re_home demo_runner)) = Some (RegFile ''old'' mode_0644)"
      "demo_staged_fs ''bad'' (backup_path (re_home demo_runner)) = None"
      "demo_staged_fs ''bad'' (staged_node_path (re_home demo_runner)) = Some (RegFile ''bad'' mode_0644)"
    by (simp_all add: bin_path_def backup_path_def demo_runner_def demo_staged_fs_def)
  have bin: "bin_path (re_home demo_runner) = [''h'', ''bin'', ''ithiltir-node.exe'']"
    by (simp add: bin_path_def demo_runner_def)
  show ?thesis
    using apply_staged_verified [OF run] bad unfolding files read unfolding run bin by auto
qed

end
