(* ===== verification/LogLimiter.thy ===== *)
theory LogLimiter
  imports GoBase
begin

text \<open>
  \<open>logLimiter\<close> of \<open>internal/push/push.go\<close>: a message is printed only when the cooldown has
  passed since the last printed one.  The model returns whether the message was printed.
\<close>

record limiter =
  lim_cooldown :: duration
  lim_last :: time

definition new_limiter :: "duration \<Rightarrow> limiter" where
  "new_limiter cooldown = \<lparr>lim_cooldown = cooldown, lim_last = time_zero\<rparr>"

definition limiter_logf :: "time \<Rightarrow> limiter \<Rightarrow> limiter \<times> bool" where
  "limiter_logf now l =
     (if time_sub now (lim_last l) < lim_cooldown l then (l, False)
      else (l\<lparr>lim_last := now\<rparr>, True))"

text \<open>The limiter after a sequence of calls, and the instants at which it printed.\<close>

fun limiter_run :: "time list \<Rightarrow> limiter \<Rightarrow> limiter \<times> time list" where
  "limiter_run [] l = (l, [])"
| "limiter_run (now # nows) l =
     (let (l1, printed) = limiter_logf now l; (l2, out) = limiter_run nows l1
      in (l2, if printed then now # out else out))"

lemma limiter_logf_cooldown [simp]: "lim_cooldown (fst (limiter_logf now l)) = lim_cooldown l"
  by (simp add: limiter_logf_def)

lemma limiter_run_cooldown [simp]: "lim_cooldown (fst (limiter_run nows l)) = lim_cooldown l"
  by (induction nows arbitrary: l) (auto simp: Let_def split: prod.splits, metis fst_conv limiter_logf_cooldown)

lemma limiter_run_spaced:
  assumes "min_int64 < lim_cooldown l"
  shows "sorted_wrt (\<lambda>t u. t + lim_cooldown l \<le> u) (lim_last l # snd (limiter_run nows l)) \<or> lim_cooldown l < 0"
proof (cases "lim_cooldown l < 0")
  case False
  have "\<forall>t \<in> set (snd (limiter_run nows l)). lim_last l + lim_cooldown l \<le> t"
    and "sorted_wrt (\<lambda>t u. t + lim_cooldown l \<le> u) (snd (limiter_run nows l))"
    if "0 \<le> lim_cooldown l" for l
    using that
  proof (induction nows arbitrary: l)
    case (Cons now nows)
    {
      case 1
      show ?case
      proof (cases "time_sub now (lim_last l) < lim_cooldown l")
        case True
        then show ?thesis using Cons.IH(1) [OF 1] by (auto simp: limiter_logf_def Let_def split: prod.splits)
      next
        case False
        then have "lim_last l + lim_cooldown l \<le> now"
          using time_sub_ge [of "lim_cooldown l" now "lim_last l"] 1 by (simp add: min_int64_def)
        moreover have "\<forall>t \<in> set (snd (limiter_run nows (l\<lparr>lim_last := now\<rparr>))). now + lim_cooldown l \<le> t"
          using Cons.IH(1) [of "l\<lparr>lim_last := now\<rparr>"] 1 by simp
        ultimately show ?thesis using False 1
          by (auto simp: limiter_logf_def Let_def split: prod.splits) fastforce
      qed
    next
      case 2
      show ?case
      proof (cases "time_sub now (lim_last l) < lim_cooldown l")
        case True
        then show ?thesis using Cons.IH(2) [OF 2] by (auto simp: limiter_logf_def Let_def split: prod.splits)
      next
        case False
        have "\<forall>t \<in> set (snd (limiter_run nows (l\<lparr>lim_last := now\<rparr>))). now + lim_cooldown l \<le> t"
          using Cons.IH(1) [of "l\<lparr>lim_last := now\<rparr>"] 2 by simp
        then show ?thesis using False Cons.IH(2) [of "l\<lparr>lim_last := now\<rparr>"] 2
          by (auto simp: limiter_logf_def Let_def split: prod.splits)
      qed
    }
  qed simp_all
  with False show ?thesis by simp
qed simp

text \<open>However often it is called, the limiter prints at most once per cooldown: any two printed
  messages are at least the cooldown apart.\<close>

theorem limiter_rate:
  assumes "0 \<le> lim_cooldown l"
  shows "sorted_wrt (\<lambda>t u. t + lim_cooldown l \<le> u) (snd (limiter_run nows l))"
  using limiter_run_spaced [of l nows] assms by (simp add: min_int64_def)

theorem limiter_rate_witness:
  "snd (limiter_run [5, 6, 20, 21] \<lparr>lim_cooldown = 10, lim_last = -100\<rparr>) = [5, 20] \<and>
   sorted_wrt (\<lambda>t u. t + 10 \<le> u) (snd (limiter_run [5, 6, 20, 21] \<lparr>lim_cooldown = 10, lim_last = -100\<rparr>))"
  using limiter_rate [of "\<lparr>lim_cooldown = 10, lim_last = -100\<rparr>" "[5, 6, 20, 21]"]
  by (simp add: limiter_logf_def go_time)

end
