(* ===== verification/Transport.thy ===== *)
theory Transport
  imports GoBase
begin

text \<open>
  \<open>internal/push/rpc.go\<close>: which transport a target uses.  \<open>rpcClient\<close> probes the server once in
  \<open>auto\<close> mode and its decision holds for the life of the target.  gRPC itself is not modelled:
  the outcome of the dial and of the \<open>Identify\<close> probe are inputs of a call.
\<close>

datatype ctx_error = CtxCanceled | CtxDeadline

datatype rpc_code = Unauthenticated | PermissionDenied | ResourceExhausted | OtherCode nat

datatype rpc_error = RpcStatus rpc_code | RpcCtx ctx_error | RpcDial | RpcDecode

record rpc_ident =
  ri_install :: string
  ri_protocol :: int
  ri_created :: bool

record rpc_target =
  rpc_mode :: string
  rpc_use_http :: bool
  rpc_conn :: bool
  rpc_client_set :: bool
  rpc_identity :: "rpc_ident option"
  rpc_probe_err :: "rpc_error option"
  rpc_retry_at :: time

text \<open>What a call of \<open>rpcClient\<close> meets: the two clock readings, whether \<open>grpc.NewClient\<close> worked, the
  probe's result and the state of the caller's context after it.\<close>

record rpc_call =
  rq_now :: time
  rq_dial_ok :: bool
  rq_probe :: "rpc_error + rpc_ident"
  rq_ctx :: "ctx_error option"
  rq_now2 :: time

datatype client_result = ViaHTTP | ViaRPC | NoClient rpc_error

definition transport_mode :: "string \<Rightarrow> string option" where
  "transport_mode raw =
     (let m = to_lower (trim_space raw); mode = (if m = '''' then ''http'' else m)
      in if mode = ''auto'' \<or> mode = ''http'' \<or> mode = ''grpc'' then Some mode else None)"

definition new_rpc :: "string \<Rightarrow> rpc_target" where
  "new_rpc mode = \<lparr>rpc_mode = mode, rpc_use_http = False, rpc_conn = False, rpc_client_set = False,
     rpc_identity = None, rpc_probe_err = None, rpc_retry_at = time_zero\<rparr>"

definition probe_failed :: "rpc_call \<Rightarrow> rpc_target \<Rightarrow> rpc_error \<Rightarrow> rpc_target \<times> client_result" where
  "probe_failed c st e =
     (case rq_ctx c of
        Some ce \<Rightarrow> (st, NoClient (RpcCtx ce))
      | None \<Rightarrow>
          (case e of
             RpcStatus Unauthenticated \<Rightarrow> (st\<lparr>rpc_probe_err := Some e\<rparr>, NoClient e)
           | RpcStatus PermissionDenied \<Rightarrow> (st\<lparr>rpc_probe_err := Some e\<rparr>, NoClient e)
           | RpcStatus ResourceExhausted \<Rightarrow>
               (st\<lparr>rpc_probe_err := Some e, rpc_retry_at := time_add (rq_now2 c) minute\<rparr>, NoClient e)
           | _ \<Rightarrow> (st\<lparr>rpc_use_http := True\<rparr>, ViaHTTP)))"

definition rpc_connect :: "rpc_call \<Rightarrow> rpc_target \<Rightarrow> rpc_target \<times> client_result" where
  "rpc_connect c st =
     (if \<not> rq_dial_ok c then (st, NoClient RpcDial)
      else if rpc_mode st = ''auto'' then
        (case rq_probe c of
           Inl e \<Rightarrow> probe_failed c st e
         | Inr ident \<Rightarrow>
             if ri_protocol ident \<noteq> 1 then (st\<lparr>rpc_use_http := True\<rparr>, ViaHTTP)
             else (st\<lparr>rpc_identity := Some ident, rpc_conn := True, rpc_client_set := True\<rparr>, ViaRPC))
      else (st\<lparr>rpc_conn := True, rpc_client_set := True\<rparr>, ViaRPC))"

definition rpc_client :: "rpc_call \<Rightarrow> rpc_target \<Rightarrow> rpc_target \<times> client_result" where
  "rpc_client c st0 =
     (case rpc_probe_err st0 of
        Some e \<Rightarrow>
          if is_zero_time (rpc_retry_at st0) \<or> rq_now c < rpc_retry_at st0 then (st0, NoClient e)
          else (let st = st0\<lparr>rpc_probe_err := None, rpc_retry_at := time_zero\<rparr> in
                if rpc_use_http st \<or> rpc_mode st = ''http'' then (st, ViaHTTP)
                else if rpc_client_set st then (st, ViaRPC)
                else rpc_connect c st)
      | None \<Rightarrow>
          if rpc_use_http st0 \<or> rpc_mode st0 = ''http'' then (st0, ViaHTTP)
          else if rpc_client_set st0 then (st0, ViaRPC)
          else rpc_connect c st0)"

definition close_rpc :: "rpc_target \<Rightarrow> rpc_target" where
  "close_rpc st = (if rpc_conn st then st\<lparr>rpc_conn := False\<rparr> else st)"

text \<open>A sequence of calls on one target: reports, static metadata, VM snapshots and query sessions
  all go through \<open>rpcClient\<close> under the same lock.\<close>

fun rpc_run :: "rpc_call list \<Rightarrow> rpc_target \<Rightarrow> client_result list" where
  "rpc_run [] st = []"
| "rpc_run (c # cs) st = (let (st', r) = rpc_client c st in r # rpc_run cs st')"

section \<open>The decision is final\<close>

definition rejected :: "rpc_error \<Rightarrow> bool" where
  "rejected e \<longleftrightarrow> e = RpcStatus Unauthenticated \<or> e = RpcStatus PermissionDenied"

definition rpc_inv :: "rpc_target \<Rightarrow> bool" where
  "rpc_inv st \<longleftrightarrow>
     (case rpc_probe_err st of
        None \<Rightarrow> is_zero_time (rpc_retry_at st) \<and>
                (rpc_client_set st \<longrightarrow> \<not> rpc_use_http st \<and> rpc_mode st \<noteq> ''http'')
      | Some e \<Rightarrow> \<not> rpc_client_set st \<and> \<not> rpc_use_http st \<and> rpc_mode st \<noteq> ''http'' \<and>
                  (rejected e \<longrightarrow> is_zero_time (rpc_retry_at st)))"

lemma is_zero_time_zero [simp]: "is_zero_time time_zero"
  by (simp add: is_zero_time_def time_zero_def)

lemma rpc_inv_new: "rpc_inv (new_rpc mode)"
  by (simp add: rpc_inv_def new_rpc_def)

lemma probe_failed_cases:
  "probe_failed c st e = (st', r) \<Longrightarrow>
     st' = st \<and> (\<exists>ce. r = NoClient (RpcCtx ce)) \<or>
     st' = st\<lparr>rpc_probe_err := Some e\<rparr> \<and> r = NoClient e \<and> rejected e \<or>
     st' = st\<lparr>rpc_probe_err := Some e, rpc_retry_at := time_add (rq_now2 c) minute\<rparr> \<and> r = NoClient e \<and>
       \<not> rejected e \<or>
     st' = st\<lparr>rpc_use_http := True\<rparr> \<and> r = ViaHTTP"
  by (auto simp: probe_failed_def rejected_def split: option.splits rpc_error.splits rpc_code.splits)

lemma rpc_connect_inv:
  assumes "rpc_inv st" and "rpc_probe_err st = None" and "\<not> rpc_use_http st" and "rpc_mode st \<noteq> ''http''"
    and "\<not> rpc_client_set st" and "rpc_connect c st = (st', r)"
  shows "rpc_inv st' \<and> rpc_mode st' = rpc_mode st \<and>
    (r = ViaHTTP \<longrightarrow> rpc_use_http st') \<and> (r = ViaRPC \<longrightarrow> rpc_client_set st') \<and>
    (\<forall>e. r = NoClient e \<longrightarrow> rejected e \<longrightarrow> rpc_probe_err st' = Some e)"
proof -
  have plain: "\<not> rejected RpcDial" "\<not> rejected (RpcCtx ce)" for ce by (simp_all add: rejected_def)
  have zero: "is_zero_time (rpc_retry_at st)" using assms(1,2) by (simp add: rpc_inv_def)
  note facts = assms(2-5) plain zero
  consider "\<not> rq_dial_ok c" | "rq_dial_ok c" "rpc_mode st \<noteq> ''auto''"
    | e where "rq_dial_ok c" "rpc_mode st = ''auto''" "rq_probe c = Inl e"
    | i where "rq_dial_ok c" "rpc_mode st = ''auto''" "rq_probe c = Inr i"
    by (cases "rq_probe c") blast+
  then show ?thesis
  proof cases
    case 1
    then show ?thesis using assms(1,6) facts by (simp add: rpc_connect_def) blast
  next
    case 2
    then show ?thesis using assms(6) facts by (auto simp: rpc_connect_def rpc_inv_def)
  next
    case 3
    then have "probe_failed c st e = (st', r)" using assms(6) by (simp add: rpc_connect_def)
    from probe_failed_cases [OF this] show ?thesis
      using assms(1) facts by (elim disjE conjE exE) (simp_all add: rpc_inv_def)
  next
    case 4
    then show ?thesis using assms(6) facts
      by (cases "ri_protocol i = 1") (auto simp: rpc_connect_def rpc_inv_def)
  qed
qed

lemma rpc_client_inv:
  assumes "rpc_inv st" and "rpc_client c st = (st', r)"
  shows "rpc_inv st' \<and> rpc_mode st' = rpc_mode st \<and>
    (r = ViaHTTP \<longrightarrow> rpc_use_http st' \<or> rpc_mode st' = ''http'') \<and> (r = ViaRPC \<longrightarrow> rpc_client_set st') \<and>
    (\<forall>e. r = NoClient e \<longrightarrow> rejected e \<longrightarrow> rpc_probe_err st' = Some e)"
proof (cases "rpc_probe_err st")
  case None
  consider "rpc_use_http st \<or> rpc_mode st = ''http''" | "\<not> (rpc_use_http st \<or> rpc_mode st = ''http'')" "rpc_client_set st"
    | "\<not> (rpc_use_http st \<or> rpc_mode st = ''http'')" "\<not> rpc_client_set st" by blast
  then show ?thesis
  proof cases
    case 3
    then have "rpc_connect c st = (st', r)" using assms(2) None by (simp add: rpc_client_def)
    then show ?thesis using rpc_connect_inv [OF assms(1) None, of c st' r] 3 by blast
  qed (use assms None in \<open>auto simp: rpc_client_def\<close>)
next
  case (Some e)
  let ?st = "st\<lparr>rpc_probe_err := None, rpc_retry_at := time_zero\<rparr>"
  have und: "\<not> rpc_use_http st" "rpc_mode st \<noteq> ''http''" "\<not> rpc_client_set st"
    using assms(1) Some by (simp_all add: rpc_inv_def)
  then have inv: "rpc_inv ?st" by (simp add: rpc_inv_def)
  show ?thesis
  proof (cases "is_zero_time (rpc_retry_at st) \<or> rq_now c < rpc_retry_at st")
    case True
    then show ?thesis using assms Some by (auto simp: rpc_client_def)
  next
    case False
    then have "rpc_connect c ?st = (st', r)" using assms(2) Some und by (simp add: rpc_client_def)
    then show ?thesis
      using rpc_connect_inv [OF inv, of c st' r] und by simp
  qed
qed

lemma rpc_run_http: "rpc_inv st \<Longrightarrow> rpc_use_http st \<or> rpc_mode st = ''http'' \<Longrightarrow> r \<in> set (rpc_run cs st) \<Longrightarrow> r = ViaHTTP"
proof (induction cs arbitrary: st)
  case (Cons c cs)
  have "rpc_probe_err st = None" using Cons.prems(1,2) by (auto simp: rpc_inv_def split: option.splits)
  then have "rpc_client c st = (st, ViaHTTP)" using Cons.prems(2) by (auto simp: rpc_client_def)
  then show ?case using Cons by auto
qed simp

lemma rpc_run_rpc: "rpc_inv st \<Longrightarrow> rpc_client_set st \<Longrightarrow> r \<in> set (rpc_run cs st) \<Longrightarrow> r = ViaRPC"
proof (induction cs arbitrary: st)
  case (Cons c cs)
  have "rpc_probe_err st = None" and "\<not> (rpc_use_http st \<or> rpc_mode st = ''http'')"
    using Cons.prems(1,2) by (auto simp: rpc_inv_def split: option.splits)
  then have "rpc_client c st = (st, ViaRPC)" using Cons.prems(2) by (simp add: rpc_client_def)
  then show ?case using Cons by auto
qed simp

lemma rpc_run_rejected:
  "rpc_inv st \<Longrightarrow> rpc_probe_err st = Some e \<Longrightarrow> rejected e \<Longrightarrow>
   r \<in> set (rpc_run cs st) \<Longrightarrow> r = NoClient e"
proof (induction cs arbitrary: st)
  case (Cons c cs)
  have "is_zero_time (rpc_retry_at st)" using Cons.prems(1-3) by (simp add: rpc_inv_def)
  then have "rpc_client c st = (st, NoClient e)" using Cons.prems(2) by (simp add: rpc_client_def)
  then show ?case using Cons by auto
qed simp


text \<open>C5. The transport of a target is chosen once: after a call answered over HTTP, or over gRPC, or
  refused for bad credentials, every later call on the same target is answered the same way.\<close>

theorem transport_is_sticky:
  assumes "rpc_inv st" and "r \<in> set (rpc_run cs (fst (rpc_client c st)))"
    and "snd (rpc_client c st) = first"
    and "first \<in> {ViaHTTP, ViaRPC, NoClient (RpcStatus Unauthenticated), NoClient (RpcStatus PermissionDenied)}"
  shows "r = first"
proof -
  obtain st' where c: "rpc_client c st = (st', first)" using assms(3) by (cases "rpc_client c st") auto
  note inv = rpc_client_inv [OF assms(1) c]
  show ?thesis
    using assms(2,4) inv c rpc_run_http [of st' r cs] rpc_run_rpc [of st' r cs]
      rpc_run_rejected [of st' "RpcStatus Unauthenticated" r cs]
      rpc_run_rejected [of st' "RpcStatus PermissionDenied" r cs]
    by (auto simp: rejected_def)
qed

theorem transport_is_sticky_witness:
  "\<exists>c c'. snd (rpc_client c (new_rpc ''auto'')) = ViaHTTP \<and>
     rpc_run [c'] (fst (rpc_client c (new_rpc ''auto''))) = [ViaHTTP]"
proof -
  let ?c = "\<lparr>rq_now = 5, rq_dial_ok = True, rq_probe = Inl (RpcStatus (OtherCode 12)), rq_ctx = None, rq_now2 = 6\<rparr>"
  let ?c' = "\<lparr>rq_now = 7, rq_dial_ok = True, rq_probe = Inr \<lparr>ri_install = ''i'', ri_protocol = 1, ri_created = False\<rparr>,
              rq_ctx = None, rq_now2 = 8\<rparr>"
  have f: "snd (rpc_client ?c (new_rpc ''auto'')) = ViaHTTP"
    by (simp add: rpc_client_def rpc_connect_def probe_failed_def new_rpc_def)
  obtain r where r: "rpc_run [?c'] (fst (rpc_client ?c (new_rpc ''auto''))) = [r]"
    by (simp add: Let_def split_beta)
  then have "r = ViaHTTP"
    using transport_is_sticky [OF rpc_inv_new, of r "[?c']" ?c "''auto''" ViaHTTP] f by simp
  with f r show ?thesis by blast
qed

end
