(* ===== verification/ReportConfig.thy ===== *)
theory ReportConfig
  imports GoFs GoUrl
begin

text \<open>
  \<open>internal/reportcfg\<close>: the report targets of \<open>push\<close> mode, their validation, the pure
  updates \<open>Add\<close>, \<open>Remove\<close>, \<open>Replace\<close>, \<open>UpdateKey\<close>, and \<open>Load\<close>/\<open>Save\<close> over the file
  system of \<open>GoFs\<close>.  YAML (a third-party package) and \<open>net/url\<close> are arguments.
\<close>

section \<open>Data\<close>

definition cfg_version :: int where "cfg_version = 1"

record rtarget =
  rt_id :: int
  rt_url :: string
  rt_key :: string
  rt_install :: string

record rconfig =
  rc_version :: int
  rc_targets :: "rtarget list"

datatype url_error = UrlEmpty | UrlParse | UrlScheme | UrlHost

datatype cfg_error =
    BadVersion
  | IdNotPositive
  | IdDuplicated int
  | UrlInvalid int url_error
  | KeyEmpty int
  | InstallIdEmpty int
  | InstallIdDuplicated string int int
  | TargetNotFound
  | OpenFailed | StatFailed | BadMode | DecodeFailed
  | MkdirFailed | EncodeFailed | WriteFailed fop

definition empty_config :: rconfig where
  "empty_config = \<lparr>rc_version = cfg_version, rc_targets = []\<rparr>"

section \<open>Validation\<close>

definition validate_url :: "url_parser \<Rightarrow> string \<Rightarrow> url_error + unit" where
  "validate_url url_parse s =
     (let raw = trim_space s in
      if raw = '''' then Inl UrlEmpty
      else case url_parse raw of
        None \<Rightarrow> Inl UrlParse
      | Some u \<Rightarrow>
          if u_scheme u \<noteq> ''http'' \<and> u_scheme u \<noteq> ''https'' then Inl UrlScheme
          else if u_host u = '''' then Inl UrlHost
          else Inr ())"

definition normalize_install_id :: "string \<Rightarrow> string option" where
  "normalize_install_id s = (let t = trim_space s in if t = '''' then None else Some t)"

text \<open>The loop of \<open>Validate\<close>, with its two maps of what has been seen.\<close>

fun validate_targets ::
  "url_parser \<Rightarrow> int list \<Rightarrow> (string, int) gomap \<Rightarrow> rtarget list \<Rightarrow> cfg_error + unit" where
  "validate_targets url_parse ids installs [] = Inr ()"
| "validate_targets url_parse ids installs (t # ts) =
     (if rt_id t \<le> 0 then Inl IdNotPositive
      else if rt_id t \<in> set ids then Inl (IdDuplicated (rt_id t))
      else case validate_url url_parse (rt_url t) of
        Inl e \<Rightarrow> Inl (UrlInvalid (rt_id t) e)
      | Inr _ \<Rightarrow>
          if trim_space (rt_key t) = '''' then Inl (KeyEmpty (rt_id t))
          else if rt_install t = '''' then validate_targets url_parse (rt_id t # ids) installs ts
          else case normalize_install_id (rt_install t) of
            None \<Rightarrow> Inl (InstallIdEmpty (rt_id t))
          | Some iid \<Rightarrow>
              (case map_of installs iid of
                 Some other \<Rightarrow> Inl (InstallIdDuplicated iid other (rt_id t))
               | None \<Rightarrow> validate_targets url_parse (rt_id t # ids) (AList.update iid (rt_id t) installs) ts))"

definition validate :: "url_parser \<Rightarrow> rconfig \<Rightarrow> cfg_error + unit" where
  "validate url_parse cfg =
     (if rc_version cfg \<noteq> cfg_version then Inl BadVersion
      else validate_targets url_parse [] [] (rc_targets cfg))"

section \<open>Pure updates\<close>

fun max_id :: "int \<Rightarrow> rtarget list \<Rightarrow> int" where
  "max_id m [] = m"
| "max_id m (t # ts) = max_id (if rt_id t > m then rt_id t else m) ts"

definition next_id :: "rtarget list \<Rightarrow> int" where
  "next_id ts = wrap64 (max_id 0 ts + 1)"

definition add_target ::
  "url_parser \<Rightarrow> rconfig \<Rightarrow> string \<Rightarrow> string \<Rightarrow> string \<Rightarrow> cfg_error + (rconfig \<times> rtarget)" where
  "add_target url_parse cfg endpoint key install =
     (let target = \<lparr>rt_id = next_id (rc_targets cfg), rt_url = trim_space endpoint,
                    rt_key = trim_space key, rt_install = trim_space install\<rparr>;
          next = \<lparr>rc_version = (if rc_version cfg = 0 then cfg_version else rc_version cfg),
                  rc_targets = rc_targets cfg @ [target]\<rparr>
      in case validate url_parse next of Inl e \<Rightarrow> Inl e | Inr _ \<Rightarrow> Inr (next, target))"

definition remove_target :: "url_parser \<Rightarrow> rconfig \<Rightarrow> int \<Rightarrow> cfg_error + rconfig" where
  "remove_target url_parse cfg i =
     (let next = \<lparr>rc_version = rc_version cfg,
                  rc_targets = filter (\<lambda>t. rt_id t \<noteq> i) (rc_targets cfg)\<rparr>
      in if \<not> list_ex (\<lambda>t. rt_id t = i) (rc_targets cfg) then Inl TargetNotFound
         else case validate url_parse next of Inl e \<Rightarrow> Inl e | Inr _ \<Rightarrow> Inr next)"

text \<open>The \<open>for i := range next.Targets\<close> loops: the first target with the id is changed, \<open>None\<close> if there is none.\<close>

fun update_first :: "int \<Rightarrow> (rtarget \<Rightarrow> rtarget) \<Rightarrow> rtarget list \<Rightarrow> rtarget list option" where
  "update_first i f [] = None"
| "update_first i f (t # ts) =
     (if rt_id t \<noteq> i then map_option (\<lambda>ts'. t # ts') (update_first i f ts) else Some (f t # ts))"

definition replace_target ::
  "url_parser \<Rightarrow> rconfig \<Rightarrow> int \<Rightarrow> string \<Rightarrow> string \<Rightarrow> string \<Rightarrow> cfg_error + rconfig" where
  "replace_target url_parse cfg i endpoint key install =
     (case update_first i
             (\<lambda>t. t\<lparr>rt_url := trim_space endpoint, rt_key := trim_space key,
                    rt_install := trim_space install\<rparr>)
             (rc_targets cfg) of
        None \<Rightarrow> Inl TargetNotFound
      | Some ts \<Rightarrow>
          (let next = \<lparr>rc_version = rc_version cfg, rc_targets = ts\<rparr>
           in case validate url_parse next of Inl e \<Rightarrow> Inl e | Inr _ \<Rightarrow> Inr next))"

definition update_key :: "url_parser \<Rightarrow> rconfig \<Rightarrow> int \<Rightarrow> string \<Rightarrow> cfg_error + rconfig" where
  "update_key url_parse cfg i key =
     (case update_first i (\<lambda>t. t\<lparr>rt_key := trim_space key\<rparr>) (rc_targets cfg) of
        None \<Rightarrow> Inl TargetNotFound
      | Some ts \<Rightarrow>
          (let next = \<lparr>rc_version = rc_version cfg, rc_targets = ts\<rparr>
           in case validate url_parse next of Inl e \<Rightarrow> Inl e | Inr _ \<Rightarrow> Inr next))"

section \<open>Load and Save\<close>

text \<open>The environment of one call: the YAML codec, the path of the file and its directory, the
  name \<open>os.CreateTemp\<close> picked, whether the process is root, and which calls fail.\<close>

record cfg_env =
  ce_parse :: url_parser
  ce_encode :: "rconfig \<Rightarrow> string option"
  ce_decode :: "string \<Rightarrow> rconfig option"
  ce_path :: path
  ce_dir :: path
  ce_tmp :: path
  ce_root :: bool
  ce_open_fails :: bool
  ce_stat_fails :: bool
  ce_faults :: fs_oracle

definition load_config :: "cfg_env \<Rightarrow> fsys \<Rightarrow> cfg_error + rconfig" where
  "load_config env fs =
     (if fs (ce_path env) = None then Inr empty_config
      else if ce_open_fails env then Inl OpenFailed
      else if ce_stat_fails env then Inl StatFailed
      else case fs (ce_path env) of
        Some (RegFile data mode) \<Rightarrow>
          if mode \<noteq> mode_0600 then Inl BadMode
          else (case ce_decode env data of
                  None \<Rightarrow> Inl DecodeFailed
                | Some cfg \<Rightarrow>
                    (case validate (ce_parse env) cfg of Inl e \<Rightarrow> Inl e | Inr _ \<Rightarrow> Inr cfg))
      | _ \<Rightarrow> Inl BadMode)"

text \<open>The calls of \<open>Save\<close> up to the rename; \<open>chownLike\<close> returns at once unless the process is root.\<close>

definition save_prep :: "bool \<Rightarrow> path \<Rightarrow> nat \<Rightarrow> string \<Rightarrow> fop list" where
  "save_prep root tmp mode data =
     [CreateTemp tmp, Chmod tmp mode, WriteTo tmp data, SyncFile tmp, CloseFile tmp] @
     (if root then [ChownFile tmp] else [])"

definition save_script :: "cfg_env \<Rightarrow> string \<Rightarrow> fop list" where
  "save_script env data =
     save_prep (ce_root env) (ce_tmp env) mode_0600 data @ [RenameTo (ce_tmp env) (ce_path env)]"

definition save_config :: "cfg_env \<Rightarrow> rconfig \<Rightarrow> fsys \<Rightarrow> fsys \<times> (cfg_error + unit)" where
  "save_config env cfg fs =
     (case validate (ce_parse env) cfg of
        Inl e \<Rightarrow> (fs, Inl e)
      | Inr _ \<Rightarrow>
          (case fs_step (ce_faults env) (MkdirAll (ce_dir env)) fs of
             (fs1, False) \<Rightarrow> (fs1, Inl MkdirFailed)
           | (fs1, True) \<Rightarrow>
               (case ce_encode env cfg of
                  None \<Rightarrow>
                    (case run_ops (ce_faults env) [CreateTemp (ce_tmp env), Chmod (ce_tmp env) mode_0600] fs1 of
                       (fs2, Some oper) \<Rightarrow> (fs_ignore (ce_faults env) (RemoveFile (ce_tmp env)) fs2, Inl (WriteFailed oper))
                     | (fs2, None) \<Rightarrow> (fs_ignore (ce_faults env) (RemoveFile (ce_tmp env)) fs2, Inl EncodeFailed))
                | Some data \<Rightarrow>
                    (case run_ops (ce_faults env) (save_script env data) fs1 of
                       (fs2, None) \<Rightarrow> (fs_ignore (ce_faults env) (RemoveFile (ce_tmp env)) fs2, Inr ())
                     | (fs2, Some (CreateTemp _)) \<Rightarrow> (fs2, Inl (WriteFailed (CreateTemp (ce_tmp env))))
                     | (fs2, Some oper) \<Rightarrow>
                         (fs_ignore (ce_faults env) (RemoveFile (ce_tmp env)) fs2, Inl (WriteFailed oper))))))"

section \<open>What a valid configuration is\<close>

definition valid_target :: "url_parser \<Rightarrow> rtarget \<Rightarrow> bool" where
  "valid_target url_parse t \<longleftrightarrow>
     0 < rt_id t \<and> validate_url url_parse (rt_url t) = Inr () \<and> trim_space (rt_key t) \<noteq> '''' \<and>
     (rt_install t = '''' \<or> trim_space (rt_install t) \<noteq> '''')"

definition install_ids :: "rtarget list \<Rightarrow> string list" where
  "install_ids ts = map (\<lambda>t. trim_space (rt_install t)) (filter (\<lambda>t. rt_install t \<noteq> '''') ts)"

definition valid_config :: "url_parser \<Rightarrow> rconfig \<Rightarrow> bool" where
  "valid_config url_parse cfg \<longleftrightarrow>
     rc_version cfg = cfg_version \<and> list_all (valid_target url_parse) (rc_targets cfg) \<and>
     distinct (map rt_id (rc_targets cfg)) \<and> distinct (install_ids (rc_targets cfg))"

lemma install_ids_simps [simp]:
  "install_ids [] = []"
  "install_ids (t # ts) =
     (if rt_install t = '''' then install_ids ts else trim_space (rt_install t) # install_ids ts)"
  "install_ids (ts @ us) = install_ids ts @ install_ids us"
  by (auto simp: install_ids_def)

lemma set_install_ids:
  "set (install_ids ts) = {trim_space (rt_install t) | t. t \<in> set ts \<and> rt_install t \<noteq> ''''}"
  by (auto simp: install_ids_def)

lemma validate_targets_iff:
  "validate_targets url_parse ids installs ts = Inr () \<longleftrightarrow>
     list_all (valid_target url_parse) ts \<and> distinct (map rt_id ts) \<and> set ids \<inter> rt_id ` set ts = {} \<and>
     distinct (install_ids ts) \<and> fst ` set installs \<inter> set (install_ids ts) = {}"
proof (induction url_parse ids installs ts rule: validate_targets.induct)
  case (2 url_parse ids installs t ts)
  show ?case
  proof (cases "valid_target url_parse t \<and> rt_id t \<notin> set ids")
    case True
    then have t: "0 < rt_id t" "validate_url url_parse (rt_url t) = Inr ()" "trim_space (rt_key t) \<noteq> []"
      "rt_id t \<notin> set ids" by (auto simp: valid_target_def)
    show ?thesis
    proof (cases "rt_install t = []")
      case True
      with t "2.IH"(1) show ?thesis by (auto simp: valid_target_def)
    next
      case False
      then have iid: "normalize_install_id (rt_install t) = Some (trim_space (rt_install t))"
        using \<open>valid_target url_parse t \<and> rt_id t \<notin> set ids\<close>
        by (auto simp: valid_target_def normalize_install_id_def Let_def)
      show ?thesis
      proof (cases "map_of installs (trim_space (rt_install t))")
        case None
        have "validate_targets url_parse ids installs (t # ts) =
              validate_targets url_parse (rt_id t # ids)
                (AList.update (trim_space (rt_install t)) (rt_id t) installs) ts"
          using t False iid None by simp
        also have "\<dots> = Inr () \<longleftrightarrow>
            list_all (valid_target url_parse) ts \<and> distinct (map rt_id ts) \<and>
            set (rt_id t # ids) \<inter> rt_id ` set ts = {} \<and> distinct (install_ids ts) \<and>
            insert (trim_space (rt_install t)) (fst ` set installs) \<inter> set (install_ids ts) = {}"
          using "2.IH"(2) [OF _ _ _ _ False iid None] t by (simp add: dom_update)
        finally show ?thesis
          using True False t None by (auto simp: valid_target_def map_of_eq_None_iff)
      next
        case (Some other)
        then have "trim_space (rt_install t) \<in> fst ` set installs"
          by (metis map_of_eq_None_iff option.distinct(1))
        with Some t False iid show ?thesis by auto
      qed
    qed
  next
    case False
    then show ?thesis
      by (auto simp: valid_target_def normalize_install_id_def Let_def split: option.splits sum.splits)
  qed
qed simp

text \<open>\<open>Validate\<close> accepts exactly the configurations of version 1 whose targets have positive,
  distinct ids, acceptable URLs and non-blank keys, and whose install ids are distinct after trimming.\<close>

theorem validate_accepts: "validate url_parse cfg = Inr () \<longleftrightarrow>
    rc_version cfg = 1 \<and>
    list_all (\<lambda>t. 0 < rt_id t \<and> validate_url url_parse (rt_url t) = Inr () \<and> trim_space (rt_key t) \<noteq> [] \<and>
                  (rt_install t = [] \<or> trim_space (rt_install t) \<noteq> [])) (rc_targets cfg) \<and>
    distinct (map rt_id (rc_targets cfg)) \<and>
    distinct (map (\<lambda>t. trim_space (rt_install t)) (filter (\<lambda>t. rt_install t \<noteq> []) (rc_targets cfg)))"
  by (simp add: validate_def validate_targets_iff cfg_version_def install_ids_def valid_target_def [abs_def])

lemma validate_iff_valid: "validate url_parse cfg = Inr () \<longleftrightarrow> valid_config url_parse cfg"
  by (auto simp: validate_def valid_config_def validate_targets_iff)

lemma validate_cases:
  "(case validate url_parse cfg of Inl e \<Rightarrow> Inl e | Inr _ \<Rightarrow> Inr x) = Inr y \<longleftrightarrow>
     valid_config url_parse cfg \<and> x = y"
  using validate_iff_valid [of url_parse cfg] by (auto split: sum.splits)

lemma max_id_ge: "m \<le> max_id m ts"
proof (induction ts arbitrary: m)
  case (Cons t ts)
  have "rt_id t \<le> max_id (rt_id t) ts" and "m \<le> max_id m ts" by (rule Cons.IH)+
  then show ?case by auto
qed simp

lemma max_id_upper: "t \<in> set ts \<Longrightarrow> rt_id t \<le> max_id m ts"
proof (induction ts arbitrary: m)
  case (Cons u ts)
  have "rt_id u \<le> max_id (if rt_id u > m then rt_id u else m) ts"
    using max_id_ge [of "if rt_id u > m then rt_id u else m" ts] by (auto split: if_splits)
  with Cons show ?case by auto
qed simp

lemma update_first_None: "update_first i f ts = None \<longleftrightarrow> i \<notin> rt_id ` set ts"
  by (induction ts) auto

lemma update_first_Some:
  "update_first i f ts = Some us \<Longrightarrow>
   \<exists>xs t ys. ts = xs @ t # ys \<and> rt_id t = i \<and> i \<notin> rt_id ` set xs \<and> us = xs @ f t # ys"
proof (induction ts arbitrary: us)
  case (Cons t ts)
  show ?case
  proof (cases "rt_id t = i")
    case True
    then show ?thesis using Cons.prems by (intro exI [of _ "[]"]) auto
  next
    case False
    with Cons.prems obtain us' where "update_first i f ts = Some us'" and us: "us = t # us'" by auto
    with Cons.IH obtain xs u ys where
      "ts = xs @ u # ys \<and> rt_id u = i \<and> i \<notin> rt_id ` set xs \<and> us' = xs @ f u # ys" by blast
    with False us show ?thesis by (intro exI [of _ "t # xs"]) auto
  qed
qed simp

section \<open>Laws of the updates\<close>

lemma add_target_valid: "add_target url_parse cfg e k n = Inr (cfg', t) \<Longrightarrow> valid_config url_parse cfg'"
  by (auto simp: add_target_def Let_def validate_cases)

lemma remove_target_valid: "remove_target url_parse cfg i = Inr cfg' \<Longrightarrow> valid_config url_parse cfg'"
  by (auto simp: remove_target_def Let_def validate_cases split: if_splits)

lemma replace_target_valid: "replace_target url_parse cfg i e k n = Inr cfg' \<Longrightarrow> valid_config url_parse cfg'"
  by (auto simp: replace_target_def Let_def validate_cases split: option.splits)

lemma update_key_valid: "update_key url_parse cfg i k = Inr cfg' \<Longrightarrow> valid_config url_parse cfg'"
  by (auto simp: update_key_def Let_def validate_cases split: option.splits)

lemma valid_config_filter:
  assumes "valid_config url_parse cfg" and "cfg' = \<lparr>rc_version = rc_version cfg, rc_targets = filter P (rc_targets cfg)\<rparr>"
  shows "valid_config url_parse cfg'"
proof -
  have "distinct (install_ids (filter P ts))" if "distinct (install_ids ts)" for ts
    using that by (induction ts) (auto simp: set_install_ids)
  then show ?thesis
    using assms by (auto simp: valid_config_def list_all_iff distinct_map_filter)
qed

lemma valid_config_snoc:
  assumes "valid_config url_parse \<lparr>rc_version = v, rc_targets = ts\<rparr>"
  shows "valid_config url_parse \<lparr>rc_version = v, rc_targets = ts @ [t]\<rparr> \<longleftrightarrow>
    valid_target url_parse t \<and> rt_id t \<notin> rt_id ` set ts \<and>
    (rt_install t = '''' \<or> trim_space (rt_install t) \<notin> set (install_ids ts))"
  using assms by (auto simp: valid_config_def)

lemma next_id_fresh:
  assumes "max_id 0 ts < max_int64"
  shows "next_id ts = max_id 0 ts + 1" and "0 < next_id ts" and "next_id ts \<notin> rt_id ` set ts"
proof -
  have "0 \<le> max_id 0 ts" by (rule max_id_ge)
  then show e: "next_id ts = max_id 0 ts + 1"
    unfolding next_id_def using assms
    by (intro wrap64_id) (simp add: is_int64_def min_int64_def max_int64_def)
  then show "0 < next_id ts" using \<open>0 \<le> max_id 0 ts\<close> by simp
  show "next_id ts \<notin> rt_id ` set ts"
    using max_id_upper [of _ ts 0] e by fastforce
qed

lemma valid_config_eta: "valid_config url_parse cfg \<Longrightarrow>
    valid_config url_parse \<lparr>rc_version = cfg_version, rc_targets = rc_targets cfg\<rparr>"
  by (simp add: valid_config_def)

lemma add_target_char:
  assumes "valid_config url_parse cfg" and "max_id 0 (rc_targets cfg) < max_int64"
  shows "add_target url_parse cfg endpoint key install = Inr (cfg', t) \<longleftrightarrow>
     validate_url url_parse (trim_space endpoint) = Inr () \<and> trim_space key \<noteq> '''' \<and>
     trim_space install \<notin> set (install_ids (rc_targets cfg)) \<and>
     t = \<lparr>rt_id = max_id 0 (rc_targets cfg) + 1, rt_url = trim_space endpoint,
          rt_key = trim_space key, rt_install = trim_space install\<rparr> \<and>
     rt_id t \<notin> rt_id ` set (rc_targets cfg) \<and>
     cfg' = \<lparr>rc_version = 1, rc_targets = rc_targets cfg @ [t]\<rparr>"
proof -
  let ?t = "\<lparr>rt_id = next_id (rc_targets cfg), rt_url = trim_space endpoint,
             rt_key = trim_space key, rt_install = trim_space install\<rparr>"
  note fresh = next_id_fresh [OF assms(2)]
  have v: "rc_version cfg = 1" and "cfg_version = 1"
    using assms(1) by (simp_all add: valid_config_def cfg_version_def)
  have blank: "'''' \<notin> set (install_ids (rc_targets cfg))"
    using assms(1) by (auto simp: valid_config_def set_install_ids list_all_iff valid_target_def)
  have "add_target url_parse cfg endpoint key install = Inr (cfg', t) \<longleftrightarrow>
        valid_config url_parse \<lparr>rc_version = 1, rc_targets = rc_targets cfg @ [?t]\<rparr> \<and>
        cfg' = \<lparr>rc_version = 1, rc_targets = rc_targets cfg @ [?t]\<rparr> \<and> t = ?t"
    using v by (auto simp: add_target_def Let_def validate_cases)
  then show ?thesis
    using valid_config_snoc [OF valid_config_eta [OF assms(1)], of ?t] fresh blank \<open>cfg_version = 1\<close>
    by (auto simp: valid_target_def)
qed

text \<open>\<open>Add\<close> on a valid configuration succeeds exactly when the URL is acceptable, the key is
  not blank and the install id, if any, is not yet registered; it then appends one target
  under a fresh, positive id and keeps every other target.\<close>

theorem add_target_spec:
  assumes "valid_config url_parse cfg" and "max_id 0 (rc_targets cfg) < max_int64"
  shows "add_target url_parse cfg endpoint key install = Inr (cfg', t) \<longleftrightarrow>
     validate_url url_parse (trim_space endpoint) = Inr () \<and> trim_space key \<noteq> '''' \<and>
     trim_space install \<notin> set (install_ids (rc_targets cfg)) \<and>
     t = \<lparr>rt_id = max_id 0 (rc_targets cfg) + 1, rt_url = trim_space endpoint,
          rt_key = trim_space key, rt_install = trim_space install\<rparr> \<and>
     rt_id t \<notin> rt_id ` set (rc_targets cfg) \<and>
     cfg' = \<lparr>rc_version = 1, rc_targets = rc_targets cfg @ [t]\<rparr>"
  using assms by (rule add_target_char)

lemma remove_target_char:
  assumes "valid_config url_parse cfg"
  shows "remove_target url_parse cfg i =
     (if i \<in> rt_id ` set (rc_targets cfg)
      then Inr \<lparr>rc_version = 1, rc_targets = filter (\<lambda>t. rt_id t \<noteq> i) (rc_targets cfg)\<rparr>
      else Inl TargetNotFound)"
proof -
  let ?next = "\<lparr>rc_version = rc_version cfg, rc_targets = filter (\<lambda>t. rt_id t \<noteq> i) (rc_targets cfg)\<rparr>"
  have "validate url_parse ?next = Inr ()"
    by (simp add: validate_iff_valid valid_config_filter [OF assms refl])
  moreover have "rc_version cfg = 1" using assms by (simp add: valid_config_def cfg_version_def)
  ultimately show ?thesis
    by (auto simp: remove_target_def Let_def list_ex_iff)
qed

text \<open>\<open>Remove\<close> on a valid configuration never fails its own re-validation: it drops exactly the
  target with the id, or reports that there is none.\<close>

theorem remove_target_spec:
  assumes "valid_config url_parse cfg"
  shows "remove_target url_parse cfg i =
     (if i \<in> rt_id ` set (rc_targets cfg)
      then Inr \<lparr>rc_version = 1, rc_targets = filter (\<lambda>t. rt_id t \<noteq> i) (rc_targets cfg)\<rparr>
      else Inl TargetNotFound)"
  using assms by (rule remove_target_char)

lemma valid_config_update:
  assumes "valid_config url_parse \<lparr>rc_version = 1, rc_targets = xs @ t # ys\<rparr>" and "rt_id t' = rt_id t"
  shows "valid_config url_parse \<lparr>rc_version = 1, rc_targets = xs @ t' # ys\<rparr> \<longleftrightarrow>
    valid_target url_parse t' \<and>
    (rt_install t' = '''' \<or> trim_space (rt_install t') \<notin> set (install_ids (xs @ ys)))"
  using assms by (auto simp: valid_config_def split: if_splits)

lemma map_update_split:
  assumes "distinct (map rt_id (xs @ t # ys))"
  shows "map (\<lambda>u. if rt_id u = rt_id t then f u else u) (xs @ t # ys) = xs @ f t # ys"
  using assms by (auto simp: image_iff intro!: map_idI)

lemma valid_target_key:
  assumes "valid_target url_parse t" and "trim_space key \<noteq> ''''"
  shows "validate url_parse \<lparr>rc_version = 1, rc_targets = xs @ t\<lparr>rt_key := trim_space key\<rparr> # ys\<rparr> = Inr () \<longleftrightarrow>
         validate url_parse \<lparr>rc_version = 1, rc_targets = xs @ t # ys\<rparr> = Inr ()"
  using assms by (auto simp: validate_iff_valid valid_config_def valid_target_def)

text \<open>Validation runs through the targets before the changed one and stops at its blank key.\<close>

lemma validate_targets_blank_key:
  assumes "validate_targets url_parse ids installs (xs @ t # ys) = Inr ()" and "trim_space k = ''''"
  shows "validate_targets url_parse ids installs (xs @ t\<lparr>rt_key := k\<rparr> # ys) = Inl (KeyEmpty (rt_id t))"
  using assms
proof (induction url_parse ids installs xs rule: validate_targets.induct)
  case (1 url_parse ids installs)
  then show ?case by (auto split: if_splits sum.splits)
next
  case (2 url_parse ids installs u us)
  then show ?case
    by (auto split: if_splits sum.splits option.splits)
qed

text \<open>\<open>UpdateKey\<close> on a valid configuration rotates the key of exactly one target; a blank key and
  an unknown id are its only errors.\<close>

theorem update_key_spec:
  assumes "valid_config url_parse cfg"
  shows "update_key url_parse cfg i key =
     (if i \<notin> rt_id ` set (rc_targets cfg) then Inl TargetNotFound
      else if trim_space key = '''' then Inl (KeyEmpty i)
      else Inr \<lparr>rc_version = 1,
                rc_targets = map (\<lambda>t. if rt_id t = i then t\<lparr>rt_key := trim_space key\<rparr> else t) (rc_targets cfg)\<rparr>)"
proof (cases "update_first i (\<lambda>t. t\<lparr>rt_key := trim_space key\<rparr>) (rc_targets cfg)")
  case None
  moreover have "i \<notin> rt_id ` set (rc_targets cfg)" using None update_first_None by blast
  ultimately show ?thesis by (simp add: update_key_def)
next
  case (Some us)
  then obtain xs t ys where ts: "rc_targets cfg = xs @ t # ys" and i: "rt_id t = i"
    and us: "us = xs @ t\<lparr>rt_key := trim_space key\<rparr> # ys"
    using update_first_Some by blast
  have ver: "rc_version cfg = 1" using assms by (simp add: valid_config_def cfg_version_def)
  have ok: "validate url_parse \<lparr>rc_version = 1, rc_targets = xs @ t # ys\<rparr> = Inr ()"
    using valid_config_eta [OF assms] ts by (simp add: validate_iff_valid cfg_version_def)
  have vt: "valid_target url_parse t" and d: "distinct (map rt_id (xs @ t # ys))"
    using assms ts by (auto simp: valid_config_def)
  have mem: "i \<in> rt_id ` set (rc_targets cfg)" using ts i by auto
  show ?thesis
  proof (cases "trim_space key = ''''")
    case True
    have "validate_targets url_parse [] [] us = Inl (KeyEmpty i)"
      using validate_targets_blank_key [of url_parse "[]" "[]" xs t ys "trim_space key"] ok True i us
      by (simp add: validate_def cfg_version_def)
    then show ?thesis
      using True mem Some ver by (simp add: update_key_def Let_def validate_def cfg_version_def)
  next
    case False
    have "validate url_parse \<lparr>rc_version = 1, rc_targets = us\<rparr> = Inr ()"
      using ok us by (simp add: valid_target_key [OF vt False])
    then show ?thesis
      using False mem Some ver us map_update_split [OF d, of "\<lambda>t. t\<lparr>rt_key := trim_space key\<rparr>"] ts i
      by (simp add: update_key_def Let_def)
  qed
qed

text \<open>Installing a target and removing it again gives the configuration back.\<close>

theorem add_remove_roundtrip:
  assumes "valid_config url_parse cfg" and "max_id 0 (rc_targets cfg) < max_int64"
    and "add_target url_parse cfg endpoint key install = Inr (cfg', t)"
  shows "remove_target url_parse cfg' (rt_id t) = Inr cfg"
proof -
  note spec = assms(3) [unfolded add_target_char [OF assms(1,2)]]
  have cfg: "cfg = \<lparr>rc_version = 1, rc_targets = rc_targets cfg\<rparr>"
    using assms(1) by (cases cfg) (simp add: valid_config_def cfg_version_def)
  have "filter (\<lambda>u. rt_id u \<noteq> rt_id t) (rc_targets cfg) = rc_targets cfg"
    using spec by (intro filter_True) force
  moreover have "rc_targets cfg' = rc_targets cfg @ [t]" using spec by simp
  ultimately show ?thesis
    unfolding remove_target_char [OF add_target_valid [OF assms(3)]] using cfg by simp
qed

section \<open>Saving and loading\<close>

interpretation save_pub: publisher "\<lambda>tmp. save_prep root tmp mode" mode for root mode
proof
  show "op_paths oper \<subseteq> {tmp}" if "oper \<in> set (save_prep root tmp mode data)" for oper tmp data
    using that by (auto simp: save_prep_def split: if_splits)
  show "fs' tmp = Some (RegFile data mode)"
    if "fs tmp = None" and "run_ops fails (save_prep root tmp mode data) fs = (fs', None)"
    for fs tmp fails data fs'
    using that
    by (cases root) (auto simp: save_prep_def run_ops_Cons_ok simp del: run_ops.simps(2) dest!: fs_step_ok split: option.splits)
qed

text \<open>C2. A crash at any point of \<open>Save\<close>'s calls leaves the configuration file either as it was or
  complete with its new content and mode 0600.\<close>

theorem save_crash_atomic:
  assumes "fs (ce_tmp env) = None" and "ce_tmp env \<noteq> ce_path env"
    and "ce_dir env \<noteq> ce_path env" and "ce_dir env \<noteq> ce_tmp env"
    and "fs' \<in> set (crash_states (ce_faults env) (MkdirAll (ce_dir env) # save_script env data) fs)"
  shows "fs' (ce_path env) = fs (ce_path env) \<or> fs' (ce_path env) = Some (RegFile data mode_0600)"
proof -
  obtain fs1 ok where mk: "fs_step (ce_faults env) (MkdirAll (ce_dir env)) fs = (fs1, ok)"
    by (cases "fs_step (ce_faults env) (MkdirAll (ce_dir env)) fs")
  have same: "fs1 p = fs p" if "p \<noteq> ce_dir env" for p
    using fs_step_frame [of p "MkdirAll (ce_dir env)" "ce_faults env" fs] that mk by simp
  show ?thesis
  proof (cases "ok \<and> fs' \<in> set (crash_states (ce_faults env) (save_script env data) fs1)")
    case True
    then have "fs' (ce_path env) = fs1 (ce_path env) \<or> fs' (ce_path env) = Some (RegFile data mode_0600)"
      using save_pub.publish_crash [of fs1 "ce_tmp env" "ce_path env" fs' "ce_faults env" "ce_root env" mode_0600 data]
        assms(1,2,4) same [of "ce_tmp env"] by (simp add: save_script_def)
    then show ?thesis using same [of "ce_path env"] assms(3) by simp
  next
    case False
    then show ?thesis using assms(3,5) mk same by (cases ok) auto
  qed
qed

lemma save_config_ok:
  assumes "save_config env cfg fs = (fs', Inr ())"
  obtains fs1 data fs2 where "fs_step (ce_faults env) (MkdirAll (ce_dir env)) fs = (fs1, True)"
    and "ce_encode env cfg = Some data" and "run_ops (ce_faults env) (save_script env data) fs1 = (fs2, None)"
    and "fs' = fs_ignore (ce_faults env) (RemoveFile (ce_tmp env)) fs2" and "valid_config (ce_parse env) cfg"
  using assms validate_iff_valid [of "ce_parse env" cfg]
  by (auto simp: save_config_def split: sum.splits prod.splits bool.splits option.splits fop.splits)

lemma save_config_err:
  assumes "save_config env cfg fs = (fs', Inl e)" and "ce_tmp env \<noteq> ce_path env"
    and "ce_dir env \<noteq> ce_path env" and "fs (ce_tmp env) = None" and "ce_dir env \<noteq> ce_tmp env"
  shows "fs' (ce_path env) = fs (ce_path env)"
proof -
  obtain fs1 ok where mk: "fs_step (ce_faults env) (MkdirAll (ce_dir env)) fs = (fs1, ok)"
    by (cases "fs_step (ce_faults env) (MkdirAll (ce_dir env)) fs")
  have same: "fs1 p = fs p" if "p \<noteq> ce_dir env" for p
    using fs_step_frame [of p "MkdirAll (ce_dir env)" "ce_faults env" fs] that mk by simp
  have early: "fst (run_ops (ce_faults env) [CreateTemp (ce_tmp env), Chmod (ce_tmp env) mode_0600] fs1) (ce_path env)
      = fs1 (ce_path env)"
    using assms(2) by (intro run_ops_frame) auto
  have pub: "fs2 (ce_path env) = fs1 (ce_path env)"
    if "run_ops (ce_faults env) (save_script env data) fs1 = (fs2, Some oper)" for fs2 data oper
    using save_pub.publish_failure [of fs1 "ce_tmp env" "ce_path env"] that assms(2,4,5) same [of "ce_tmp env"]
    by (auto simp: save_script_def)
  show ?thesis
    using assms(1-3) mk same [of "ce_path env"] early pub
    by (auto simp: save_config_def split: sum.splits prod.splits bool.splits option.splits fop.splits)
qed

lemma save_config_result:
  assumes "fs (ce_tmp env) = None" and "ce_tmp env \<noteq> ce_path env"
    and "ce_dir env \<noteq> ce_path env" and "ce_dir env \<noteq> ce_tmp env"
    and "\<And>c data. ce_encode env c = Some data \<Longrightarrow> ce_decode env data = Some c"
    and "\<not> ce_open_fails env" and "\<not> ce_stat_fails env"
    and "save_config env cfg fs = (fs', r)"
  shows "case r of Inl e \<Rightarrow> fs' (ce_path env) = fs (ce_path env)
         | Inr _ \<Rightarrow> fs' (ce_tmp env) = None \<and> load_config env fs' = Inr cfg"
proof (cases r)
  case (Inl e)
  then show ?thesis using save_config_err assms by auto
next
  case (Inr u)
  then obtain fs1 data fs2 where mk: "fs_step (ce_faults env) (MkdirAll (ce_dir env)) fs = (fs1, True)"
    and enc: "ce_encode env cfg = Some data" and run: "run_ops (ce_faults env) (save_script env data) fs1 = (fs2, None)"
    and fs': "fs' = fs_ignore (ce_faults env) (RemoveFile (ce_tmp env)) fs2"
    and val: "valid_config (ce_parse env) cfg"
    using assms(8) save_config_ok by (metis old.unit.exhaust)
  have tmp: "fs1 (ce_tmp env) = None"
    using fs_step_frame [of "ce_tmp env" "MkdirAll (ce_dir env)" "ce_faults env" fs] mk assms(1,4) by simp
  note pub = save_pub.publish_success [OF tmp assms(2) run [unfolded save_script_def]]
  have "fs' (ce_path env) = Some (RegFile data mode_0600)" and "fs' (ce_tmp env) = None"
    using pub fs' by simp_all
  moreover have "validate (ce_parse env) cfg = Inr ()" using val validate_iff_valid by blast
  ultimately show ?thesis
    using Inr assms(5-7) enc by (simp add: load_config_def)
qed

text \<open>\<open>Save\<close> either reports an error and leaves the configuration file untouched, or writes the
  encoded configuration with mode 0600, leaves no temporary file, and \<open>Load\<close> then reads the same
  configuration back.\<close>

theorem save_then_load:
  assumes "fs (ce_tmp env) = None" and "ce_tmp env \<noteq> ce_path env"
    and "ce_dir env \<noteq> ce_path env" and "ce_dir env \<noteq> ce_tmp env"
    and "\<And>c data. ce_encode env c = Some data \<Longrightarrow> ce_decode env data = Some c"
    and "\<not> ce_open_fails env" and "\<not> ce_stat_fails env"
    and "save_config env cfg fs = (fs', r)"
  shows "case r of Inl e \<Rightarrow> fs' (ce_path env) = fs (ce_path env)
         | Inr _ \<Rightarrow> fs' (ce_tmp env) = None \<and> load_config env fs' = Inr cfg"
  using assms by (rule save_config_result)

section \<open>Concrete instances\<close>

definition demo_cfg :: rconfig where
  "demo_cfg = \<lparr>rc_version = 1,
     rc_targets = [\<lparr>rt_id = 1, rt_url = ''http://a/metrics'', rt_key = ''k1'', rt_install = ''s1''\<rparr>]\<rparr>"

lemma demo_cfg_valid: "valid_config demo_parse demo_cfg"
  by code_simp

lemma demo_cfg_max: "max_id 0 (rc_targets demo_cfg) < max_int64"
  by code_simp

theorem validate_accepts_witness: "validate demo_parse demo_cfg = Inr () \<and> validate demo_parse (demo_cfg\<lparr>rc_version := 2\<rparr>) \<noteq> Inr ()"
proof
  show "validate demo_parse demo_cfg = Inr ()" unfolding validate_accepts by code_simp
  show "validate demo_parse (demo_cfg\<lparr>rc_version := 2\<rparr>) \<noteq> Inr ()" unfolding validate_accepts by simp
qed

theorem add_target_spec_witness:
  "\<exists>cfg' t. add_target demo_parse demo_cfg ''https://b/metrics'' '' k2 '' ''s2'' = Inr (cfg', t) \<and> rt_id t = 2"
proof -
  have "validate_url demo_parse (trim_space ''https://b/metrics'') = Inr () \<and> trim_space '' k2 '' \<noteq> '''' \<and>
      trim_space ''s2'' \<notin> set (install_ids (rc_targets demo_cfg)) \<and> max_id 0 (rc_targets demo_cfg) = 1 \<and>
      2 \<notin> rt_id ` set (rc_targets demo_cfg)"
    by code_simp
  then show ?thesis
    using add_target_spec [OF demo_cfg_valid demo_cfg_max, of "''https://b/metrics''" "'' k2 ''" "''s2''"]
    by simp
qed

theorem remove_target_spec_witness:
  "remove_target demo_parse demo_cfg 1 = Inr \<lparr>rc_version = 1, rc_targets = []\<rparr> \<and>
   remove_target demo_parse demo_cfg 7 = Inl TargetNotFound"
  unfolding remove_target_spec [OF demo_cfg_valid] by (simp add: demo_cfg_def)

theorem update_key_spec_witness:
  "update_key demo_parse demo_cfg 1 ''  '' = Inl (KeyEmpty 1) \<and>
   update_key demo_parse demo_cfg 2 ''x'' = Inl TargetNotFound"
  unfolding update_key_spec [OF demo_cfg_valid] by code_simp

theorem add_remove_roundtrip_witness:
  "\<exists>cfg' t. add_target demo_parse demo_cfg ''https://b/metrics'' ''k2'' '''' = Inr (cfg', t) \<and>
     remove_target demo_parse cfg' (rt_id t) = Inr demo_cfg"
proof -
  obtain cfg' t where add: "add_target demo_parse demo_cfg ''https://b/metrics'' ''k2'' '''' = Inr (cfg', t)"
  proof -
    have "\<not> isl (add_target demo_parse demo_cfg ''https://b/metrics'' ''k2'' '''')" by code_simp
    then show thesis using that by (cases "add_target demo_parse demo_cfg ''https://b/metrics'' ''k2'' ''''") auto
  qed
  show ?thesis
    using add add_remove_roundtrip [OF demo_cfg_valid demo_cfg_max add] by blast
qed

text \<open>A file system with an old configuration, and an environment whose codec stores the number of
  targets only in a file of a single known configuration.\<close>

definition demo_env :: "fs_oracle \<Rightarrow> cfg_env" where
  "demo_env faults =
     \<lparr>ce_parse = demo_parse, ce_encode = (\<lambda>c. if c = demo_cfg then Some ''v1'' else None),
      ce_decode = (\<lambda>s. if s = ''v1'' then Some demo_cfg else None),
      ce_path = [''d'', ''report.yaml''], ce_dir = [''d''], ce_tmp = [''d'', ''.report-1.tmp''], ce_root = True,
      ce_open_fails = False, ce_stat_fails = False, ce_faults = faults\<rparr>"

definition demo_fs :: fsys where
  "demo_fs = [[''d''] \<mapsto> Directory, [''d'', ''report.yaml''] \<mapsto> RegFile ''old'' mode_0600]"

theorem save_crash_atomic_witness:
  "list_all (\<lambda>fs'. fs' [''d'', ''report.yaml''] = Some (RegFile ''old'' mode_0600) \<or>
       fs' [''d'', ''report.yaml''] = Some (RegFile ''v1'' mode_0600))
     (crash_states no_faults (MkdirAll [''d''] # save_script (demo_env no_faults) ''v1'') demo_fs)"
  unfolding list_all_iff
proof
  fix fs'
  assume "fs' \<in> set (crash_states no_faults (MkdirAll [''d''] # save_script (demo_env no_faults) ''v1'') demo_fs)"
  then show "fs' [''d'', ''report.yaml''] = Some (RegFile ''old'' mode_0600) \<or>
     fs' [''d'', ''report.yaml''] = Some (RegFile ''v1'' mode_0600)"
    using save_crash_atomic [of demo_fs "demo_env no_faults" fs' "''v1''"]
    by (simp add: demo_env_def demo_fs_def)
qed

theorem save_then_load_witness:
  "load_config (demo_env no_faults) (fst (save_config (demo_env no_faults) demo_cfg demo_fs)) = Inr demo_cfg \<and>
   snd (save_config (demo_env no_faults) demo_cfg demo_fs) = Inr ()"
proof -
  obtain fs' r where s: "save_config (demo_env no_faults) demo_cfg demo_fs = (fs', r)"
    by (cases "save_config (demo_env no_faults) demo_cfg demo_fs")
  have val: "validate demo_parse demo_cfg = Inr ()" using demo_cfg_valid validate_iff_valid by blast
  have r: "r = Inr ()"
    using s val by (simp add: save_config_def demo_env_def demo_fs_def save_script_def save_prep_def no_faults_def
        fs_step.simps split: prod.splits)
  have "case r of Inl e \<Rightarrow> fs' (ce_path (demo_env no_faults)) = demo_fs (ce_path (demo_env no_faults))
        | Inr _ \<Rightarrow> fs' (ce_tmp (demo_env no_faults)) = None \<and> load_config (demo_env no_faults) fs' = Inr demo_cfg"
    by (rule save_then_load [OF _ _ _ _ _ _ _ s]) (auto simp: demo_env_def demo_fs_def split: if_splits)
  then show ?thesis using r s by simp
qed

end
