(* ===== verification/PushTarget.thy ===== *)
theory PushTarget
  imports "HOL-Library.Multiset" LogLimiter Transport ReportConfig SelfUpdate
begin

text \<open>
  A report target of \<open>internal/push/push.go\<close>: its construction, the URLs derived from its
  endpoint, the HTTPS-to-HTTP fallback, the handling of errors and responses, and the plan
  that collects update manifests of a round.  Network results are inputs: an error is the
  set of facts the code asks about it, a response its status, media type and body.
\<close>

section \<open>Errors of the HTTP client\<close>

record go_error =
  ge_record_header :: bool
  ge_msg :: string
  ge_url_inner :: "string option"
  ge_unknown_authority :: bool
  ge_hostname :: bool
  ge_invalid_cert :: "bool option"
  ge_refused :: bool

text \<open>\<open>ge_invalid_cert\<close> is \<open>Some expired\<close> for an \<open>x509.CertificateInvalidError\<close>.\<close>

definition is_plain_http :: "go_error \<Rightarrow> bool" where
  "is_plain_http e \<longleftrightarrow>
     ge_record_header e \<or>
     (let msg = (case ge_url_inner e of Some m \<Rightarrow> m | None \<Rightarrow> ge_msg e)
      in contains msg ''http: server gave HTTP response to HTTPS client'' \<or>
         contains msg ''tls: first record does not look like a TLS handshake'')"

definition is_cert_error :: "go_error \<Rightarrow> bool" where
  "is_cert_error e \<longleftrightarrow> ge_unknown_authority e \<or> ge_hostname e \<or> ge_invalid_cert e \<noteq> None"

definition is_expired_cert :: "go_error \<Rightarrow> bool" where
  "is_expired_cert e \<longleftrightarrow> ge_invalid_cert e = Some True"

text \<open>The TLS connection \<open>allowExpiredCertFallback\<close> opens: \<open>None\<close> when it fails, else the validity of
  each certificate shown by the peer, the clock, and whether the chain verifies at an instant.\<close>

record tls_probe =
  tp_dial_ok :: bool
  tp_peers :: "(time \<times> time) list"
  tp_now :: time
  tp_verifies :: "time \<Rightarrow> bool"

definition allow_expired_cert_fallback :: "tls_probe \<Rightarrow> bool" where
  "allow_expired_cert_fallback p =
     (if \<not> tp_dial_ok p then False
      else case tp_peers p of
        [] \<Rightarrow> False
      | (not_before, not_after) # _ \<Rightarrow>
          if tp_now p < not_after then False
          else (let t = time_add not_after (- second);
                    verify_time = (if t < not_before then time_add not_before second else t)
                in tp_verifies p verify_time))"

section \<open>Targets\<close>

record target =
  tg_id :: int
  tg_endpoint :: url
  tg_host_is_ip :: bool
  tg_secret :: string
  tg_require_https :: bool
  tg_static_wake :: "string option"
  tg_rpc :: rpc_target
  tg_static_lim :: limiter
  tg_err_lim :: limiter
  tg_refused_count :: int
  tg_refused_suppressed :: bool
  tg_rpc_failed :: bool

datatype target_error = TransportInvalid | TargetUrlParse int | TargetNotHttps int | TargetNoHost int

text \<open>\<open>newTarget\<close>; \<open>transport\<close> is the value of the environment variable, \<open>parse_ip\<close> is \<open>net.ParseIP\<close>.\<close>

definition new_target ::
  "url_parser \<Rightarrow> (string \<Rightarrow> bool) \<Rightarrow> string \<Rightarrow> rtarget \<Rightarrow> bool \<Rightarrow> target_error + target" where
  "new_target url_parse parse_ip transport spec require_https =
     (case transport_mode transport of
        None \<Rightarrow> Inl TransportInvalid
      | Some mode \<Rightarrow>
          (case url_parse (trim_space (rt_url spec)) of
             None \<Rightarrow> Inl (TargetUrlParse (rt_id spec))
           | Some endpoint \<Rightarrow>
               if require_https \<and> u_scheme endpoint \<noteq> ''https'' then Inl (TargetNotHttps (rt_id spec))
               else if u_hostname endpoint = '''' then Inl (TargetNoHost (rt_id spec))
               else Inr \<lparr>tg_id = rt_id spec, tg_endpoint = endpoint,
                         tg_host_is_ip = parse_ip (u_hostname endpoint), tg_secret = rt_key spec,
                         tg_require_https = require_https, tg_static_wake = None, tg_rpc = new_rpc mode,
                         tg_static_lim = new_limiter minute, tg_err_lim = new_limiter minute,
                         tg_refused_count = 0, tg_refused_suppressed = False, tg_rpc_failed = False\<rparr>))"

definition host_type :: "target \<Rightarrow> string" where
  "host_type t = (if tg_host_is_ip t then ''ip'' else ''domain'')"

text \<open>A URL stands for its text; \<open>None\<close> is the empty string the code returns for \<open>no such endpoint\<close>.\<close>

definition metrics_url :: "target \<Rightarrow> url" where "metrics_url t = tg_endpoint t"

definition sibling_url :: "string \<Rightarrow> target \<Rightarrow> url option" where
  "sibling_url name t =
     (if \<not> has_suffix (u_path (tg_endpoint t)) ''/metrics'' then None
      else Some ((tg_endpoint t)\<lparr>u_path := trim_suffix (u_path (tg_endpoint t)) ''/metrics'' @ name\<rparr>))"

definition static_url :: "target \<Rightarrow> url option" where "static_url t = sibling_url ''/static'' t"
definition identity_url :: "target \<Rightarrow> url option" where "identity_url t = sibling_url ''/identity'' t"

definition endpoint_parts :: "target \<Rightarrow> string \<times> string \<times> string \<times> string" where
  "endpoint_parts t =
     (let e = tg_endpoint t;
          port = (if u_port e = '''' then (if u_scheme e = ''https'' then ''443'' else ''80'') else u_port e)
      in (u_scheme e, u_hostname e, port, u_host e))"

definition fallback_http :: "tls_probe \<Rightarrow> go_error \<Rightarrow> target \<Rightarrow> target \<times> bool" where
  "fallback_http probe e t =
     (if rpc_mode (tg_rpc t) \<noteq> ''http'' then (t, False)
      else case endpoint_parts t of
        (scheme, host, port, host_port) \<Rightarrow>
          if scheme \<noteq> ''https'' \<or> tg_require_https t then (t, False)
          else
            (let allowed = is_plain_http e \<or> tg_host_is_ip t \<and> is_cert_error e;
                 allowed2 = (if \<not> allowed \<and> \<not> tg_host_is_ip t \<and> is_expired_cert e
                             then allow_expired_cert_fallback probe else allowed)
             in if \<not> allowed2 then (t, False)
                else (t\<lparr>tg_endpoint := (tg_endpoint t)\<lparr>u_scheme := ''http''\<rparr>\<rparr>, True)))"

text \<open>A send on the one-element \<open>staticWake\<close> channel that never blocks: a pending wake-up is kept.\<close>

definition wake_static :: "string \<Rightarrow> target \<Rightarrow> target" where
  "wake_static reason t =
     (case tg_static_wake t of None \<Rightarrow> t\<lparr>tg_static_wake := Some reason\<rparr> | Some _ \<Rightarrow> t)"

definition log_err :: "time \<Rightarrow> target \<Rightarrow> target" where
  "log_err now t = t\<lparr>tg_err_lim := fst (limiter_logf now (tg_err_lim t))\<rparr>"

definition handle_error ::
  "time \<Rightarrow> ctx_error option \<Rightarrow> tls_probe \<Rightarrow> go_error \<Rightarrow> target \<Rightarrow> target \<times> ctx_error option" where
  "handle_error now ctx probe e t =
     (case ctx of
        Some ce \<Rightarrow> (t, Some ce)
      | None \<Rightarrow>
          (case fallback_http probe e t of
             (t1, True) \<Rightarrow> (t1, None)
           | (t1, False) \<Rightarrow>
               if ge_refused e then
                 (let t2 = t1\<lparr>tg_refused_count := wrap64 (tg_refused_count t1 + 1)\<rparr> in
                  if \<not> tg_refused_suppressed t2 \<and> 3 \<le> tg_refused_count t2
                  then (t2\<lparr>tg_refused_suppressed := True\<rparr>, None)
                  else if \<not> tg_refused_suppressed t2 then (log_err now t2, None)
                  else (t2, None))
               else (log_err now t1, None)))"

section \<open>Responses and update manifests\<close>

record http_resp =
  hr_status :: int
  hr_media :: "string option"
  hr_body :: "string option"

text \<open>\<open>hr_media\<close> is the result of \<open>mime.ParseMediaType\<close>, \<open>hr_body\<close> what reading the body gives; JSON
  decoding is the argument \<open>decode\<close>: \<open>None\<close> for invalid JSON, else the \<open>update\<close> field.\<close>

type_synonym update_decoder = "string \<Rightarrow> manifest option option"

definition decode_metrics_response :: "update_decoder \<Rightarrow> http_resp \<Rightarrow> manifest option" where
  "decode_metrics_response decode resp =
     (case hr_media resp of
        None \<Rightarrow> None
      | Some media \<Rightarrow>
          if \<not> equal_fold media ''application/json'' then None
          else case hr_body resp of
            None \<Rightarrow> None
          | Some body \<Rightarrow>
              (let data = take (2 ^ 20) body; trimmed = trim_space data
               in if trimmed = '''' \<or> trimmed = ''ok'' then None
                  else case decode data of None \<Rightarrow> None | Some update \<Rightarrow> update))"

definition handle_response ::
  "time \<Rightarrow> update_decoder \<Rightarrow> http_resp \<Rightarrow> target \<Rightarrow> target \<times> bool \<times> bool \<times> manifest option" where
  "handle_response now decode resp t =
     (if hr_status resp \<noteq> 200 then (log_err now t, False, False, None)
      else
        (t\<lparr>tg_refused_suppressed := False, tg_refused_count := 0\<rparr>, True, tg_refused_suppressed t,
         decode_metrics_response decode resp))"

definition same_node_version :: "string \<Rightarrow> string \<Rightarrow> bool" where
  "same_node_version update_version current_version \<longleftrightarrow>
     trim_space update_version \<noteq> '''' \<and> trim_space update_version = trim_space current_version"

definition same_update_manifest :: "manifest \<Rightarrow> manifest \<Rightarrow> bool" where
  "same_update_manifest a b \<longleftrightarrow>
     m_id a = m_id b \<and> m_version a = m_version b \<and> m_url a = m_url b \<and> m_sha a = m_sha b \<and> m_size a = m_size b"

record update_plan =
  up_manifest :: "manifest option"
  up_conflict :: bool
  up_skipped :: bool

definition empty_plan :: update_plan where
  "empty_plan = \<lparr>up_manifest = None, up_conflict = False, up_skipped = False\<rparr>"

definition plan_add :: "string \<Rightarrow> manifest option \<Rightarrow> string \<Rightarrow> update_plan \<Rightarrow> update_plan" where
  "plan_add current manifest secret p =
     (case manifest of
        None \<Rightarrow> p
      | Some m \<Rightarrow>
          if same_node_version (m_version m) current then p\<lparr>up_skipped := True\<rparr>
          else case up_manifest p of
            None \<Rightarrow> p\<lparr>up_manifest := Some (m\<lparr>m_secret := trim_space secret\<rparr>)\<rparr>
          | Some selected \<Rightarrow>
              if \<not> same_update_manifest selected m then p\<lparr>up_conflict := True\<rparr> else p)"

section \<open>No silent downgrade\<close>

lemma fallback_http_cases:
  "case fallback_http probe e t of (t', fell_back) \<Rightarrow>
     (if fell_back
      then rpc_mode (tg_rpc t) = ''http'' \<and> \<not> tg_require_https t \<and> u_scheme (tg_endpoint t) = ''https'' \<and>
           t' = t\<lparr>tg_endpoint := (tg_endpoint t)\<lparr>u_scheme := ''http''\<rparr>\<rparr> \<and>
           (is_plain_http e \<or> tg_host_is_ip t \<and> is_cert_error e \<or>
            \<not> tg_host_is_ip t \<and> is_expired_cert e \<and> allow_expired_cert_fallback probe)
      else t' = t)"
  by (auto simp: fallback_http_def endpoint_parts_def Let_def)

text \<open>C14. Plain HTTP is never substituted for HTTPS when the operator requires HTTPS or lets the
  transport be negotiated; otherwise only the scheme may change, from https to http, and never for a
  domain name unless the server spoke plain HTTP or an expired certificate verified in the past.\<close>

theorem fallback_http_policy:
  "case fallback_http probe e t of (t', fell_back) \<Rightarrow>
     (if fell_back
      then rpc_mode (tg_rpc t) = ''http'' \<and> \<not> tg_require_https t \<and> u_scheme (tg_endpoint t) = ''https'' \<and>
           t' = t\<lparr>tg_endpoint := (tg_endpoint t)\<lparr>u_scheme := ''http''\<rparr>\<rparr> \<and>
           (is_plain_http e \<or> tg_host_is_ip t \<and> is_cert_error e \<or>
            \<not> tg_host_is_ip t \<and> is_expired_cert e \<and> allow_expired_cert_fallback probe)
      else t' = t)"
  by (rule fallback_http_cases)

lemma fallback_http_frame:
  "fallback_http probe e t = (t', b) \<Longrightarrow>
     tg_id t' = tg_id t \<and> tg_secret t' = tg_secret t \<and> tg_require_https t' = tg_require_https t \<and>
     tg_rpc t' = tg_rpc t \<and> tg_refused_count t' = tg_refused_count t \<and>
     tg_refused_suppressed t' = tg_refused_suppressed t \<and> tg_static_wake t' = tg_static_wake t"
  using fallback_http_cases [where probe = probe and e = e and t = t] by (auto split: if_splits)

lemma fallback_keeps_scheme:
  "rpc_mode (tg_rpc t) \<noteq> ''http'' \<or> tg_require_https t \<Longrightarrow> fst (fallback_http probe e t) = t"
  using fallback_http_cases [where probe = probe and e = e and t = t] by (cases "fallback_http probe e t") (auto split: if_splits)

section \<open>Update plans do not depend on the order of arrival\<close>

lemma same_update_manifest_equivp:
  "same_update_manifest a a"
  "same_update_manifest a b \<Longrightarrow> same_update_manifest b a"
  "same_update_manifest a b \<Longrightarrow> same_update_manifest b c \<Longrightarrow> same_update_manifest a c"
  by (simp_all add: same_update_manifest_def)

definition update_key_of :: "manifest \<Rightarrow> string \<times> string \<times> string \<times> string \<times> int" where
  "update_key_of m = (m_id m, m_version m, m_url m, m_sha m, m_size m)"

lemma not_const_insert:
  assumes h: "h \<in> S"
  shows "(\<exists>a \<in> insert x S. \<exists>b \<in> insert x S. f a \<noteq> f b) \<longleftrightarrow> (\<exists>a \<in> S. \<exists>b \<in> S. f a \<noteq> f b) \<or> f h \<noteq> f x"
proof (cases "f h = f x \<and> (\<forall>a \<in> S. f a = f h)")
  case True
  then have "\<And>a. a \<in> insert x S \<Longrightarrow> f a = f h" "\<And>a. a \<in> S \<Longrightarrow> f a = f h" by auto
  then show ?thesis using True by (metis (no_types))
next
  case False
  then consider "f h \<noteq> f x" | a where "a \<in> S" "f a \<noteq> f h" by blast
  then show ?thesis
  proof cases
    case 1
    then have "\<exists>a \<in> insert x S. \<exists>b \<in> insert x S. f a \<noteq> f b"
      by (intro bexI [of _ h] bexI [of _ x]) (simp_all add: h)
    then show ?thesis using 1 by simp
  next
    case 2
    then have "\<exists>a \<in> insert x S. \<exists>b \<in> insert x S. f a \<noteq> f b" "\<exists>a \<in> S. \<exists>b \<in> S. f a \<noteq> f b"
      by (intro bexI [of _ a] bexI [of _ h]; simp add: h)+
    then show ?thesis by (simp only: simp_thms)
  qed
qed

lemma same_update_key: "same_update_manifest a b \<longleftrightarrow> update_key_of a = update_key_of b"
  by (simp add: same_update_manifest_def update_key_of_def)

lemma same_update_secret [simp]: "same_update_manifest (m\<lparr>m_secret := s\<rparr>) m' = same_update_manifest m m'"
  by (simp add: same_update_manifest_def)

text \<open>The manifests of a round that ask for another version than the running one.\<close>

definition offered :: "string \<Rightarrow> (manifest option \<times> string) list \<Rightarrow> manifest list" where
  "offered current rs =
     filter (\<lambda>m. \<not> same_node_version (m_version m) current) (concat (map (\<lambda>(m, s). case m of None \<Rightarrow> [] | Some x \<Rightarrow> [x]) rs))"

definition plan_of :: "string \<Rightarrow> (manifest option \<times> string) list \<Rightarrow> update_plan" where
  "plan_of current rs = fold (\<lambda>(m, s) p. plan_add current m s p) rs empty_plan"

lemma plan_of_snoc: "plan_of current (rs @ [(m, s)]) = plan_add current m s (plan_of current rs)"
  by (simp add: plan_of_def)

lemma offered_snoc:
  "offered current (rs @ [(m, s)]) =
     offered current rs @ (case m of None \<Rightarrow> [] | Some x \<Rightarrow> if same_node_version (m_version x) current then [] else [x])"
  by (auto simp: offered_def split: option.splits)

text \<open>The plan in terms of the offered manifests: the first one is selected, and there is a conflict
  exactly when two offered manifests differ.\<close>

lemma plan_of_spec:
  "(case up_manifest (plan_of current rs) of
      None \<Rightarrow> offered current rs = []
    | Some m \<Rightarrow> offered current rs \<noteq> [] \<and> same_update_manifest m (hd (offered current rs))) \<and>
   (up_conflict (plan_of current rs) \<longleftrightarrow>
      (\<exists>a \<in> set (offered current rs). \<exists>b \<in> set (offered current rs). \<not> same_update_manifest a b)) \<and>
   (up_skipped (plan_of current rs) \<longleftrightarrow>
      (\<exists>m s. (Some m, s) \<in> set rs \<and> same_node_version (m_version m) current))"
proof (induction rs rule: rev_induct)
  case Nil
  show ?case by (simp add: plan_of_def offered_def empty_plan_def)
next
  case (snoc r rs)
  obtain m s where r: "r = (m, s)" by fastforce
  let ?p = "plan_of current rs" and ?o = "offered current rs"
  let ?p' = "plan_of current (rs @ [r])" and ?o' = "offered current (rs @ [r])"
  consider (same) "m = None" | (skip) x where "m = Some x" "same_node_version (m_version x) current"
    | (first) x where "m = Some x" "\<not> same_node_version (m_version x) current" "up_manifest ?p = None"
    | (later) x sel where "m = Some x" "\<not> same_node_version (m_version x) current" "up_manifest ?p = Some sel"
    by (cases m; cases "up_manifest ?p") auto
  then show ?case
  proof cases
    case same
    have eqs: "?p' = ?p" "?o' = ?o" unfolding r same by (simp_all add: plan_of_snoc offered_snoc plan_add_def)
    show ?thesis using snoc unfolding eqs by (simp add: r same)
  next
    case skip
    have eqs: "up_manifest ?p' = up_manifest ?p" "up_conflict ?p' = up_conflict ?p" "up_skipped ?p'" "?o' = ?o"
      unfolding r skip(1) using skip(2) by (simp_all add: plan_of_snoc offered_snoc plan_add_def)
    show ?thesis using snoc eqs(3) skip(2) unfolding eqs(1,2,4) by (auto simp: r skip(1))
  next
    case first
    have o: "?o = []" using snoc first(3) by simp
    have eqs: "up_manifest ?p' = Some (x\<lparr>m_secret := trim_space s\<rparr>)" "up_conflict ?p' = up_conflict ?p"
        "up_skipped ?p' = up_skipped ?p" "?o' = [x]"
      unfolding r first(1) using first(2,3) o by (simp_all add: plan_of_snoc offered_snoc plan_add_def)
    show ?thesis using snoc first(2) o unfolding eqs by (auto simp: r first(1) same_update_manifest_def)
  next
    case later
    have o: "?o \<noteq> []" and sel: "same_update_manifest sel (hd ?o)" using snoc later(3) by simp_all
    have conf: "up_conflict ?p \<longleftrightarrow> (\<exists>a \<in> set ?o. \<exists>b \<in> set ?o. \<not> same_update_manifest a b)" using snoc by blast
    have eqs: "up_manifest ?p' = Some sel" "up_skipped ?p' = up_skipped ?p" "?o' = ?o @ [x]"
        "up_conflict ?p' \<longleftrightarrow> up_conflict ?p \<or> \<not> same_update_manifest sel x"
      unfolding r later(1) using later(2,3) by (simp_all add: plan_of_snoc offered_snoc plan_add_def)
    have "(\<exists>a \<in> set (?o @ [x]). \<exists>b \<in> set (?o @ [x]). \<not> same_update_manifest a b) \<longleftrightarrow>
          up_conflict ?p \<or> \<not> same_update_manifest sel x"
    proof -
      have h: "update_key_of (hd ?o) = update_key_of sel" "hd ?o \<in> set ?o" using sel o by (simp_all add: same_update_key)
      have s: "set (?o @ [x]) = insert x (set ?o)" by simp
      show ?thesis unfolding conf same_update_key s by (simp only: not_const_insert [OF h(2)] h(1))
    qed
    then show ?thesis using snoc o sel later(2) unfolding eqs by (auto simp: r later(1))
  qed
qed

lemma offered_mset: "mset rs = mset rs' \<Longrightarrow> set (offered current rs) = set (offered current rs')"
  using mset_eq_setD [of rs rs'] by (auto simp: offered_def)

end
