(* ===== verification/PushRound.thy ===== *)
theory PushRound
  imports PushTarget
begin

text \<open>
  The push loop of \<open>internal/push/push.go\<close> (and the report cache of \<open>last.go\<close>): one round sends the
  same report to every target concurrently, gathers the results in the order in which they
  arrive, decides about an update and stores the report.  What the network and the contexts do is
  an input per target; the order of arrival is a list.  The metrics snapshot is a type parameter.
\<close>

section \<open>Reports and the agent\<close>

record 'm node_report =
  nr_version :: string
  nr_hostname :: string
  nr_timestamp :: time
  nr_metrics :: 'm

text \<open>\<open>Cache\<close> keeps a clone of the last report (\<open>None\<close> before the first).\<close>

type_synonym 'm report_cache = "'m node_report option"

definition cache_set :: "'m node_report \<Rightarrow> 'm report_cache \<Rightarrow> 'm report_cache" where
  "cache_set report c = Some report"

definition cache_get :: "'m report_cache \<Rightarrow> 'm node_report option" where
  "cache_get c = c"

text \<open>\<open>ag_cache\<close> is \<open>None\<close> when the agent runs without a cache.\<close>

record 'm push_agent =
  ag_host :: string
  ag_targets :: "target list"
  ag_cache :: "'m report_cache option"
  ag_round_lim :: limiter
  ag_noop_logged :: bool

fun new_targets ::
  "url_parser \<Rightarrow> (string \<Rightarrow> bool) \<Rightarrow> string \<Rightarrow> bool \<Rightarrow> rtarget list \<Rightarrow> target_error + target list" where
  "new_targets url_parse parse_ip transport https [] = Inr []"
| "new_targets url_parse parse_ip transport https (spec # specs) =
     (case new_target url_parse parse_ip transport spec https of
        Inl e \<Rightarrow> Inl e
      | Inr t \<Rightarrow> (case new_targets url_parse parse_ip transport https specs of
                   Inl e \<Rightarrow> Inl e
                 | Inr ts \<Rightarrow> Inr (t # ts)))"

definition new_agent ::
  "url_parser \<Rightarrow> (string \<Rightarrow> bool) \<Rightarrow> string \<Rightarrow> string \<Rightarrow> bool \<Rightarrow> rtarget list \<Rightarrow> 'm report_cache option \<Rightarrow>
   target_error + 'm push_agent" where
  "new_agent url_parse parse_ip transport host https specs cache =
     (case new_targets url_parse parse_ip transport https specs of
        Inl e \<Rightarrow> Inl e
      | Inr ts \<Rightarrow> Inr \<lparr>ag_host = (if host = '''' then ''unknown'' else host), ag_targets = ts, ag_cache = cache,
                       ag_round_lim = new_limiter minute, ag_noop_logged = False\<rparr>)"

definition build_report :: "string \<Rightarrow> time \<Rightarrow> 'm push_agent \<Rightarrow> 'm option \<Rightarrow> 'm node_report option" where
  "build_report version now a snap =
     (case snap of
        None \<Rightarrow> None
      | Some m \<Rightarrow> Some \<lparr>nr_version = version, nr_hostname = ag_host a, nr_timestamp = now, nr_metrics = m\<rparr>)"

section \<open>One target\<close>

text \<open>What one send meets: the call of \<open>rpcClient\<close>, the reply of \<open>Metrics\<close> or the result of the HTTP
  request, the probe of an expired certificate, and \<open>ctx.Err()\<close> when the call is over.\<close>

record send_env =
  se_now :: time
  se_call :: rpc_call
  se_reply :: "rpc_error + string"
  se_http :: "go_error + http_resp"
  se_probe :: tls_probe
  se_ctx :: "ctx_error option"
  se_outer :: "ctx_error option"

definition rpc_metrics :: "update_decoder \<Rightarrow> send_env \<Rightarrow> rpc_error + manifest option" where
  "rpc_metrics decode env =
     (case se_reply env of
        Inl e \<Rightarrow> Inl e
      | Inr json \<Rightarrow> (case decode json of None \<Rightarrow> Inl RpcDecode | Some m \<Rightarrow> Inr m))"

definition send_target ::
  "update_decoder \<Rightarrow> send_env \<Rightarrow> target \<Rightarrow> target \<times> bool \<times> manifest option \<times> ctx_error option" where
  "send_target decode env t =
     (case rpc_client (se_call env) (tg_rpc t) of
        (rpc, res) \<Rightarrow>
          (let t0 = t\<lparr>tg_rpc := rpc\<rparr> in
           case res of
             NoClient e \<Rightarrow>
               (case se_ctx env of
                  Some ce \<Rightarrow> (t0, False, None, Some ce)
                | None \<Rightarrow> (log_err (se_now env) t0, False, None, None))
           | ViaRPC \<Rightarrow>
               (case rpc_metrics decode env of
                  Inl e \<Rightarrow>
                    (let t1 = t0\<lparr>tg_rpc_failed := True\<rparr> in
                     case se_ctx env of
                       Some ce \<Rightarrow> (t1, False, None, Some ce)
                     | None \<Rightarrow> (log_err (se_now env) t1, False, None, None))
                | Inr m \<Rightarrow>
                    ((if tg_rpc_failed t0 then wake_static ''recovery'' (t0\<lparr>tg_rpc_failed := False\<rparr>) else t0),
                     True, m, None))
           | ViaHTTP \<Rightarrow>
               (case se_http env of
                  Inl e \<Rightarrow>
                    (case handle_error (se_now env) (se_ctx env) (se_probe env) e t0 of
                       (t1, err) \<Rightarrow> (t1, False, None, err))
                | Inr resp \<Rightarrow>
                    (case handle_response (se_now env) decode resp t0 of
                       (t1, ok, recover_static, m) \<Rightarrow>
                         ((if recover_static then wake_static ''recovery'' t1 else t1), ok, m, None)))))"

record target_result =
  tr_ok :: bool
  tr_retry :: bool
  tr_manifest :: "manifest option"
  tr_err :: "ctx_error option"
  tr_secret :: string

text \<open>The body of the goroutine: a call that hit \<open>metricsTimeout\<close> while the round goes on counts as a
  failure to be retried, not as an error.\<close>

definition send_one :: "update_decoder \<Rightarrow> send_env \<Rightarrow> target \<Rightarrow> target \<times> target_result" where
  "send_one decode env t =
     (case send_target decode env t of
        (t1, ok, m, err) \<Rightarrow>
          (let timed_out = (se_outer env = None \<and> se_ctx env = Some CtxDeadline) in
           if timed_out
           then (log_err (se_now env) t1,
                 \<lparr>tr_ok = False, tr_retry = True, tr_manifest = m, tr_err = None, tr_secret = tg_secret t1\<rparr>)
           else (t1,
                 \<lparr>tr_ok = ok, tr_retry = False, tr_manifest = m, tr_err = err, tr_secret = tg_secret t1\<rparr>)))"

section \<open>One round\<close>

datatype round_out = RoundOk bool | RoundCtx ctx_error | RoundEncode | RoundRestart

fun gather ::
  "string \<Rightarrow> target_result list \<Rightarrow> bool \<times> bool \<times> update_plan \<Rightarrow> ctx_error + bool \<times> bool \<times> update_plan" where
  "gather current [] acc = Inr acc"
| "gather current (r # rs) (success, retry, p) =
     (case tr_err r of
        Some e \<Rightarrow> Inl e
      | None \<Rightarrow> gather current rs (success \<or> tr_ok r, retry \<or> tr_retry r,
                                 plan_add current (tr_manifest r) (tr_secret r) p))"

definition log_round :: "time \<Rightarrow> 'm push_agent \<Rightarrow> 'm push_agent" where
  "log_round now a = a\<lparr>ag_round_lim := fst (limiter_logf now (ag_round_lim a))\<rparr>"

text \<open>The end of \<open>sendRound\<close>, from the results in arrival order: the agent, the manifest handed to
  \<open>selfupdate.Apply\<close> if any, and what the call returns.\<close>

definition finish_round ::
  "(manifest \<Rightarrow> upd_outcome) \<Rightarrow> time \<Rightarrow> ctx_error option \<Rightarrow> 'm node_report \<Rightarrow> target_result list \<Rightarrow>
   'm push_agent \<Rightarrow> 'm push_agent \<times> manifest option \<times> round_out" where
  "finish_round apply_update now ctx report results a =
     (case gather (nr_version report) results (False, False, empty_plan) of
        Inl e \<Rightarrow> (a, None, RoundCtx (case ctx of Some ce \<Rightarrow> ce | None \<Rightarrow> e))
      | Inr (success, retry, p) \<Rightarrow>
          (let (a1, applied, restart) =
             (if up_conflict p then (log_round now a, None, False)
              else if up_skipped p \<and> up_manifest p = None then (a\<lparr>ag_noop_logged := True\<rparr>, None, False)
              else case up_manifest p of
                None \<Rightarrow> (a, None, False)
              | Some m \<Rightarrow>
                  (case apply_update m of
                     UpdNone \<Rightarrow> (a, Some m, False)
                   | UpdRestart \<Rightarrow> (a, Some m, True)
                   | UpdFailed e \<Rightarrow> (log_round now a, Some m, False)))
           in if restart then (a1, applied, RoundRestart)
              else if success
              then (case ag_cache a1 of
                      None \<Rightarrow> (a1, applied, RoundOk retry)
                    | Some c \<Rightarrow> (a1\<lparr>ag_cache := Some (cache_set report c)\<rparr>, applied, RoundOk retry))
              else (log_round now a1, applied, RoundOk retry)))"

text \<open>\<open>sendRound\<close>: \<open>envs\<close> gives the network of each target, \<open>arrive\<close> permutes the results.\<close>

definition send_round ::
  "update_decoder \<Rightarrow> (manifest \<Rightarrow> upd_outcome) \<Rightarrow> ('m node_report \<Rightarrow> string option) \<Rightarrow> string \<Rightarrow> time \<Rightarrow>
   'm option \<Rightarrow> send_env list \<Rightarrow> (target_result list \<Rightarrow> target_result list) \<Rightarrow> ctx_error option \<Rightarrow>
   'm push_agent \<Rightarrow> 'm push_agent \<times> manifest option \<times> round_out" where
  "send_round decode apply_update encode version now snap envs arrive ctx a =
     (if ag_targets a = [] then (a, None, RoundOk False)
      else case build_report version now a snap of
        None \<Rightarrow> (a, None, RoundOk False)
      | Some report \<Rightarrow>
          (case encode report of
             None \<Rightarrow> (a, None, RoundEncode)
           | Some body \<Rightarrow>
               (let sent = map (\<lambda>(env, t). send_one decode env t) (zip envs (ag_targets a))
                in finish_round apply_update now ctx report (arrive (map snd sent))
                     (a\<lparr>ag_targets := map fst sent\<rparr>))))"

section \<open>The loop\<close>

datatype start_error = IntervalNotPositive | StartTarget target_error

text \<open>The start of \<open>StartWithCache\<close>.\<close>

definition start_with_cache ::
  "url_parser \<Rightarrow> (string \<Rightarrow> bool) \<Rightarrow> string \<Rightarrow> string \<Rightarrow> bool \<Rightarrow> rtarget list \<Rightarrow> duration \<Rightarrow>
   'm report_cache option \<Rightarrow> start_error + 'm push_agent" where
  "start_with_cache url_parse parse_ip transport host https specs interval cache =
     (if interval \<le> 0 then Inl IntervalNotPositive
      else case new_agent url_parse parse_ip transport host https specs cache of
        Inl e \<Rightarrow> Inl (StartTarget e)
      | Inr a \<Rightarrow> Inr a)"

text \<open>The timer after a round.\<close>

definition round_delay :: "duration \<Rightarrow> bool \<Rightarrow> duration \<Rightarrow> duration" where
  "round_delay interval retry elapsed = max 0 ((if retry then 0 else interval) - elapsed)"

text \<open>When the rounds start, given what each returned and how long it took; a round that returns
  an error ends the loop.\<close>

fun round_starts :: "duration \<Rightarrow> time \<Rightarrow> (round_out \<times> duration) list \<Rightarrow> time list" where
  "round_starts interval start [] = [start]"
| "round_starts interval start ((out, elapsed) # rs) =
     start # (case out of
                RoundOk retry \<Rightarrow> round_starts interval (start + elapsed + round_delay interval retry elapsed) rs
              | _ \<Rightarrow> [])"

section \<open>Gathering the results\<close>

definition arrived :: "target_result list \<Rightarrow> (manifest option \<times> string) list" where
  "arrived rs = map (\<lambda>r. (tr_manifest r, tr_secret r)) rs"

lemma gather_ok:
  assumes "\<forall>r \<in> set rs. tr_err r = None"
  shows "gather current rs (s, t, p) =
     Inr (s \<or> (\<exists>r \<in> set rs. tr_ok r), t \<or> (\<exists>r \<in> set rs. tr_retry r),
          fold (\<lambda>(m, k) p. plan_add current m k p) (arrived rs) p)"
  using assms by (induction rs arbitrary: s t p) (auto simp: arrived_def)

lemma gather_plan:
  assumes "\<forall>r \<in> set rs. tr_err r = None"
  shows "gather current rs (False, False, empty_plan) =
     Inr (\<exists>r \<in> set rs. tr_ok r, \<exists>r \<in> set rs. tr_retry r, plan_of current (arrived rs))"
  using gather_ok [OF assms] by (simp add: plan_of_def)

lemma gather_Inr: "gather current rs acc = Inr x \<Longrightarrow> \<forall>r \<in> set rs. tr_err r = None"
proof (induction rs arbitrary: acc)
  case (Cons r rs)
  then show ?case by (cases acc) (auto split: option.splits)
qed simp

lemma gather_Inl: "gather current rs acc = Inl e \<Longrightarrow> \<exists>r \<in> set rs. tr_err r = Some e"
proof (induction rs arbitrary: acc)
  case (Cons r rs)
  then show ?case by (cases acc) (auto split: option.splits)
qed simp

lemma plan_of_perm:
  assumes "mset rs = mset rs'"
  shows "up_conflict (plan_of current rs) = up_conflict (plan_of current rs')"
    and "up_skipped (plan_of current rs) = up_skipped (plan_of current rs')"
    and "up_manifest (plan_of current rs) = None \<longleftrightarrow> up_manifest (plan_of current rs') = None"
    and "\<lbrakk>up_manifest (plan_of current rs) = Some m; up_manifest (plan_of current rs') = Some m';
      \<not> up_conflict (plan_of current rs)\<rbrakk> \<Longrightarrow> same_update_manifest m m'"
proof -
  note sp = plan_of_spec [of current rs] plan_of_spec [of current rs']
  note o = offered_mset [OF assms, of current] and s = mset_eq_setD [OF assms]
  show "up_conflict (plan_of current rs) = up_conflict (plan_of current rs')" using sp o by simp
  show "up_skipped (plan_of current rs) = up_skipped (plan_of current rs')" using sp s by simp
  have none: "up_manifest (plan_of current rs) = None \<longleftrightarrow> set (offered current rs) = {}" for rs
    using plan_of_spec [of current rs] by (simp split: option.splits)
  show "up_manifest (plan_of current rs) = None \<longleftrightarrow> up_manifest (plan_of current rs') = None"
    unfolding none o ..
  show "same_update_manifest m m'" if m: "up_manifest (plan_of current rs) = Some m"
    "up_manifest (plan_of current rs') = Some m'" "\<not> up_conflict (plan_of current rs)"
  proof -
    have a: "hd (offered current rs) \<in> set (offered current rs)" "same_update_manifest m (hd (offered current rs))"
      using sp(1) m(1) by simp_all
    have b: "hd (offered current rs') \<in> set (offered current rs)" "same_update_manifest m' (hd (offered current rs'))"
      using sp(2) m(2) by (simp_all add: o)
    have "same_update_manifest (hd (offered current rs)) (hd (offered current rs'))"
      using sp(1) m(3) a(1) b(1) by blast
    then show ?thesis using a b by (simp add: same_update_key)
  qed
qed

text \<open>The manifests the results offer: those for another version than the running one.  A target that could not
  be reached or that timed out has no manifest and offers nothing.\<close>

definition round_offers :: "string \<Rightarrow> target_result list \<Rightarrow> (manifest \<times> string) list" where
  "round_offers current rs =
     concat (map (\<lambda>r. case tr_manifest r of
                        None \<Rightarrow> []
                      | Some x \<Rightarrow> if same_node_version (m_version x) current then [] else [(x, tr_secret r)]) rs)"

lemma offers_offered: "map fst (round_offers current rs) = offered current (arrived rs)"
  by (induction rs) (simp_all add: round_offers_def offered_def arrived_def split: option.split)

lemma round_offers_mset: "mset rs = mset rs' \<Longrightarrow> set (round_offers current rs) = set (round_offers current rs')"
  using mset_eq_setD [of rs rs'] by (auto simp: round_offers_def)

text \<open>What is selected is the first offer, with the secret of the target that made it.\<close>

definition with_secret :: "manifest \<times> string \<Rightarrow> manifest" where
  "with_secret o1 = (fst o1)\<lparr>m_secret := trim_space (snd o1)\<rparr>"

lemma plan_first:
  "up_manifest (plan_of current (arrived rs)) =
     (case round_offers current rs of [] \<Rightarrow> None | o1 # _ \<Rightarrow> Some (with_secret o1))"
proof (induction rs rule: rev_induct)
  case Nil
  show ?case by (simp add: plan_of_def arrived_def round_offers_def empty_plan_def)
next
  case (snoc r rs)
  have arr: "arrived (rs @ [r]) = arrived rs @ [(tr_manifest r, tr_secret r)]" by (simp add: arrived_def)
  have off: "round_offers current (rs @ [r]) = round_offers current rs @ round_offers current [r]"
    by (simp add: round_offers_def)
  have one: "round_offers current [r] = (case tr_manifest r of None \<Rightarrow> []
      | Some x \<Rightarrow> if same_node_version (m_version x) current then [] else [(x, tr_secret r)])"
    by (simp add: round_offers_def)
  show ?case
    using snoc unfolding arr plan_of_snoc off one
    by (cases "round_offers current rs") (auto simp: plan_add_def with_secret_def split: option.splits)
qed

lemma plan_conflict:
  "up_conflict (plan_of current (arrived rs)) \<longleftrightarrow>
     (\<exists>a \<in> set (round_offers current rs). \<exists>b \<in> set (round_offers current rs). \<not> same_update_manifest (fst a) (fst b))"
  using plan_of_spec [of current "arrived rs"] unfolding offers_offered [symmetric] by simp

text \<open>C28. The decision of a round does not depend on the order in which the answers of the targets arrive.  In
  every order the round fails, with the error of one of the results, or in every order it has the same
  success, the same repetition, the same conflict, and either no update or the same one.  Only the
  secret for its download may differ: it is that of the target whose offer came first.\<close>

theorem round_order_independent:
  assumes "mset rs = mset rs'"
  shows "case (gather current rs (False, False, empty_plan), gather current rs' (False, False, empty_plan)) of
      (Inl e, Inl e') \<Rightarrow> {Some e, Some e'} \<subseteq> tr_err ` set rs
    | (Inr (s, t, p), Inr (s', t', p')) \<Rightarrow>
       s = s' \<and> t = t' \<and> up_conflict p = up_conflict p' \<and> up_skipped p = up_skipped p' \<and>
       (case (up_manifest p, up_manifest p') of
          (None, None) \<Rightarrow> True
        | (Some m, Some m') \<Rightarrow>
            {m, m'} \<subseteq> with_secret ` set (round_offers current rs) \<and> (up_conflict p \<or> same_update_manifest m m')
        | _ \<Rightarrow> False)
    | _ \<Rightarrow> False"
proof (cases "\<forall>r \<in> set rs. tr_err r = None")
  case True
  have s: "set rs = set rs'" by (rule mset_eq_setD [OF assms])
  have m: "mset (arrived rs) = mset (arrived rs')" using assms by (simp add: arrived_def)
  have first: "m \<in> with_secret ` set (round_offers current xs)" if "up_manifest (plan_of current (arrived xs)) = Some m" for m xs
    using that by (simp add: plan_first split: list.splits)
  show ?thesis
    unfolding gather_plan [OF True] gather_plan [OF True [unfolded s]] s
    using plan_of_perm [OF m, of current] first [of rs] first [of rs'] round_offers_mset [OF assms, of current]
    by (auto split: option.splits)
next
  case False
  have s: "set rs = set rs'" by (rule mset_eq_setD [OF assms])
  obtain e where e: "gather current rs (False, False, empty_plan) = Inl e"
    using False gather_Inr by (cases "gather current rs (False, False, empty_plan)") blast+
  obtain e' where e': "gather current rs' (False, False, empty_plan) = Inl e'"
    using False gather_Inr unfolding s by (cases "gather current rs' (False, False, empty_plan)") blast+
  show ?thesis using gather_Inl [OF e] gather_Inl [OF e'] unfolding e e' s by (force simp: image_iff)
qed


text \<open>The report cache gets the round's report exactly when some target accepted it and the round
  ended without an error or a restart; otherwise it keeps the report of an earlier round.\<close>

theorem cache_holds_accepted_report:
  assumes "finish_round apply_update now ctx report rs a = (a', applied, out)"
  shows "ag_cache a' =
    (if (\<exists>retry. out = RoundOk retry) \<and> (\<exists>r \<in> set rs. tr_ok r)
     then map_option (\<lambda>_. Some report) (ag_cache a) else ag_cache a)"
proof (cases "gather (nr_version report) rs (False, False, empty_plan)")
  case (Inl e)
  then show ?thesis using assms by (auto simp: finish_round_def)
next
  case (Inr x)
  note ok = gather_plan [OF gather_Inr [OF Inr], of "nr_version report"]
  show ?thesis
    using assms unfolding finish_round_def ok
    by (auto simp: Let_def log_round_def cache_set_def split: if_splits option.splits upd_outcome.splits)
qed

section \<open>A failing target never ends the loop\<close>

lemma handle_error_ctx: "handle_error now ctx probe e t = (t', err) \<Longrightarrow> err = ctx"
  by (auto simp: handle_error_def Let_def split: option.splits prod.splits bool.splits if_splits)

lemma send_target_err:
  "send_target decode env t = (t', ok, m, err) \<Longrightarrow> err = None \<or> err = se_ctx env"
  by (auto simp: send_target_def Let_def dest: handle_error_ctx
      split: prod.splits client_result.splits option.splits sum.splits if_splits)

lemma send_one_err:
  assumes "send_one decode env t = (t', r)" and "se_outer env = None" and "se_ctx env \<noteq> Some CtxCanceled"
  shows "tr_err r = None"
proof -
  obtain t1 ok m err where st: "send_target decode env t = (t1, ok, m, err)" by (metis prod_cases4)
  have "se_ctx env = None \<or> se_ctx env = Some CtxDeadline"
    using assms(3) by (cases "se_ctx env") (auto intro: ctx_error.exhaust)
  then show ?thesis
    using assms(1,2) send_target_err [OF st] by (auto simp: send_one_def st Let_def split: if_splits)
qed

lemma finish_round_no_ctx:
  assumes "\<forall>r \<in> set rs. tr_err r = None"
  shows "snd (snd (finish_round apply_update now ctx report rs a)) \<in> {RoundOk True, RoundOk False, RoundRestart}"
  unfolding finish_round_def gather_plan [OF assms]
  by (auto simp: Let_def split: option.splits upd_outcome.splits)

text \<open>While the agent is not being stopped, no failure of a target, of its server, of its transport
  or of its deadline makes a round return an error: the loop goes on, or the node restarts for an update.\<close>

theorem round_survives_failures:
  assumes "\<forall>env \<in> set envs. se_outer env = None \<and> se_ctx env \<noteq> Some CtxCanceled"
    and "\<And>rs. set (arrive rs) = set rs"
    and "\<And>r. encode r \<noteq> None"
  shows "snd (snd (send_round decode apply_update encode version now snap envs arrive ctx a))
    \<in> {RoundOk True, RoundOk False, RoundRestart}"
proof -
  let ?sent = "map (\<lambda>(env, t). send_one decode env t) (zip envs (ag_targets a))"
  have "\<forall>r \<in> set (arrive (map snd ?sent)). tr_err r = None"
    unfolding assms(2)
  proof
    fix r
    assume "r \<in> set (map snd ?sent)"
    then obtain env t where "(env, t) \<in> set (zip envs (ag_targets a))" "r = snd (send_one decode env t)" by auto
    then show "tr_err r = None"
      using send_one_err [of decode env t "fst (send_one decode env t)" r] assms(1) set_zip_leftD by fastforce
  qed
  note ends = finish_round_no_ctx [OF this]
  show ?thesis
  proof (cases "ag_targets a = [] \<or> build_report version now a snap = None")
    case True
    then show ?thesis by (auto simp: send_round_def)
  next
    case False
    then obtain report body where "build_report version now a snap = Some report" "encode report = Some body"
      using assms(3) by blast
    then show ?thesis using False ends unfolding send_round_def Let_def by simp
  qed
qed

section \<open>The cadence\<close>

lemma round_starts_hd: "round_starts interval start rs \<noteq> [] \<and> hd (round_starts interval start rs) = start"
  by (cases rs) auto

text \<open>Rounds never overlap and never queue up: after a round that took \<open>elapsed\<close> the next one
  starts \<open>max elapsed interval\<close> after its start, or at once when a target timed out.\<close>

theorem round_cadence:
  assumes "Suc i < length (round_starts interval start rs)"
  shows "\<exists>retry elapsed. rs ! i = (RoundOk retry, elapsed) \<and>
    round_starts interval start rs ! Suc i - round_starts interval start rs ! i =
      max elapsed (if retry then 0 else interval)"
  using assms
proof (induction rs arbitrary: i start)
  case (Cons r rs)
  obtain out elapsed where r: "r = (out, elapsed)" by fastforce
  with Cons.prems obtain retry where out: "out = RoundOk retry" by (cases out) auto
  let ?next = "start + elapsed + round_delay interval retry elapsed"
  have eq: "round_starts interval start (r # rs) = start # round_starts interval ?next rs" by (simp add: r out)
  show ?case
  proof (cases i)
    case 0
    have "round_starts interval ?next rs ! 0 = ?next"
      using round_starts_hd [of interval ?next rs] by (metis hd_conv_nth)
    then show ?thesis unfolding eq 0 by (auto simp: r out round_delay_def max_def)
  next
    case (Suc j)
    then show ?thesis using Cons.IH [of j ?next] Cons.prems unfolding eq by simp
  qed
qed simp

section \<open>Concrete instances\<close>

definition demo_result :: "string \<Rightarrow> string \<Rightarrow> target_result" where
  "demo_result version secret =
     \<lparr>tr_ok = True, tr_retry = False, tr_manifest = Some (demo_manifest\<lparr>m_version := version\<rparr>),
      tr_err = None, tr_secret = secret\<rparr>"

definition demo_report :: "nat node_report" where
  "demo_report = \<lparr>nr_version = ''1.0'', nr_hostname = ''n'', nr_timestamp = 5, nr_metrics = 7\<rparr>"

definition demo_agent :: "nat push_agent" where
  "demo_agent = \<lparr>ag_host = ''n'', ag_targets = [], ag_cache = Some None, ag_round_lim = new_limiter minute,
     ag_noop_logged = False\<rparr>"

definition demo_plan :: "string \<Rightarrow> update_plan" where
  "demo_plan secret = \<lparr>up_manifest = Some (demo_manifest\<lparr>m_version := ''2.0'', m_secret := secret\<rparr>), up_conflict = False,
     up_skipped = False\<rparr>"

lemma demo_gather:
  "gather ''1.0'' [demo_result ''2.0'' ''a'', demo_result ''2.0'' ''b''] (False, False, empty_plan) = Inr (True, False, demo_plan ''a'')"
  "gather ''1.0'' [demo_result ''2.0'' ''b'', demo_result ''2.0'' ''a''] (False, False, empty_plan) = Inr (True, False, demo_plan ''b'')"
  by code_simp+

theorem round_order_independent_witness:
  "up_conflict (demo_plan ''a'') = up_conflict (demo_plan ''b'') \<and>
   same_update_manifest (the (up_manifest (demo_plan ''a''))) (the (up_manifest (demo_plan ''b''))) \<and>
   the (up_manifest (demo_plan ''a'')) \<in> with_secret ` set (round_offers ''1.0'' [demo_result ''2.0'' ''a'', demo_result ''2.0'' ''b''])"
proof -
  have "mset [demo_result ''2.0'' ''a'', demo_result ''2.0'' ''b''] = mset [demo_result ''2.0'' ''b'', demo_result ''2.0'' ''a'']"
    by simp
  from round_order_independent [OF this, of "''1.0''"] show ?thesis
    unfolding demo_gather sum.case prod.case by (simp add: demo_plan_def)
qed

definition timed_out_result :: target_result where
  "timed_out_result = \<lparr>tr_ok = False, tr_retry = True, tr_manifest = None, tr_err = None, tr_secret = ''c''\<rparr>"

lemma demo_finish:
  "finish_round (\<lambda>_. UpdNone) 9 None demo_report [demo_result ''1.0'' ''a'', timed_out_result, demo_result ''2.0'' ''b''] demo_agent =
     (demo_agent\<lparr>ag_cache := Some (Some demo_report)\<rparr>, Some (demo_manifest\<lparr>m_version := ''2.0'', m_secret := ''b''\<rparr>),
      RoundOk True)"
  by code_simp


theorem cache_holds_accepted_report_witness:
  "ag_cache (demo_agent\<lparr>ag_cache := Some (Some demo_report)\<rparr>) = Some (Some demo_report)"
  using cache_holds_accepted_report [OF demo_finish] by (simp add: demo_result_def demo_agent_def)

theorem round_survives_failures_witness:
  "snd (snd (send_round (\<lambda>_. None) (\<lambda>_. UpdRestart) (\<lambda>_. Some ''{}'') ''1.0'' 5 (Some (7::nat)) [] rev None demo_agent))
    \<in> {RoundOk True, RoundOk False, RoundRestart}"
  by (rule round_survives_failures) simp_all

theorem round_cadence_witness:
  "round_starts 10 100 [(RoundOk False, 3), (RoundOk True, 7)] ! Suc 1 -
   round_starts 10 100 [(RoundOk False, 3), (RoundOk True, 7)] ! 1 = 7"
  using round_cadence [of 1 10 100 "[(RoundOk False, 3), (RoundOk True, 7)]"] by (auto simp: ex_bool_eq)

end
