(* ===== verification/GoFloat.thy ===== *)
theory GoFloat
  imports Complex_Main GoBase
begin

text \<open>
  \<open>float64\<close> values as far as the program compares them: a finite value is a rational number.  The rounding
  of operations is in \<open>GoRound\<close>; definitions whose outcome does not depend on it use this theory only.
\<close>

datatype float64 = Fin rat | PInf | NInf | NaN

definition is_nan :: "float64 \<Rightarrow> bool" where "is_nan x \<longleftrightarrow> x = NaN"
definition is_inf :: "float64 \<Rightarrow> bool" where "is_inf x \<longleftrightarrow> x = PInf \<or> x = NInf"

text \<open>The comparison \<open><\<close>: false when an operand is a NaN.\<close>

fun float_less :: "float64 \<Rightarrow> float64 \<Rightarrow> bool" where
  "float_less (Fin a) (Fin b) = (a < b)"
| "float_less (Fin a) PInf = True"
| "float_less NInf (Fin b) = True"
| "float_less NInf PInf = True"
| "float_less _ _ = False"

fun finite_nonneg :: "float64 \<Rightarrow> bool" where
  "finite_nonneg (Fin q) = (0 \<le> q)"
| "finite_nonneg _ = False"

lemma finite_nonneg_iff: "finite_nonneg x \<longleftrightarrow> \<not> is_nan x \<and> \<not> is_inf x \<and> \<not> float_less x (Fin 0)"
  by (cases x) (auto simp: is_nan_def is_inf_def)

end
