(* ===== verification/StaticSync.thy ===== *)
theory StaticSync
  imports PushRound GoFloat
begin

text \<open>
  Static metadata (\<open>metrics/static_types.go\<close>, \<open>push/static_validation.go\<close>,
  \<open>push/static_fingerprint.go\<close> and the static half of \<open>push/push.go\<close>): what may be sent, when it
  is sent again, and how a change of the metadata is noticed.  The SHA-256 of the JSON text is an
  argument \<open>digest\<close> (\<open>None\<close> when encoding fails).
\<close>

section \<open>The metadata\<close>

record static_cpu =
  sc_model :: string
  sc_vendor :: string
  sc_sockets :: int
  sc_physical :: int
  sc_logical :: int
  sc_mhz :: float64

record static_memory =
  sm_total :: int
  sm_swap :: int

record static_physical =
  sp_name :: string
  sp_path :: string
  sp_ref :: string

record static_logical =
  sl_kind :: string
  sl_name :: string
  sl_path :: string
  sl_ref :: string
  sl_total :: int
  sl_mount :: string
  sl_fstype :: string
  sl_devices :: "string list"

record static_filesystem =
  sf_path :: string
  sf_device :: string
  sf_mount :: string
  sf_total :: int
  sf_fstype :: string
  sf_inodes :: int

record static_baseio =
  sb_kind :: string
  sb_name :: string
  sb_path :: string
  sb_ref :: string
  sb_role :: string

record static_disk =
  sd_physical :: "static_physical list"
  sd_logical :: "static_logical list"
  sd_filesystems :: "static_filesystem list"
  sd_baseio :: "static_baseio list"

record static_system =
  sy_hostname :: string
  sy_os :: string
  sy_platform :: string
  sy_platform_version :: string
  sy_kernel :: string
  sy_arch :: string

record static_raid_array =
  sa_name :: string
  sa_level :: string
  sa_devices :: int
  sa_members :: "string list"

record static_raid =
  sr_supported :: bool
  sr_available :: bool
  sr_arrays :: "static_raid_array list"

record static =
  st_version :: string
  st_timestamp :: time
  st_interval :: int
  st_cpu :: static_cpu
  st_memory :: static_memory
  st_disk :: static_disk
  st_system :: static_system
  st_raid :: static_raid

section \<open>Validation\<close>

datatype static_error = StaticNotReady | StaticMissing "string list"

text \<open>Appends a field name to the list of missing ones.\<close>

definition missing_if :: "bool \<Rightarrow> string \<Rightarrow> string list" where
  "missing_if b name = (if b then [name] else [])"

definition validate_static :: "static option \<Rightarrow> static_error + unit" where
  "validate_static snap =
     (case snap of
        None \<Rightarrow> Inl StaticNotReady
      | Some s \<Rightarrow>
          (let missing = missing_if (trim_space (st_version s) = '''') ''version'' @
                         missing_if (is_zero_time (st_timestamp s)) ''timestamp'' @
                         missing_if (st_interval s \<le> 0) ''report_interval_seconds''
           in if missing \<noteq> [] then Inl (StaticMissing missing) else Inr ()))"

definition missing_complete_fields :: "static \<Rightarrow> string list" where
  "missing_complete_fields s =
     (let y = st_system s; c = st_cpu s in
      missing_if (trim_space (sy_hostname y) = '''') ''system.hostname'' @
      missing_if (trim_space (sy_os y) = '''') ''system.os'' @
      missing_if (trim_space (sy_platform y) = '''') ''system.platform'' @
      missing_if (trim_space (sy_platform_version y) = '''') ''system.platform_version'' @
      missing_if (trim_space (sy_kernel y) = '''') ''system.kernel_version'' @
      missing_if (trim_space (sy_arch y) = '''') ''system.arch'' @
      missing_if (sm_total (st_memory s) = 0) ''memory.total'' @
      missing_if (sc_logical c \<le> 0) ''cpu.info.cores_logical'' @
      missing_if (sc_physical c \<le> 0) ''cpu.info.cores_physical'' @
      missing_if (sc_sockets c \<le> 0) ''cpu.info.sockets'')"

section \<open>Fingerprints\<close>

text \<open>\<open>Inr None\<close> when there is no snapshot, \<open>Inl ()\<close> when it cannot be encoded.\<close>

definition static_fingerprint :: "(static \<Rightarrow> 'd option) \<Rightarrow> static option \<Rightarrow> unit + 'd option" where
  "static_fingerprint digest snap =
     (case snap of
        None \<Rightarrow> Inr None
      | Some s \<Rightarrow>
          (case digest (s\<lparr>st_timestamp := time_zero\<rparr>) of
             None \<Rightarrow> Inl ()
           | Some d \<Rightarrow> Inr (Some d)))"

text \<open>\<open>staticFP\<close> and \<open>staticFPSet\<close> of the agent as one option.\<close>

record 'd static_state =
  ss_fp :: "'d option"
  ss_lim :: limiter

definition record_static_fingerprint ::
  "(static \<Rightarrow> 'd option) \<Rightarrow> time \<Rightarrow> static \<Rightarrow> 'd static_state \<Rightarrow> 'd static_state" where
  "record_static_fingerprint digest now snap st =
     (case static_fingerprint digest (Some snap) of
        Inl _ \<Rightarrow> st\<lparr>ss_lim := fst (limiter_logf now (ss_lim st))\<rparr>
      | Inr None \<Rightarrow> st
      | Inr (Some fp) \<Rightarrow> st\<lparr>ss_fp := Some fp\<rparr>)"

definition static_changed ::
  "(static \<Rightarrow> 'd option) \<Rightarrow> static option \<Rightarrow> 'd static_state \<Rightarrow> 'd static_state \<times> (unit + bool)" where
  "static_changed digest snap st =
     (case static_fingerprint digest snap of
        Inl e \<Rightarrow> (st, Inl e)
      | Inr None \<Rightarrow> (st, Inr False)
      | Inr (Some fp) \<Rightarrow>
          (case ss_fp st of
             None \<Rightarrow> (st\<lparr>ss_fp := Some fp\<rparr>, Inr False)
           | Some old \<Rightarrow>
               if old = fp then (st, Inr False) else (st\<lparr>ss_fp := Some fp\<rparr>, Inr True)))"

text \<open>One tick of \<open>watchStaticChanges\<close>: a change wakes the static loop of every target.\<close>

definition watch_tick ::
  "(static \<Rightarrow> 'd option) \<Rightarrow> time \<Rightarrow> static option \<Rightarrow> 'd static_state \<times> target list \<Rightarrow> 'd static_state \<times> target list" where
  "watch_tick digest now snap = (\<lambda>(st, ts).
     case static_changed digest snap st of
       (st1, Inl _) \<Rightarrow> (st1\<lparr>ss_lim := fst (limiter_logf now (ss_lim st1))\<rparr>, ts)
     | (st1, Inr changed) \<Rightarrow> (st1, if changed then map (wake_static ''static_changed'') ts else ts))"

definition static_retry_delay :: duration where "static_retry_delay = 10 * second"

definition static_change_check_interval :: "duration \<Rightarrow> duration" where
  "static_change_check_interval report =
     (if report \<ge> minute then minute else min minute (max (10 * second) (wrap64 (report * 20))))"

section \<open>Sending\<close>

text \<open>One attempt: the call of \<open>rpcClient\<close> and, for each way to send, its result; an RPC or context
  error enters \<open>fallbackHTTP\<close> through the facts the code asks of it.\<close>

record static_send =
  sn_now :: time
  sn_call :: rpc_call
  sn_client_err :: go_error
  sn_rpc :: "go_error option"
  sn_http :: "go_error + int"

definition plain_error :: "string \<Rightarrow> go_error" where
  "plain_error msg = \<lparr>ge_record_header = False, ge_msg = msg, ge_url_inner = None, ge_unknown_authority = False,
     ge_hostname = False, ge_invalid_cert = None, ge_refused = False\<rparr>"

definition send_static :: "static_send \<Rightarrow> target \<Rightarrow> target \<times> go_error option" where
  "send_static env t =
     (case rpc_client (sn_call env) (tg_rpc t) of
        (rpc, res) \<Rightarrow>
          (t\<lparr>tg_rpc := rpc\<rparr>,
           case res of
             NoClient e \<Rightarrow> Some (sn_client_err env)
           | ViaRPC \<Rightarrow> sn_rpc env
           | ViaHTTP \<Rightarrow>
               (case sn_http env of
                  Inl e \<Rightarrow> Some e
                | Inr status \<Rightarrow> if status \<noteq> 200 then Some (plain_error ''static non-200 status'') else None)))"

definition log_static :: "time \<Rightarrow> target \<Rightarrow> target" where
  "log_static now t = t\<lparr>tg_static_lim := fst (limiter_logf now (tg_static_lim t))\<rparr>"

text \<open>\<open>syncStatic\<close>: the answer says whether to try again after \<open>static_retry_delay\<close>.\<close>

definition sync_static ::
  "(static \<Rightarrow> 'd option) \<Rightarrow> tls_probe \<Rightarrow> static option \<Rightarrow> static_send \<Rightarrow> static_send \<Rightarrow>
   'd static_state \<times> target \<Rightarrow> ('d static_state \<times> target) \<times> bool" where
  "sync_static digest probe snap env1 env2 = (\<lambda>(st, t).
     case (validate_static snap, snap) of
       (Inr _, Some s) \<Rightarrow>
         (if static_url t = None then ((st, t), False)
          else
            (let (t1, err1) = send_static env1 t;
                 (t2, err) =
                   (case err1 of
                      None \<Rightarrow> (t1, None)
                    | Some e \<Rightarrow>
                        (case fallback_http probe e (log_static (sn_now env1) t1) of
                           (t', False) \<Rightarrow> (t', Some e)
                         | (t', True) \<Rightarrow>
                             (case send_static env2 t' of
                                (t'', None) \<Rightarrow> (t'', None)
                              | (t'', Some e2) \<Rightarrow> (log_static (sn_now env2) t'', Some e2))));
                 st1 = (if err = None then record_static_fingerprint digest (sn_now env2) s st else st)
             in ((st1, t2), err \<noteq> None \<or> missing_complete_fields s \<noteq> [])))
     | _ \<Rightarrow> ((st, log_static (sn_now env1) t), True))"

text \<open>The loop \<open>runStatic\<close> between two synchronisations: it waits for a wake-up, or for the retry
  timer when the last synchronisation asked for it.  A wake-up is taken out of the channel.\<close>

datatype static_event = StaticWake string | StaticTimer

definition static_enabled :: "bool \<Rightarrow> target \<Rightarrow> static_event \<Rightarrow> bool" where
  "static_enabled retry t ev =
     (case ev of StaticWake reason \<Rightarrow> tg_static_wake t = Some reason | StaticTimer \<Rightarrow> retry)"

definition static_step ::
  "(static \<Rightarrow> 'd option) \<Rightarrow> tls_probe \<Rightarrow> static option \<Rightarrow> static_send \<Rightarrow> static_send \<Rightarrow> static_event \<Rightarrow>
   'd static_state \<times> target \<Rightarrow> ('d static_state \<times> target) \<times> bool" where
  "static_step digest probe snap env1 env2 ev = (\<lambda>(st, t).
     sync_static digest probe snap env1 env2
       (st, (case ev of StaticWake _ \<Rightarrow> t\<lparr>tg_static_wake := None\<rparr> | StaticTimer \<Rightarrow> t)))"

section \<open>The install identity\<close>

record identity =
  id_target :: int
  id_url :: url
  id_install :: string
  id_created :: bool

record identity_resp =
  ir_install :: string
  ir_created :: bool

datatype identity_error =
    IdTarget target_error | IdClient rpc_error | IdRpc rpc_error | IdRpcInvalid
  | IdHttp go_error | IdNoUrl int | IdStatus int | IdDecode | IdInstallEmpty

text \<open>\<open>sendIdentity\<close>; the response is its status and the decoded body, if it can be decoded.\<close>

definition send_identity ::
  "target \<Rightarrow> go_error + int \<times> identity_resp option \<Rightarrow> go_error + int \<times> identity_resp option" where
  "send_identity t answer =
     (if identity_url t = None then Inl (plain_error ''url must end with /metrics to resolve identity'') else answer)"

text \<open>The part of \<open>FetchIdentity\<close> after the target is built; \<open>answers\<close> are the results of the first
  request and of the one repeated after the fallback, \<open>identify\<close> the result of the RPC \<open>Identify\<close>.\<close>

definition identify_target ::
  "tls_probe \<Rightarrow> rpc_call \<Rightarrow> rpc_error + rpc_ident \<Rightarrow>
   (go_error + int \<times> identity_resp option) \<times> (go_error + int \<times> identity_resp option) \<Rightarrow>
   target \<Rightarrow> target \<times> (identity_error + identity)" where
  "identify_target probe call identify answers t0 =
     (case rpc_client call (tg_rpc t0) of
        (rpc, res) \<Rightarrow>
          (let t = t0\<lparr>tg_rpc := rpc\<rparr> in
           case res of
             NoClient e \<Rightarrow> (t, Inl (IdClient e))
           | ViaRPC \<Rightarrow>
               (t, case (case rpc_identity rpc of Some i \<Rightarrow> Inr i | None \<Rightarrow> identify) of
                     Inl e \<Rightarrow> Inl (IdRpc e)
                   | Inr i \<Rightarrow>
                       (case normalize_install_id (ri_install i) of
                          None \<Rightarrow> Inl IdRpcInvalid
                        | Some iid \<Rightarrow>
                            if ri_protocol i \<noteq> 1 then Inl IdRpcInvalid
                            else Inr \<lparr>id_target = tg_id t, id_url = metrics_url t, id_install = iid,
                                      id_created = ri_created i\<rparr>))
           | ViaHTTP \<Rightarrow>
               (let (t1, answer) =
                  (case send_identity t (fst answers) of
                     Inr r \<Rightarrow> (t, Inr r)
                   | Inl e \<Rightarrow>
                       (case fallback_http probe e t of
                          (t', True) \<Rightarrow> (t', send_identity t' (snd answers))
                        | (t', False) \<Rightarrow> (t', Inl e)))
                in (t1, case answer of
                      Inl e \<Rightarrow> Inl (IdHttp e)
                    | Inr (status, body) \<Rightarrow>
                        if status \<noteq> 200 then Inl (IdStatus status)
                        else case body of
                          None \<Rightarrow> Inl IdDecode
                        | Some b \<Rightarrow>
                            (case normalize_install_id (ir_install b) of
                               None \<Rightarrow> Inl IdInstallEmpty
                             | Some iid \<Rightarrow> Inr \<lparr>id_target = tg_id t1, id_url = metrics_url t1,
                                                id_install = iid, id_created = ir_created b\<rparr>)))))"

definition fetch_identity ::
  "url_parser \<Rightarrow> (string \<Rightarrow> bool) \<Rightarrow> string \<Rightarrow> tls_probe \<Rightarrow> rpc_call \<Rightarrow> rpc_error + rpc_ident \<Rightarrow>
   (go_error + int \<times> identity_resp option) \<times> (go_error + int \<times> identity_resp option) \<Rightarrow>
   rtarget \<Rightarrow> bool \<Rightarrow> identity_error + identity" where
  "fetch_identity url_parse parse_ip transport probe call identify answers spec https =
     (case new_target url_parse parse_ip transport spec https of
        Inl e \<Rightarrow> Inl (IdTarget e)
      | Inr t \<Rightarrow> snd (identify_target probe call identify answers t))"

section \<open>Changes\<close>

lemma static_fingerprint_timestamp [simp]:
  "static_fingerprint digest (Some (s\<lparr>st_timestamp := x\<rparr>)) = static_fingerprint digest (Some s)"
  by (simp add: static_fingerprint_def)

lemma static_changed_stored:
  "static_fingerprint digest (Some s) = Inr (Some fp) \<Longrightarrow> ss_fp st = Some fp \<Longrightarrow>
     static_changed digest (Some s) st = (st, Inr False)"
  by (simp add: static_changed_def)

text \<open>A change of the metadata is reported exactly when a fingerprint is known and the new one
  differs, and it is reported once: asking again about the same metadata, whatever its timestamp,
  finds no change.\<close>

theorem static_change_reported_once:
  assumes "static_changed digest (Some s) st = (st', Inr changed)"
  shows "(changed \<longleftrightarrow> (\<exists>old. ss_fp st = Some old \<and> digest (s\<lparr>st_timestamp := time_zero\<rparr>) \<noteq> Some old)) \<and>
    static_changed digest (Some (s\<lparr>st_timestamp := x\<rparr>)) st' = (st', Inr False)"
proof -
  obtain fp where fp: "static_fingerprint digest (Some s) = Inr (Some fp)" and d: "digest (s\<lparr>st_timestamp := time_zero\<rparr>) = Some fp"
    using assms by (auto simp: static_changed_def static_fingerprint_def split: option.splits)
  have "ss_fp st' = Some fp" using assms fp by (auto simp: static_changed_def split: option.splits if_splits)
  then have "static_changed digest (Some (s\<lparr>st_timestamp := x\<rparr>)) st' = (st', Inr False)"
    by (intro static_changed_stored) (simp add: fp)
  moreover have "changed \<longleftrightarrow> (\<exists>old. ss_fp st = Some old \<and> Some fp \<noteq> Some old)"
    using assms fp by (auto simp: static_changed_def split: option.splits if_splits)
  ultimately show ?thesis unfolding d by blast
qed

section \<open>Synchronisation\<close>

text \<open>Static metadata stops being retried only when the target has no static endpoint, or the
  snapshot was complete and the server accepted it; in the second case its fingerprint is recorded.
  An invalid snapshot is never sent.\<close>

theorem sync_static_settles:
  assumes "sync_static digest probe snap env1 env2 (st, t) = ((st', t'), False)"
  shows "\<exists>s. snap = Some s \<and> validate_static snap = Inr () \<and>
    (static_url t = None \<and> st' = st \<and> t' = t \<or>
     static_url t \<noteq> None \<and> missing_complete_fields s = [] \<and>
     st' = record_static_fingerprint digest (sn_now env2) s st \<and>
     (send_static env1 t = (t', None) \<or>
      (\<exists>t1 e t2. send_static env1 t = (t1, Some e) \<and>
         fallback_http probe e (log_static (sn_now env1) t1) = (t2, True) \<and> send_static env2 t2 = (t', None))))"
proof -
  obtain s where s: "snap = Some s" and v: "validate_static snap = Inr ()"
    using assms by (auto simp: sync_static_def split: sum.splits option.splits)
  show ?thesis
  proof (cases "static_url t = None")
    case True
    then show ?thesis using assms s v by (simp add: sync_static_def)
  next
    case False
    then show ?thesis
      using assms s v
      by (auto simp: sync_static_def Let_def split: prod.splits option.splits bool.splits if_splits)
  qed
qed

lemma static_interval_bounds:
  "10 * second \<le> static_change_check_interval d \<and> static_change_check_interval d \<le> minute"
  by (simp add: static_change_check_interval_def minute_def second_def)

section \<open>The identity\<close>

lemma normalize_install_id_Some:
  "normalize_install_id s = Some t \<Longrightarrow> t = trim_space s \<and> t \<noteq> ''''"
  by (auto simp: normalize_install_id_def Let_def split: if_splits)

text \<open>An identity is only reported for the asked target and with a trimmed, non-empty install id,
  so it passes the validation of the configuration it is stored in.\<close>

theorem fetched_identity_is_storable:
  assumes "fetch_identity url_parse parse_ip transport probe call identify answers spec https = Inr i"
  shows "id_target i = rt_id spec \<and> id_install i \<noteq> '''' \<and> trim_space (id_install i) = id_install i"
proof -
  obtain t where t: "new_target url_parse parse_ip transport spec https = Inr t"
    and i: "snd (identify_target probe call identify answers t) = Inr i"
    using assms by (auto simp: fetch_identity_def split: sum.splits)
  have "tg_id t = rt_id spec"
    using t by (auto simp: new_target_def split: option.splits if_splits)
  moreover have "tg_id t' = tg_id t"
    if "fallback_http probe e (t\<lparr>tg_rpc := r\<rparr>) = (t', b)" for e r t' b
    using fallback_http_frame [OF that] by simp
  ultimately show ?thesis
    using i by (auto simp: identify_target_def Let_def dest!: normalize_install_id_Some
        split: prod.splits client_result.splits sum.splits option.splits if_splits bool.splits)
qed

section \<open>Concrete instances\<close>

definition demo_static :: static where
  "demo_static = \<lparr>st_version = ''1.0'', st_timestamp = 5, st_interval = 3,
     st_cpu = \<lparr>sc_model = '''', sc_vendor = '''', sc_sockets = 1, sc_physical = 2, sc_logical = 4, sc_mhz = Fin 0\<rparr>,
     st_memory = \<lparr>sm_total = 1024, sm_swap = 0\<rparr>,
     st_disk = \<lparr>sd_physical = [], sd_logical = [], sd_filesystems = [], sd_baseio = []\<rparr>,
     st_system = \<lparr>sy_hostname = ''n'', sy_os = ''linux'', sy_platform = ''debian'', sy_platform_version = ''12'',
                   sy_kernel = ''6.1'', sy_arch = ''amd64''\<rparr>,
     st_raid = \<lparr>sr_supported = False, sr_available = False, sr_arrays = []\<rparr>\<rparr>"

definition demo_digest :: "static \<Rightarrow> int option" where
  "demo_digest s = Some (st_interval s + st_timestamp s)"

definition demo_target :: target where
  "demo_target = \<lparr>tg_id = 1, tg_endpoint = the (demo_parse ''http://a/metrics''), tg_host_is_ip = False,
     tg_secret = ''k'', tg_require_https = False, tg_static_wake = None, tg_rpc = new_rpc ''http'',
     tg_static_lim = new_limiter minute, tg_err_lim = new_limiter minute, tg_refused_count = 0,
     tg_refused_suppressed = False, tg_rpc_failed = False\<rparr>"

definition demo_call :: rpc_call where
  "demo_call = \<lparr>rq_now = 0, rq_dial_ok = True, rq_probe = Inl RpcDial, rq_ctx = None, rq_now2 = 0\<rparr>"

definition demo_send :: "int \<Rightarrow> static_send" where
  "demo_send status = \<lparr>sn_now = 9, sn_call = demo_call, sn_client_err = plain_error '''', sn_rpc = None,
     sn_http = Inr status\<rparr>"

definition demo_probe :: tls_probe where
  "demo_probe = \<lparr>tp_dial_ok = False, tp_peers = [], tp_now = 0, tp_verifies = (\<lambda>_. False)\<rparr>"

lemma demo_changed:
  "static_changed demo_digest (Some demo_static) \<lparr>ss_fp = Some 4, ss_lim = new_limiter minute\<rparr> =
     (\<lparr>ss_fp = Some 3, ss_lim = new_limiter minute\<rparr>, Inr True)"
  by code_simp

theorem static_change_reported_once_witness:
  "static_changed demo_digest (Some (demo_static\<lparr>st_timestamp := 77\<rparr>)) \<lparr>ss_fp = Some 3, ss_lim = new_limiter minute\<rparr> =
     (\<lparr>ss_fp = Some 3, ss_lim = new_limiter minute\<rparr>, Inr False)"
  using static_change_reported_once [OF demo_changed] by blast

lemma demo_sync:
  "sync_static demo_digest demo_probe (Some demo_static) (demo_send 200) (demo_send 500)
     (\<lparr>ss_fp = None, ss_lim = new_limiter minute\<rparr>, demo_target) =
   ((\<lparr>ss_fp = Some 3, ss_lim = new_limiter minute\<rparr>, demo_target), False)"
  by code_simp

theorem sync_static_settles_witness:
  "missing_complete_fields demo_static = [] \<or> static_url demo_target = None"
  using sync_static_settles [OF demo_sync] by auto

theorem fetched_identity_is_storable_witness:
  "\<exists>i. fetch_identity demo_parse (\<lambda>_. False) ''http'' demo_probe demo_call (Inl RpcDial)
     (Inr (200, Some \<lparr>ir_install = '' s1 '', ir_created = True\<rparr>), Inr (500, None))
     \<lparr>rt_id = 4, rt_url = ''http://a/metrics'', rt_key = ''k'', rt_install = ''''\<rparr> False = Inr i \<and>
     trim_space (id_install i) = id_install i \<and> id_target i = 4"
proof -
  let ?r = "fetch_identity demo_parse (\<lambda>_. False) ''http'' demo_probe demo_call (Inl RpcDial)
     (Inr (200, Some \<lparr>ir_install = '' s1 '', ir_created = True\<rparr>), Inr (500, None))
     \<lparr>rt_id = 4, rt_url = ''http://a/metrics'', rt_key = ''k'', rt_install = ''''\<rparr> False"
  have "\<not> isl ?r" by code_simp
  then obtain i where "?r = Inr i" by (cases ?r) auto
  then show ?thesis using fetched_identity_is_storable by fastforce
qed

end
