(* ===== verification/ReportInstall.thy ===== *)
theory ReportInstall
  imports StaticSync
begin

text \<open>
  The \<open>report\<close> commands of \<open>internal/app/run.go\<close>: \<open>install\<close>, \<open>remove\<close>, \<open>update\<close> and \<open>list\<close> on the
  configuration file.  A command reads the configuration, edits it with the functions of
  \<open>ReportConfig\<close> and saves it; the locale \<open>config_store\<close> is what the commands rely on, and the file
  of \<open>ReportConfig\<close> provides it.  The identity of the server and the operator's answers are inputs.
\<close>

section \<open>Looking targets up\<close>

definition first_target :: "(rtarget \<Rightarrow> bool) \<Rightarrow> rconfig \<Rightarrow> rtarget option" where
  "first_target P cfg = find P (rc_targets cfg)"

definition duplicate_target :: "rconfig \<Rightarrow> string \<Rightarrow> rtarget option" where
  "duplicate_target cfg install =
     (if trim_space install = '''' then None
      else first_target (\<lambda>t. trim_space (rt_install t) = trim_space install) cfg)"

definition same_report_target :: "rtarget \<Rightarrow> rtarget \<Rightarrow> bool" where
  "same_report_target a b \<longleftrightarrow>
     trim_space (rt_url a) = trim_space (rt_url b) \<and> trim_space (rt_key a) = trim_space (rt_key b) \<and>
     trim_space (rt_install a) = trim_space (rt_install b)"

definition target_by_url_key :: "rconfig \<Rightarrow> string \<Rightarrow> string \<Rightarrow> rtarget option" where
  "target_by_url_key cfg endpoint key =
     first_target (\<lambda>t. trim_space (rt_url t) = trim_space endpoint \<and> trim_space (rt_key t) = trim_space key) cfg"

definition zero_target :: rtarget where
  "zero_target = \<lparr>rt_id = 0, rt_url = '''', rt_key = '''', rt_install = ''''\<rparr>"

definition target_by_id :: "rconfig \<Rightarrow> int \<Rightarrow> rtarget" where
  "target_by_id cfg i = (case first_target (\<lambda>t. rt_id t = i) cfg of None \<Rightarrow> zero_target | Some t \<Rightarrow> t)"

definition masked_key :: "string \<Rightarrow> string" where
  "masked_key key =
     (let k = trim_space key in
      if k = '''' then ''(empty)'' else if length k \<le> 4 then ''****'' else ''****'' @ drop (length k - 4) k)"

section \<open>The prompt\<close>

text \<open>The operator's terminal: complete lines, the text before the end of input, and whether the input
  ends with an error instead of \<open>io.EOF\<close>.\<close>

record prompt_input =
  pi_lines :: "string list"
  pi_rest :: string
  pi_error :: bool

datatype dup_choice = DupKeep | DupReplace
datatype choice_error = NotInteractive | ReadChoice | ChoiceRequired

fun choice_of :: "string \<Rightarrow> dup_choice option" where
  "choice_of line =
     (if trim_space line = ''1'' then Some DupKeep else if trim_space line = ''2'' then Some DupReplace else None)"

fun read_choice :: "string list \<Rightarrow> string \<Rightarrow> bool \<Rightarrow> choice_error + dup_choice" where
  "read_choice [] rest err =
     (if err then Inl ReadChoice
      else case choice_of rest of Some c \<Rightarrow> Inr c | None \<Rightarrow> Inl ChoiceRequired)"
| "read_choice (line # lines) rest err =
     (case choice_of line of Some c \<Rightarrow> Inr c | None \<Rightarrow> read_choice lines rest err)"

definition choose_duplicate :: "prompt_input option \<Rightarrow> choice_error + dup_choice" where
  "choose_duplicate prompt =
     (case prompt of
        None \<Rightarrow> Inl NotInteractive
      | Some p \<Rightarrow> read_choice (pi_lines p) (pi_rest p) (pi_error p))"

section \<open>Installing\<close>

text \<open>What a command leaves: the store, the exit code and the target it prints.\<close>

type_synonym 's outcome = "'s \<times> int \<times> rtarget option"

definition commit ::
  "(rconfig \<Rightarrow> 's \<Rightarrow> 's \<times> ('e + unit)) \<Rightarrow> rconfig \<Rightarrow> rtarget \<Rightarrow> 's \<Rightarrow> 's outcome" where
  "commit save nxt t s =
     (case save nxt s of (s', Inl _) \<Rightarrow> (s', 1, None) | (s', Inr _) \<Rightarrow> (s', 0, Some t))"

definition resolve_report_identity ::
  "(rtarget \<Rightarrow> identity_error + identity) \<Rightarrow> string \<Rightarrow> string \<Rightarrow> identity_error + identity" where
  "resolve_report_identity fetch endpoint key =
     fetch \<lparr>rt_id = 0, rt_url = trim_space endpoint, rt_key = trim_space key, rt_install = ''''\<rparr>"

text \<open>\<open>saveReportInstall\<close>; \<open>fetch\<close> is \<open>FetchIdentity\<close> and \<open>save\<close> is \<open>reportcfg.Save\<close>.\<close>

definition save_report_install ::
  "url_parser \<Rightarrow> (rconfig \<Rightarrow> 's \<Rightarrow> 's \<times> ('e + unit)) \<Rightarrow> (rtarget \<Rightarrow> identity_error + identity) \<Rightarrow>
   prompt_input option \<Rightarrow> rconfig \<Rightarrow> string \<Rightarrow> string \<Rightarrow> 's \<Rightarrow> 's outcome" where
  "save_report_install url_parse save fetch prompt cfg endpoint0 key0 s =
     (let endpoint = trim_space endpoint0; key = trim_space key0;
          url_target = target_by_url_key cfg endpoint key
      in if (case url_target of None \<Rightarrow> False | Some t \<Rightarrow> trim_space (rt_install t) \<noteq> '''') then (s, 0, url_target)
         else case resolve_report_identity fetch endpoint key of
           Inl _ \<Rightarrow> (s, 1, None)
         | Inr ident \<Rightarrow>
             (let install = id_install ident;
                  incoming = \<lparr>rt_id = 0, rt_url = endpoint, rt_key = key, rt_install = install\<rparr>;
                  replace = (\<lambda>i. case replace_target url_parse cfg i endpoint key install of
                                   Inl _ \<Rightarrow> (s, 1, None)
                                 | Inr nxt \<Rightarrow> commit save nxt (target_by_id nxt i) s)
              in case duplicate_target cfg install of
                   Some existing \<Rightarrow>
                     if same_report_target existing incoming then (s, 0, Some existing)
                     else (case choose_duplicate prompt of
                             Inl _ \<Rightarrow> (s, 1, None)
                           | Inr DupKeep \<Rightarrow> (s, 0, Some existing)
                           | Inr DupReplace \<Rightarrow> replace (rt_id existing))
                 | None \<Rightarrow>
                     (case url_target of
                        Some t \<Rightarrow> replace (rt_id t)
                      | None \<Rightarrow>
                          (case add_target url_parse cfg endpoint key install of
                             Inl _ \<Rightarrow> (s, 1, None)
                           | Inr (nxt, t) \<Rightarrow> commit save nxt t s))))"

section \<open>The command line\<close>

text \<open>\<open>runReport\<close> on \<open>os.Args\<close> without the program name and the flags; \<open>load\<close> is \<open>reportcfg.Load\<close>.\<close>

definition with_config :: "('e + rconfig) \<Rightarrow> 's \<Rightarrow> (rconfig \<Rightarrow> 's outcome) \<Rightarrow> 's outcome" where
  "with_config loaded s body = (case loaded of Inl _ \<Rightarrow> (s, 1, None) | Inr cfg \<Rightarrow> body cfg)"

definition run_report ::
  "url_parser \<Rightarrow> ('s \<Rightarrow> 'e + rconfig) \<Rightarrow> (rconfig \<Rightarrow> 's \<Rightarrow> 's \<times> ('e + unit)) \<Rightarrow>
   (rtarget \<Rightarrow> identity_error + identity) \<Rightarrow> prompt_input option \<Rightarrow> string list \<Rightarrow> 's \<Rightarrow> 's outcome" where
  "run_report url_parse load save fetch prompt args s =
     (case args of
        [_, cmd, a] \<Rightarrow>
          if cmd = ''remove'' then
            (case parse_int a of
               None \<Rightarrow> (s, 1, None)
             | Some i \<Rightarrow>
                 if i \<le> 0 then (s, 1, None)
                 else with_config (load s) s (\<lambda>cfg.
                   case remove_target url_parse cfg i of
                     Inl _ \<Rightarrow> (s, 1, None)
                   | Inr nxt \<Rightarrow> (case save nxt s of (s', Inl _) \<Rightarrow> (s', 1, None) | (s', Inr _) \<Rightarrow> (s', 0, None))))
          else (s, 1, None)
      | [_, cmd, a, b] \<Rightarrow>
          if cmd = ''install'' then
            with_config (load s) s (\<lambda>cfg. save_report_install url_parse save fetch prompt cfg a b s)
          else if cmd = ''update'' then
            (case parse_int a of
               None \<Rightarrow> (s, 1, None)
             | Some i \<Rightarrow>
                 if i \<le> 0 then (s, 1, None)
                 else with_config (load s) s (\<lambda>cfg.
                   case update_key url_parse cfg i b of
                     Inl _ \<Rightarrow> (s, 1, None)
                   | Inr nxt \<Rightarrow> commit save nxt (target_by_id nxt i) s))
          else (s, 1, None)
      | [_, cmd] \<Rightarrow>
          if cmd = ''list'' then with_config (load s) s (\<lambda>cfg. (s, 0, None)) else (s, 1, None)
      | _ \<Rightarrow> (s, 1, None))"

section \<open>What the edits leave\<close>

lemma update_first_mem: "update_first i f ts = Some ts' \<Longrightarrow> \<exists>t \<in> set ts. f t \<in> set ts'"
  by (induction ts arbitrary: ts') (auto split: if_splits)

lemma replace_target_mem:
  "replace_target url_parse cfg i endpoint key install = Inr nxt \<Longrightarrow>
     \<exists>t \<in> set (rc_targets nxt). rt_url t = trim_space endpoint \<and> rt_key t = trim_space key \<and>
       rt_install t = trim_space install"
proof -
  assume r: "replace_target url_parse cfg i endpoint key install = Inr nxt"
  let ?f = "\<lambda>t. t\<lparr>rt_url := trim_space endpoint, rt_key := trim_space key, rt_install := trim_space install\<rparr>"
  obtain ts where ts: "update_first i ?f (rc_targets cfg) = Some ts" and nxt: "rc_targets nxt = ts"
    using r by (auto simp: replace_target_def Let_def split: option.splits sum.splits)
  obtain t where "?f t \<in> set ts" using update_first_mem [OF ts] by blast
  then show ?thesis unfolding nxt by (intro bexI [of _ "?f t"]) simp_all
qed

lemma add_target_mem:
  "add_target url_parse cfg endpoint key install = Inr (nxt, u) \<Longrightarrow>
     \<exists>t \<in> set (rc_targets nxt). rt_url t = trim_space endpoint \<and> rt_key t = trim_space key \<and>
       rt_install t = trim_space install"
  by (auto simp: add_target_def Let_def split: sum.splits)

lemma install_id_unique:
  assumes "valid_config url_parse cfg" and "t \<in> set (rc_targets cfg)" "u \<in> set (rc_targets cfg)"
    and "trim_space (rt_install t) = trim_space (rt_install u)" and "trim_space (rt_install t) \<noteq> ''''"
  shows "t = u"
proof -
  have "rt_install t \<noteq> ''''" "rt_install u \<noteq> ''''" using assms(4,5) trim_space_Nil by metis+
  then show ?thesis
    using assms by (auto simp: valid_config_def install_ids_def distinct_map inj_on_def)
qed

section \<open>The store the commands rely on\<close>

text \<open>A save that succeeds is what the next load reads; one that fails leaves the stored configuration.\<close>

locale config_store =
  fixes load :: "'s \<Rightarrow> 'e + rconfig"
    and save :: "rconfig \<Rightarrow> 's \<Rightarrow> 's \<times> ('e + unit)"
    and ready :: "'s \<Rightarrow> bool"
  assumes save_ok: "\<lbrakk>ready s; save cfg s = (s', Inr u)\<rbrakk> \<Longrightarrow> load s' = Inr cfg \<and> ready s'"
    and save_err: "\<lbrakk>ready s; save cfg s = (s', Inl e)\<rbrakk> \<Longrightarrow> load s' = load s"
begin

lemma commit_cases:
  assumes "ready s" and "commit save nxt t s = (s', code, out)"
  shows "code = 0 \<and> load s' = Inr nxt \<and> ready s' \<and> out = Some t \<or> code = 1 \<and> load s' = load s \<and> out = None"
  using assms by (auto simp: commit_def dest: save_ok save_err split: prod.splits sum.splits)

text \<open>The three ways an install that succeeds can leave the store.\<close>

lemma install_cases:
  assumes "ready s" and "load s = Inr cfg"
    and "save_report_install url_parse save fetch prompt cfg endpoint key s = (s', code, out)"
  shows "code = 1 \<and> load s' = load s \<or> code = 0 \<and> s' = s \<or>
    code = 0 \<and> ready s' \<and> (\<exists>i ident nxt.
       resolve_report_identity fetch (trim_space endpoint) (trim_space key) = Inr ident \<and> load s' = Inr nxt \<and>
       (replace_target url_parse cfg i (trim_space endpoint) (trim_space key) (id_install ident) = Inr nxt \<or>
        (\<exists>t. add_target url_parse cfg (trim_space endpoint) (trim_space key) (id_install ident) = Inr (nxt, t))))"
  using assms(3) commit_cases [OF assms(1)]
  unfolding save_report_install_def Let_def
  by (fastforce split: if_splits sum.splits option.splits dup_choice.splits prod.splits)

lemma run_report_cases:
  assumes "ready s" and "run_report url_parse load save fetch prompt args s = (s', code, out)"
  shows "load s' = load s \<or>
    code = 0 \<and> (\<exists>cfg nxt. load s = Inr cfg \<and> load s' = Inr nxt \<and> valid_config url_parse nxt)"
proof -
  have c: "load s' = load s \<or> code = 0 \<and> load s' = Inr nxt \<and> valid_config url_parse nxt"
    if "commit save nxt t s = (s', code, out)" "valid_config url_parse nxt" for nxt t
    using commit_cases [OF assms(1) that(1)] that(2) by auto
  have r: "load s' = load s \<or> code = 0 \<and> load s' = Inr nxt \<and> valid_config url_parse nxt"
    if "(case save nxt s of (s', Inl _) \<Rightarrow> (s', 1, None) | (s', Inr _) \<Rightarrow> (s', 0, None)) = (s', code, out)"
      "valid_config url_parse nxt" for nxt
    using that by (auto dest: save_ok [OF assms(1)] save_err [OF assms(1)] split: prod.splits sum.splits)
  have i: "load s' = load s \<or> code = 0 \<and> (\<exists>nxt. load s' = Inr nxt \<and> valid_config url_parse nxt)"
    if "save_report_install url_parse save fetch prompt cfg a b s = (s', code, out)" "load s = Inr cfg" for cfg a b
    using install_cases [OF assms(1) that(2,1)] replace_target_valid add_target_valid by metis
  show ?thesis
    using assms(2) unfolding run_report_def with_config_def
    by (auto split: list.splits if_splits option.splits sum.splits
        dest: c [OF _ update_key_valid] r [OF _ remove_target_valid] i)
qed

text \<open>An install that changed the store leaves a target under the URL, the key and the install id.\<close>

lemma install_stored:
  assumes "ready s" and "load s = Inr cfg" and "s' \<noteq> s"
    and "save_report_install url_parse save fetch prompt cfg endpoint key s = (s', 0, out)"
  obtains nxt ident where "load s' = Inr nxt" and "valid_config url_parse nxt" and "ready s'"
    and "resolve_report_identity fetch (trim_space endpoint) (trim_space key) = Inr ident"
    and "\<exists>t \<in> set (rc_targets nxt). rt_url t = trim_space endpoint \<and> rt_key t = trim_space key \<and>
           rt_install t = trim_space (id_install ident)"
  using install_cases [OF assms(1,2,4)] assms(3) replace_target_valid add_target_valid
    replace_target_mem add_target_mem that by (metis trim_space_idem zero_neq_one)

lemma install_again:
  assumes "ready s" and "load s = Inr cfg" and "s' \<noteq> s"
    and "save_report_install url_parse save fetch prompt cfg endpoint key s = (s', 0, out)"
    and "\<And>t i. fetch t = Inr i \<Longrightarrow> trim_space (id_install i) \<noteq> ''''"
  shows "\<exists>nxt t. load s' = Inr nxt \<and>
    save_report_install url_parse save fetch prompt2 nxt endpoint key s' = (s', 0, Some t)"
proof -
  obtain nxt ident t where nx: "load s' = Inr nxt" and valid: "valid_config url_parse nxt"
    and ident: "resolve_report_identity fetch (trim_space endpoint) (trim_space key) = Inr ident"
    and t: "t \<in> set (rc_targets nxt)" "rt_url t = trim_space endpoint" "rt_key t = trim_space key"
      "rt_install t = trim_space (id_install ident)"
    using install_stored [OF assms(1-4)] by metis
  have "target_by_url_key nxt (trim_space endpoint) (trim_space key) \<noteq> None"
    using t by (auto simp: target_by_url_key_def first_target_def find_None_iff intro!: exI [of _ t])
  then obtain u where u: "target_by_url_key nxt (trim_space endpoint) (trim_space key) = Some u" by blast
  have id: "trim_space (id_install ident) \<noteq> ''''"
    using ident assms(5) by (auto simp: resolve_report_identity_def)
  have "duplicate_target nxt (id_install ident) \<noteq> None"
    using t id by (auto simp: duplicate_target_def first_target_def find_None_iff intro!: exI [of _ t])
  then obtain ex where ex: "duplicate_target nxt (id_install ident) = Some ex" by blast
  have "ex \<in> set (rc_targets nxt)" "trim_space (rt_install ex) = trim_space (id_install ident)"
    using ex by (auto simp: duplicate_target_def first_target_def find_Some_iff split: if_splits)
  then have "ex = t" using install_id_unique [OF valid] t id by simp
  then have "same_report_target ex \<lparr>rt_id = 0, rt_url = trim_space endpoint, rt_key = trim_space key,
      rt_install = id_install ident\<rparr>"
    using t by (simp add: same_report_target_def)
  then show ?thesis using nx u ident ex by (auto simp: save_report_install_def Let_def)
qed

end

section \<open>The configuration file is such a store\<close>

definition store_ready :: "cfg_env \<Rightarrow> fsys \<Rightarrow> bool" where
  "store_ready env fs \<longleftrightarrow>
     fs (ce_tmp env) = None \<and> ce_tmp env \<noteq> ce_path env \<and> ce_dir env \<noteq> ce_path env \<and> ce_dir env \<noteq> ce_tmp env \<and>
     \<not> ce_open_fails env \<and> \<not> ce_stat_fails env \<and>
     (\<forall>c data. ce_encode env c = Some data \<longrightarrow> ce_decode env data = Some c)"

interpretation file_store: config_store "load_config env" "save_config env" "store_ready env" for env
proof
  fix fs fs' cfg and u :: unit
  assume r: "store_ready env fs" and s: "save_config env cfg fs = (fs', Inr u)"
  then show "load_config env fs' = Inr cfg \<and> store_ready env fs'"
    using save_config_result [of fs env cfg fs' "Inr u"] by (simp add: store_ready_def)
next
  fix fs fs' cfg e
  assume "store_ready env fs" and "save_config env cfg fs = (fs', Inl e)"
  then have "fs' (ce_path env) = fs (ce_path env)" using save_config_err by (auto simp: store_ready_def)
  then show "load_config env fs' = load_config env fs" by (simp add: load_config_def)
qed

lemma run_report_unloadable: "load s = Inl e \<Longrightarrow> run_report url_parse load save fetch prompt args s = (s, 1, None)"
  by (auto simp: run_report_def with_config_def split: list.split option.split)

text \<open>C33. No \<open>report\<close> command damages the configuration, whatever the calls that save it, the server and the
  operator answer, given that an existing file can be opened and that YAML decodes what it encoded.  When the file cannot be loaded the command fails and touches nothing.  Otherwise the
  file can be loaded afterwards too: it holds the configuration it held before, or the command succeeded
  and it holds a valid one.\<close>

theorem report_never_damages:
  assumes "store_ready env fs"
    and "run_report (ce_parse env) (load_config env) (save_config env) fetch prompt args fs = (fs', code, out)"
  shows "case load_config env fs of
      Inl e \<Rightarrow> fs' = fs \<and> code = 1 \<and> out = None
    | Inr cfg \<Rightarrow> load_config env fs' = Inr cfg \<or>
        code = 0 \<and> (\<exists>nxt. load_config env fs' = Inr nxt \<and> valid_config (ce_parse env) nxt)"
proof (cases "load_config env fs")
  case (Inl e)
  then show ?thesis using assms(2) run_report_unloadable [of "load_config env" fs e] by simp
next
  case (Inr cfg)
  then show ?thesis using file_store.run_report_cases [OF assms] by auto
qed

text \<open>Installing the same target again is a no-op: once an install has changed the file, repeating it
  with the same answer of the server asks the operator nothing and writes nothing.\<close>

theorem install_is_idempotent:
  assumes "store_ready env fs" and "load_config env fs = Inr cfg" and "fs' \<noteq> fs"
    and "save_report_install (ce_parse env) (save_config env) fetch prompt cfg endpoint key fs = (fs', 0, out)"
    and "\<And>t i. fetch t = Inr i \<Longrightarrow> trim_space (id_install i) \<noteq> ''''"
  shows "\<exists>nxt t. load_config env fs' = Inr nxt \<and>
    save_report_install (ce_parse env) (save_config env) fetch None nxt endpoint key fs' = (fs', 0, Some t)"
  using assms by (rule file_store.install_again)

section \<open>Concrete instances\<close>

definition demo_fetch :: "rtarget \<Rightarrow> identity_error + identity" where
  "demo_fetch t = Inr \<lparr>id_target = rt_id t, id_url = the (demo_parse (rt_url t)), id_install = ''s1'', id_created = False\<rparr>"

lemma demo_store_ready: "store_ready (demo_env no_faults) Map.empty"
  by (auto simp: store_ready_def demo_env_def split: if_splits)

abbreviation "demo_install \<equiv>
  save_report_install demo_parse (save_config (demo_env no_faults)) demo_fetch None empty_config '' http://a/metrics'' ''k1''
    Map.empty"

theorem report_never_damages_witness:
  "load_config (demo_env no_faults) Map.empty = Inr empty_config \<and>
   load_config (demo_env no_faults) (fst (run_report demo_parse (load_config (demo_env no_faults))
     (save_config (demo_env no_faults)) demo_fetch None [''report'', ''install'', '' http://a/metrics'', ''k1''] Map.empty)) = Inr demo_cfg \<and>
   valid_config demo_parse demo_cfg"
proof -
  let ?run = "run_report demo_parse (load_config (demo_env no_faults)) (save_config (demo_env no_faults))
    demo_fetch None [''report'', ''install'', '' http://a/metrics'', ''k1''] Map.empty"
  have parse: "ce_parse (demo_env no_faults) = demo_parse" by (simp add: demo_env_def)
  have empty: "load_config (demo_env no_faults) Map.empty = Inr empty_config" by (simp add: load_config_def)
  have load: "load_config (demo_env no_faults) (fst ?run) = Inr demo_cfg" by code_simp
  have other: "demo_cfg \<noteq> empty_config" by (simp add: demo_cfg_def empty_config_def)
  obtain fs' c out where run: "?run = (fs', c, out)" by (metis prod_cases3)
  have "valid_config demo_parse demo_cfg"
    using report_never_damages [OF demo_store_ready, unfolded parse, OF run] load other unfolding run empty by simp
  then show ?thesis using empty load by simp
qed

theorem install_is_idempotent_witness:
  "\<exists>t. save_report_install demo_parse (save_config (demo_env no_faults)) demo_fetch None demo_cfg
     '' http://a/metrics'' ''k1'' (fst demo_install) = (fst demo_install, 0, Some t)"
proof -
  obtain fs' code out where run: "demo_install = (fs', code, out)" by (metis prod_cases3)
  have code: "fst (snd demo_install) = 0" by code_simp
  have stored: "fst demo_install [''d'', ''report.yaml''] \<noteq> None" by code_simp
  have load: "load_config (demo_env no_faults) (fst demo_install) = Inr demo_cfg" by code_simp
  have parse: "ce_parse (demo_env no_faults) = demo_parse" by (simp add: demo_env_def)
  have empty: "load_config (demo_env no_faults) Map.empty = Inr empty_config" by (simp add: load_config_def)
  have fetch: "trim_space (id_install i) \<noteq> ''''" if "demo_fetch t = Inr i" for t i
  proof -
    have "trim_space ''s1'' \<noteq> ''''" by code_simp
    then show ?thesis using that by (auto simp: demo_fetch_def)
  qed
  have "fs' \<noteq> Map.empty" using stored run by auto
  from install_is_idempotent [OF demo_store_ready empty this _ fetch,
      of demo_fetch None "'' http://a/metrics''" "''k1''" out]
  show ?thesis using run code load unfolding parse by auto
qed

end
