(* ===== verification/VirtSnapshot.thy ===== *)
theory VirtSnapshot
  imports GoFloat
begin

text \<open>
  The data of \<open>internal/virt\<close>: the virtualization snapshot with its validation and expiry
  (\<open>snapshot.go\<close>), history queries (\<open>history.go\<close>) and the client of the PVE helper
  (\<open>client.go\<close>).  \<open>netip.ParseAddr\<close> and JSON are arguments; \<open>strings.ToValidUTF8\<close> is written out on
  bytes.
\<close>

section \<open>UTF-8\<close>

definition in_range :: "nat \<Rightarrow> nat \<Rightarrow> char \<Rightarrow> bool" where
  "in_range lo hi c \<longleftrightarrow> lo \<le> (of_char c :: nat) \<and> (of_char c :: nat) \<le> hi"

abbreviation "is_cont \<equiv> in_range 0x80 0xBF"

text \<open>The sequences of two, three and four bytes that encode a rune.\<close>

definition rune2 :: "char \<Rightarrow> char \<Rightarrow> bool" where
  "rune2 a b \<longleftrightarrow> in_range 0xC2 0xDF a \<and> is_cont b"

definition rune3 :: "char \<Rightarrow> char \<Rightarrow> char \<Rightarrow> bool" where
  "rune3 a b c \<longleftrightarrow> is_cont c \<and>
     (in_range 0xE0 0xE0 a \<and> in_range 0xA0 0xBF b \<or> in_range 0xE1 0xEC a \<and> is_cont b \<or>
      in_range 0xED 0xED a \<and> in_range 0x80 0x9F b \<or> in_range 0xEE 0xEF a \<and> is_cont b)"

definition rune4 :: "char \<Rightarrow> char \<Rightarrow> char \<Rightarrow> char \<Rightarrow> bool" where
  "rune4 a b c d \<longleftrightarrow> is_cont c \<and> is_cont d \<and>
     (in_range 0xF0 0xF0 a \<and> in_range 0x90 0xBF b \<or> in_range 0xF1 0xF3 a \<and> is_cont b \<or>
      in_range 0xF4 0xF4 a \<and> in_range 0x80 0x8F b)"

text \<open>The length of the encoded rune at the head of the bytes, 0 if there is none.\<close>

fun rune_len :: "string \<Rightarrow> nat" where
  "rune_len [] = 0"
| "rune_len (a # s) =
     (if in_range 0 0x7F a then 1
      else case s of
        [] \<Rightarrow> 0
      | b # s1 \<Rightarrow>
          if rune2 a b then 2
          else case s1 of
            [] \<Rightarrow> 0
          | c # s2 \<Rightarrow>
              if rune3 a b c then 3
              else case s2 of
                [] \<Rightarrow> 0
              | d # s3 \<Rightarrow> if rune4 a b c d then 4 else 0)"

text \<open>\<open>strings.ToValidUTF8(s, "")\<close>: bytes that do not belong to an encoded rune are dropped.\<close>

function to_valid_utf8 :: "string \<Rightarrow> string" where
  "to_valid_utf8 s =
     (if s = [] then []
      else if rune_len s = 0 then to_valid_utf8 (tl s)
      else take (rune_len s) s @ to_valid_utf8 (drop (rune_len s) s))"
  by pat_completeness auto
termination by (relation "measure length") (auto simp: neq_Nil_conv)

declare to_valid_utf8.simps [simp del]

lemma to_valid_utf8_length: "length (to_valid_utf8 s) \<le> length s"
proof (induction s rule: to_valid_utf8.induct)
  case (1 s)
  then show ?case
    by (subst to_valid_utf8.simps) (auto simp: min_def)
qed

lemma to_valid_utf8_ascii:
  "list_all (in_range 0 0x7F) p \<Longrightarrow> to_valid_utf8 (p @ s) = p @ to_valid_utf8 s"
proof (induction p)
  case (Cons a p)
  then have "rune_len ((a # p) @ s) = 1" by simp
  then show ?case using Cons by (subst to_valid_utf8.simps) simp
qed simp

text \<open>\<open>ErrorText\<close> of the error's message.\<close>

definition error_text :: "string \<Rightarrow> string" where
  "error_text err =
     (let message = to_valid_utf8 err in
      if 1024 < length message then to_valid_utf8 (take 1021 message) @ ''...'' else message)"

lemma error_text_bound: "length (error_text err) \<le> 1024"
  using to_valid_utf8_length [of "take 1021 (to_valid_utf8 err)"] by (simp add: error_text_def Let_def)

lemma error_text_nonempty:
  assumes "list_all (in_range 0 0x7F) p" and "p \<noteq> []"
  shows "error_text (p @ s) \<noteq> ''''"
  using assms by (simp add: error_text_def Let_def to_valid_utf8_ascii)

section \<open>The snapshot\<close>

record vm =
  vm_collected :: "time option"
  vm_ttl :: int
  vm_ips_collected :: "time option"
  vm_ips_ttl :: int
  vm_ips :: "string list"
  vm_id :: int
  vm_name :: string
  vm_status :: string
  vm_qmp :: string
  vm_template :: bool
  vm_cpus :: "int option"
  vm_cpu :: "float64 option"
  vm_memory :: "int option"
  vm_memory_limit :: "int option"
  vm_disk_capacity :: "int option"
  vm_disk_read :: "int option"
  vm_disk_write :: "int option"
  vm_net_in :: "int option"
  vm_net_out :: "int option"
  vm_rates :: "(string \<times> float64) list"
  vm_uptime :: "int option"

text \<open>\<open>sn_vms\<close> is \<open>None\<close> for the nil slice.\<close>

record snapshot =
  sn_schema :: int
  sn_provider :: string
  sn_host :: string
  sn_collected :: time
  sn_success :: "time option"
  sn_ttl :: int
  sn_status :: string
  sn_error :: string
  sn_vms :: "vm list option"

abbreviation "sn_vm_list s \<equiv> (case sn_vms s of None \<Rightarrow> [] | Some vms \<Rightarrow> vms)"

definition zero_snapshot :: snapshot where
  "zero_snapshot = \<lparr>sn_schema = 0, sn_provider = '''', sn_host = '''', sn_collected = time_zero, sn_success = None,
     sn_ttl = 0, sn_status = '''', sn_error = '''', sn_vms = None\<rparr>"

text \<open>What \<open>Validate\<close> asks of a parsed address.\<close>

record ip_addr =
  ia_zone :: string
  ia_global_unicast :: bool
  ia_unmap :: string

type_synonym addr_parser = "string \<Rightarrow> ip_addr option"

datatype snapshot_error =
    SnapMetadata | SnapStatus | SnapLimits | SnapSuccessful | SnapFailed | SnapSuccessTime
  | VmInvalid int | VmFreshness int | VmIpFreshness int | VmTooManyIps int | VmIp int | VmCpu int
  | VmRateLimit int | VmCounter int

text \<open>The freshness test used for a VM and for its addresses.\<close>

definition bad_freshness :: "time \<Rightarrow> time option \<Rightarrow> int \<Rightarrow> bool" where
  "bad_freshness limit t ttl \<longleftrightarrow>
     (case t of
        None \<Rightarrow> ttl \<noteq> 0
      | Some u \<Rightarrow> is_zero_time u \<or> limit < u \<or> ttl < 1 \<or> 3600 < ttl)"

fun bad_ips :: "addr_parser \<Rightarrow> string list \<Rightarrow> string list \<Rightarrow> bool" where
  "bad_ips parse_addr seen [] = False"
| "bad_ips parse_addr seen (raw # ips) =
     (case parse_addr raw of
        None \<Rightarrow> True
      | Some ip \<Rightarrow>
          if ia_zone ip \<noteq> '''' \<or> \<not> ia_global_unicast ip \<or> ia_unmap ip \<in> set seen then True
          else bad_ips parse_addr (ia_unmap ip # seen) ips)"

definition bad_rate :: "string \<times> float64 \<Rightarrow> bool" where
  "bad_rate = (\<lambda>(name, rate).
     case parse_int (trim_prefix name ''net'') of
       None \<Rightarrow> True
     | Some index \<Rightarrow>
         index < 0 \<or> name \<noteq> ''net'' @ itoa index \<or> is_nan rate \<or> is_inf rate \<or> float_less rate (Fin 0))"

definition vm_counters :: "vm \<Rightarrow> int option list" where
  "vm_counters v = [vm_cpus v, vm_memory v, vm_memory_limit v, vm_disk_capacity v, vm_disk_read v, vm_disk_write v,
     vm_net_in v, vm_net_out v, vm_uptime v]"

definition validate_vm :: "addr_parser \<Rightarrow> time \<Rightarrow> int list \<Rightarrow> vm \<Rightarrow> snapshot_error + unit" where
  "validate_vm parse_addr limit seen v =
     (if vm_id v < 1 \<or> vm_id v \<in> set seen \<or> 255 < length (vm_name v) \<or> vm_status v = '''' \<or>
         64 < length (vm_status v) \<or> 64 < length (vm_qmp v) then Inl (VmInvalid (vm_id v))
      else if bad_freshness limit (vm_collected v) (vm_ttl v) then Inl (VmFreshness (vm_id v))
      else if bad_freshness limit (vm_ips_collected v) (vm_ips_ttl v) then Inl (VmIpFreshness (vm_id v))
      else if 1024 < length (vm_ips v) then Inl (VmTooManyIps (vm_id v))
      else if bad_ips parse_addr [] (vm_ips v) then Inl (VmIp (vm_id v))
      else if (case vm_cpu v of None \<Rightarrow> False | Some x \<Rightarrow> is_nan x \<or> is_inf x \<or> float_less x (Fin 0))
      then Inl (VmCpu (vm_id v))
      else if list_ex bad_rate (vm_rates v) then Inl (VmRateLimit (vm_id v))
      else if list_ex (\<lambda>n. case n of None \<Rightarrow> False | Some k \<Rightarrow> k < 0) (vm_counters v) then Inl (VmCounter (vm_id v))
      else Inr ())"

fun validate_vms :: "addr_parser \<Rightarrow> time \<Rightarrow> int list \<Rightarrow> vm list \<Rightarrow> snapshot_error + unit" where
  "validate_vms parse_addr limit seen [] = Inr ()"
| "validate_vms parse_addr limit seen (v # vs) =
     (case validate_vm parse_addr limit seen v of
        Inl e \<Rightarrow> Inl e
      | Inr _ \<Rightarrow> validate_vms parse_addr limit (vm_id v # seen) vs)"

definition validate_snapshot :: "addr_parser \<Rightarrow> snapshot \<Rightarrow> snapshot_error + unit" where
  "validate_snapshot parse_addr s =
     (if sn_schema s \<noteq> 1 \<or> sn_provider s \<noteq> ''pve'' \<or> 255 < length (sn_host s) \<or> is_zero_time (sn_collected s) \<or>
         sn_ttl s < 1 \<or> 3600 < sn_ttl s then Inl SnapMetadata
      else if sn_status s \<noteq> ''ok'' \<and> sn_status s \<noteq> ''error'' then Inl SnapStatus
      else if 1024 < length (sn_error s) \<or> 4096 < length (sn_vm_list s) then Inl SnapLimits
      else if sn_status s = ''ok'' \<and>
              (sn_host s = '''' \<or> sn_success s = None \<or> sn_error s \<noteq> '''' \<or> sn_vms s = None)
      then Inl SnapSuccessful
      else if sn_status s = ''error'' \<and> sn_error s = '''' \<or> sn_vm_list s \<noteq> [] \<and> sn_success s = None
      then Inl SnapFailed
      else if (case sn_success s of None \<Rightarrow> False | Some t \<Rightarrow> is_zero_time t \<or> sn_collected s < t)
      then Inl SnapSuccessTime
      else validate_vms parse_addr (sn_collected s) [] (sn_vm_list s))"

definition expire_vm :: "time \<Rightarrow> vm \<Rightarrow> vm" where
  "expire_vm now v =
     (if (case vm_collected v of None \<Rightarrow> False | Some t \<Rightarrow> time_sub now t \<le> secs (vm_ttl v)) then v
      else v\<lparr>vm_status := ''unknown'', vm_qmp := '''', vm_cpu := None, vm_memory := None, vm_uptime := None,
             vm_disk_read := None, vm_disk_write := None, vm_net_in := None, vm_net_out := None\<rparr>)"

section \<open>The helper client\<close>

record history_query =
  hq_vmid :: int
  hq_timeframe :: string
  hq_consolidation :: string

definition validate_query :: "history_query \<Rightarrow> bool" where
  "validate_query q \<longleftrightarrow>
     \<not> (hq_vmid q < 1 \<or> 4294967295 < hq_vmid q \<or>
        hq_timeframe q \<notin> set [''hour'', ''day'', ''week'', ''month'', ''year''] \<or>
        hq_consolidation q \<notin> set [''AVERAGE'', ''MAX''])"

record capabilities =
  cap_version :: string
  cap_history :: bool

definition max_bytes :: nat where "max_bytes = 4 * 2 ^ 20"
definition history_max_bytes :: nat where "history_max_bytes = 2 * 2 ^ 20"

text \<open>\<open>CeTransport\<close> records whether the error is a deadline.\<close>

datatype client_error =
    CeTransport bool | CeBusy | CeUnsupported | CeVmNotFound | CeDeadline | CeSource | CeRead bool | CeTooLarge
  | CeDecode | CeQuery | CeSnapshot snapshot_error

text \<open>The response of the helper: a transport error, or the status, the body and what cuts the body short.\<close>

type_synonym helper_response = "bool + int \<times> string \<times> bool option"

definition helper_call :: "nat \<Rightarrow> helper_response \<Rightarrow> client_error + string" where
  "helper_call limit response =
     (case response of
        Inl deadline \<Rightarrow> Inl (CeTransport deadline)
      | Inr (status, body, broken) \<Rightarrow>
          if status = 200 then
            (let raw = take (limit + 1) body in
             case (if length body < limit + 1 then broken else None) of
               Some deadline \<Rightarrow> Inl (CeRead deadline)
             | None \<Rightarrow> if limit < length raw then Inl CeTooLarge else Inr raw)
          else if status = 429 then Inl CeBusy
          else if status = 501 then Inl CeUnsupported
          else if status = 404 then Inl CeVmNotFound
          else if status = 504 then Inl CeDeadline
          else Inl CeSource)"

definition client_capabilities :: "(string \<Rightarrow> capabilities option) \<Rightarrow> helper_response \<Rightarrow> client_error + capabilities" where
  "client_capabilities decode response =
     (case helper_call history_max_bytes response of
        Inl e \<Rightarrow> Inl e
      | Inr raw \<Rightarrow> (case decode raw of None \<Rightarrow> Inl CeDecode | Some caps \<Rightarrow> Inr caps))"

definition client_history :: "history_query \<Rightarrow> helper_response \<Rightarrow> client_error + string" where
  "client_history q response =
     (if \<not> validate_query q then Inl CeQuery else helper_call history_max_bytes response)"

text \<open>\<open>Snapshot\<close> returns the decoded snapshot also when it is invalid, beside the error.\<close>

definition client_snapshot ::
  "addr_parser \<Rightarrow> (string \<Rightarrow> snapshot option) \<Rightarrow> helper_response \<Rightarrow> client_error + snapshot" where
  "client_snapshot parse_addr decode response =
     (case helper_call max_bytes response of
        Inl e \<Rightarrow> Inl e
      | Inr raw \<Rightarrow>
          (case decode raw of
             None \<Rightarrow> Inl CeDecode
           | Some s \<Rightarrow> (case validate_snapshot parse_addr s of Inl e \<Rightarrow> Inl (CeSnapshot e) | Inr _ \<Rightarrow> Inr s)))"

section \<open>What a valid snapshot promises\<close>

definition fresh_ok :: "time \<Rightarrow> time option \<Rightarrow> int \<Rightarrow> bool" where
  "fresh_ok limit t ttl \<longleftrightarrow>
     (case t of None \<Rightarrow> ttl = 0 | Some u \<Rightarrow> \<not> is_zero_time u \<and> u \<le> limit \<and> 1 \<le> ttl \<and> ttl \<le> 3600)"

definition ips_ok :: "addr_parser \<Rightarrow> string list \<Rightarrow> bool" where
  "ips_ok parse_addr ips \<longleftrightarrow>
     length ips \<le> 1024 \<and>
     list_all (\<lambda>raw. case parse_addr raw of None \<Rightarrow> False | Some ip \<Rightarrow> ia_zone ip = '''' \<and> ia_global_unicast ip) ips \<and>
     distinct (map (\<lambda>raw. map_option ia_unmap (parse_addr raw)) ips)"

definition vm_ok :: "addr_parser \<Rightarrow> time \<Rightarrow> vm \<Rightarrow> bool" where
  "vm_ok parse_addr limit v \<longleftrightarrow>
     1 \<le> vm_id v \<and> length (vm_name v) \<le> 255 \<and> vm_status v \<noteq> '''' \<and> length (vm_status v) \<le> 64 \<and>
     length (vm_qmp v) \<le> 64 \<and> fresh_ok limit (vm_collected v) (vm_ttl v) \<and>
     fresh_ok limit (vm_ips_collected v) (vm_ips_ttl v) \<and> ips_ok parse_addr (vm_ips v) \<and>
     pred_option finite_nonneg (vm_cpu v) \<and> list_all (\<lambda>r. \<not> bad_rate r) (vm_rates v) \<and>
     list_all (pred_option (\<lambda>k. 0 \<le> k)) (vm_counters v)"

lemma bad_freshness_iff: "\<not> bad_freshness limit t ttl \<longleftrightarrow> fresh_ok limit t ttl"
  by (auto simp: bad_freshness_def fresh_ok_def split: option.splits)

lemma bad_ips_iff:
  "\<not> bad_ips parse_addr seen ips \<longleftrightarrow>
     (\<forall>raw \<in> set ips. case parse_addr raw of None \<Rightarrow> False | Some ip \<Rightarrow> ia_zone ip = '''' \<and> ia_global_unicast ip) \<and>
     Some ` set seen \<inter> (\<lambda>raw. map_option ia_unmap (parse_addr raw)) ` set ips = {} \<and>
     distinct (map (\<lambda>raw. map_option ia_unmap (parse_addr raw)) ips)"
proof (induction ips arbitrary: seen)
  case (Cons raw ips)
  show ?case
  proof (cases "parse_addr raw")
    case (Some ip)
    then show ?thesis using Cons.IH [of "ia_unmap ip # seen"] by auto
  qed simp
qed simp

lemma if_Inl_iff [simp]: "(if b then Inl e else r) = Inr x \<longleftrightarrow> \<not> b \<and> r = Inr x"
  by simp

lemma ips_ok_iff: "ips_ok parse_addr ips \<longleftrightarrow> length ips \<le> 1024 \<and> \<not> bad_ips parse_addr [] ips"
  unfolding bad_ips_iff ips_ok_def by (simp add: list_all_iff)

lemma cpu_ok_iff:
  "pred_option finite_nonneg c \<longleftrightarrow> \<not> (case c of None \<Rightarrow> False | Some x \<Rightarrow> is_nan x \<or> is_inf x \<or> float_less x (Fin 0))"
  by (cases c) (simp_all add: finite_nonneg_iff)

lemma counter_ok_iff: "pred_option (\<lambda>k. 0 \<le> k) n \<longleftrightarrow> \<not> (case n of None \<Rightarrow> False | Some k \<Rightarrow> k < (0::int))"
  by (cases n) auto

lemma list_all_not: "list_all (\<lambda>x. \<not> P x) xs \<longleftrightarrow> \<not> list_ex P xs"
  by (simp add: list_all_iff list_ex_iff)

lemma validate_vm_iff:
  "validate_vm parse_addr limit seen v = Inr () \<longleftrightarrow> vm_ok parse_addr limit v \<and> vm_id v \<notin> set seen"
  unfolding validate_vm_def vm_ok_def ips_ok_iff cpu_ok_iff counter_ok_iff list_all_not bad_freshness_iff [symmetric]
    if_Inl_iff de_Morgan_disj not_less not_not
  by (intro iffI conjI; elim conjE; (assumption | rule refl))

lemma validate_vms_iff:
  "validate_vms parse_addr limit seen vs = Inr () \<longleftrightarrow>
     list_all (vm_ok parse_addr limit) vs \<and> distinct (map vm_id vs) \<and> set seen \<inter> vm_id ` set vs = {}"
proof (induction vs arbitrary: seen)
  case (Cons v vs)
  have "(case validate_vm parse_addr limit seen v of Inl e \<Rightarrow> Inl e
         | Inr _ \<Rightarrow> validate_vms parse_addr limit (vm_id v # seen) vs) = Inr () \<longleftrightarrow>
      validate_vm parse_addr limit seen v = Inr () \<and> validate_vms parse_addr limit (vm_id v # seen) vs = Inr ()"
    by (auto split: sum.splits)
  then show ?case unfolding validate_vms.simps validate_vm_iff Cons.IH by auto
qed simp

text \<open>The whole snapshot, as one predicate.\<close>

definition snapshot_ok :: "addr_parser \<Rightarrow> snapshot \<Rightarrow> bool" where
  "snapshot_ok parse_addr s \<longleftrightarrow>
     sn_schema s = 1 \<and> sn_provider s = ''pve'' \<and> length (sn_host s) \<le> 255 \<and> \<not> is_zero_time (sn_collected s) \<and>
     1 \<le> sn_ttl s \<and> sn_ttl s \<le> 3600 \<and> length (sn_error s) \<le> 1024 \<and> length (sn_vm_list s) \<le> 4096 \<and>
     (sn_status s = ''ok'' \<and> sn_host s \<noteq> '''' \<and> sn_success s \<noteq> None \<and> sn_error s = '''' \<and> sn_vms s \<noteq> None \<or>
      sn_status s = ''error'' \<and> sn_error s \<noteq> '''') \<and>
     (sn_vm_list s \<noteq> [] \<longrightarrow> sn_success s \<noteq> None) \<and>
     pred_option (\<lambda>t. \<not> is_zero_time t \<and> t \<le> sn_collected s) (sn_success s) \<and>
     list_all (vm_ok parse_addr (sn_collected s)) (sn_vm_list s) \<and> distinct (map vm_id (sn_vm_list s))"

lemma validate_snapshot_iff: "validate_snapshot parse_addr s = Inr () \<longleftrightarrow> snapshot_ok parse_addr s"
proof -
  have success: "pred_option (\<lambda>t. \<not> is_zero_time t \<and> t \<le> sn_collected s) (sn_success s) \<longleftrightarrow>
      \<not> (case sn_success s of None \<Rightarrow> False | Some t \<Rightarrow> is_zero_time t \<or> sn_collected s < t)"
    by (cases "sn_success s") auto
  have status: "sn_status s = ''ok'' \<Longrightarrow> sn_status s \<noteq> ''error''" by simp
  have vms: "validate_vms parse_addr (sn_collected s) [] (sn_vm_list s) = Inr () \<longleftrightarrow>
      list_all (vm_ok parse_addr (sn_collected s)) (sn_vm_list s) \<and> distinct (map vm_id (sn_vm_list s))"
    by (simp add: validate_vms_iff)
  show ?thesis
    unfolding snapshot_ok_def success vms [symmetric] validate_snapshot_def if_Inl_iff de_Morgan_disj de_Morgan_conj
      not_less not_not
    using status by argo
qed

lemma fresh_ok_mono: "fresh_ok limit t ttl \<Longrightarrow> limit \<le> limit' \<Longrightarrow> fresh_ok limit' t ttl"
  by (auto simp: fresh_ok_def split: option.splits)

lemma vm_ok_mono: "vm_ok parse_addr limit v \<Longrightarrow> limit \<le> limit' \<Longrightarrow> vm_ok parse_addr limit' v"
  by (auto simp: vm_ok_def intro: fresh_ok_mono)

lemma expire_vm_ok: "vm_ok parse_addr limit v \<Longrightarrow> vm_ok parse_addr limit (expire_vm now v)"
  by (auto simp: vm_ok_def expire_vm_def vm_counters_def)

lemma expire_vm_id [simp]: "vm_id (expire_vm now v) = vm_id v"
  by (simp add: expire_vm_def)

section \<open>Error texts\<close>

lemma rune_len_le: "rune_len s \<le> length s"
  by (cases s rule: rune_len.cases) (auto split: list.splits)

lemma rune_len_take: "0 < rune_len s \<Longrightarrow> rune_len (take (rune_len s) s @ t) = rune_len s"
  by (cases s rule: rune_len.cases) (auto split: list.splits if_splits)

lemma to_valid_utf8_append: "to_valid_utf8 (to_valid_utf8 s @ t) = to_valid_utf8 s @ to_valid_utf8 t"
proof (induction s rule: to_valid_utf8.induct)
  case (1 s)
  consider "s = []" | "s \<noteq> []" "rune_len s = 0" | "s \<noteq> []" "0 < rune_len s" by blast
  then show ?case
  proof cases
    case 1
    then show ?thesis by (simp add: to_valid_utf8.simps [of "[]"])
  next
    case 2
    then have "to_valid_utf8 s = to_valid_utf8 (tl s)" by (simp add: to_valid_utf8.simps [of s])
    then show ?thesis using 1(1) [OF 2] by simp
  next
    case 3
    let ?h = "take (rune_len s) s" and ?r = "to_valid_utf8 (drop (rune_len s) s)"
    have s: "to_valid_utf8 s = ?h @ ?r" using 3 by (simp add: to_valid_utf8.simps [of s])
    have len: "rune_len (?h @ ?r @ t) = rune_len s" by (rule rune_len_take [OF 3(2)])
    have "to_valid_utf8 (?h @ ?r @ t) = ?h @ to_valid_utf8 (?r @ t)"
      using 3 len rune_len_le [of s]
      by (subst to_valid_utf8.simps) (simp add: min_def)
    then show ?thesis using 1(2) 3 unfolding s by simp
  qed
qed

lemma to_valid_utf8_idem [simp]: "to_valid_utf8 (to_valid_utf8 s) = to_valid_utf8 s"
  using to_valid_utf8_append [of s "[]"] by (simp add: to_valid_utf8.simps [of "[]"])

text \<open>An error text always fits the protocol: at most 1024 bytes, and valid UTF-8 even when the
  original text is not or is cut in the middle of a character.\<close>

theorem error_text_fits:
  "length (error_text err) \<le> 1024 \<and> to_valid_utf8 (error_text err) = error_text err"
proof -
  have "to_valid_utf8 ''...'' = ''...''" by code_simp
  then show ?thesis
    using error_text_bound by (simp add: error_text_def Let_def to_valid_utf8_append)
qed

text \<open>\<open>Validate\<close> accepts exactly the snapshots with distinct, positive VM ids, consistent
  freshness, distinct global addresses without zone, finite ratios and non-negative counters.\<close>

theorem snapshot_validate_accepts:
  "validate_snapshot parse_addr s = Inr () \<longleftrightarrow> snapshot_ok parse_addr s"
  by (rule validate_snapshot_iff)

end
