(* ===== verification/VirtPush.thy ===== *)
theory VirtPush
  imports StaticSync VirtSnapshot
begin

text \<open>
  \<open>internal/push/virt.go\<close>: one delivery loop per target reads the helper's snapshot and sends it
  when it is newer than the last one delivered; a helper that fails is reported as an error snapshot
  built from the last one read.
\<close>

text \<open>\<open>startVirt\<close> runs a loop only when a helper socket is configured and the URL ends in \<open>/metrics\<close>.\<close>

definition virt_enabled :: "string \<Rightarrow> target \<Rightarrow> bool" where
  "virt_enabled socket t \<longleftrightarrow> trim_space socket \<noteq> '''' \<and> has_suffix (u_path (tg_endpoint t)) ''/metrics''"

definition virt_url :: "target \<Rightarrow> url" where
  "virt_url t = (tg_endpoint t)\<lparr>u_path := trim_suffix (u_path (tg_endpoint t)) ''/metrics'' @ ''/virt''\<rparr>"

text \<open>One attempt of \<open>sendVirt\<close>: \<open>sn_http\<close> is the answer of the first request, \<open>again\<close> that of the one
  after the fallback to HTTP.\<close>

definition send_virt :: "tls_probe \<Rightarrow> static_send \<Rightarrow> go_error + int \<Rightarrow> target \<Rightarrow> target \<times> bool" where
  "send_virt probe env again t0 =
     (case rpc_client (sn_call env) (tg_rpc t0) of
        (rpc, res) \<Rightarrow>
          (let t = t0\<lparr>tg_rpc := rpc\<rparr> in
           case res of
             NoClient e \<Rightarrow> (t, False)
           | ViaRPC \<Rightarrow> (t, sn_rpc env = None)
           | ViaHTTP \<Rightarrow>
               (let (t1, answer) =
                  (case sn_http env of
                     Inr status \<Rightarrow> (t, Inr status)
                   | Inl e \<Rightarrow> (case fallback_http probe e t of
                                (t', True) \<Rightarrow> (t', again)
                              | (t', False) \<Rightarrow> (t', Inl e)))
                in (t1, case answer of Inl e \<Rightarrow> False | Inr status \<Rightarrow> 200 \<le> status \<and> status < 300))))"

record virt_push =
  vp_sent :: time
  vp_snapshot :: snapshot
  vp_read_error :: string
  vp_delay :: duration
  vp_lim :: limiter

definition new_virt_push :: virt_push where
  "new_virt_push = \<lparr>vp_sent = time_zero, vp_snapshot = zero_snapshot, vp_read_error = '''', vp_delay = 3 * second,
     vp_lim = new_limiter minute\<rparr>"

definition unavailable_text :: "string \<Rightarrow> string" where
  "unavailable_text err = error_text (''PVE helper unavailable: '' @ err)"

text \<open>The state after reading the helper at \<open>now\<close>: \<open>Inl\<close> is the text of the error.\<close>

definition virt_read :: "time \<Rightarrow> string + snapshot \<Rightarrow> virt_push \<Rightarrow> virt_push" where
  "virt_read now answer p =
     (case answer of
        Inr current \<Rightarrow> p\<lparr>vp_snapshot := current, vp_read_error := ''''\<rparr>
      | Inl err \<Rightarrow>
          (let message = unavailable_text err in
           if vp_read_error p \<noteq> message
           then p\<lparr>vp_read_error := message,
                  vp_snapshot := (vp_snapshot p)\<lparr>sn_schema := 1, sn_provider := ''pve'', sn_ttl := 90,
                                   sn_collected := now, sn_status := ''error'', sn_error := message\<rparr>\<rparr>
           else p))"

text \<open>The snapshot a turn of the loop sends, if any, and the state after its delivery.\<close>

definition virt_outgoing :: "virt_push \<Rightarrow> snapshot option" where
  "virt_outgoing p = (if sn_collected (vp_snapshot p) \<noteq> vp_sent p then Some (vp_snapshot p) else None)"

definition virt_delivered :: "time \<Rightarrow> bool \<Rightarrow> virt_push \<Rightarrow> virt_push" where
  "virt_delivered now ok p =
     (case virt_outgoing p of
        None \<Rightarrow> p
      | Some s \<Rightarrow>
          if ok then p\<lparr>vp_sent := sn_collected s, vp_delay := 3 * second\<rparr>
          else p\<lparr>vp_lim := fst (limiter_logf now (vp_lim p)), vp_delay := min (vp_delay p * 2) minute\<rparr>)"

definition virt_wait :: "duration \<Rightarrow> virt_push \<Rightarrow> duration" where
  "virt_wait elapsed p = max 0 (vp_delay p - elapsed)"

text \<open>The turns of \<open>pushVirt\<close>: each reads at an instant and learns whether its snapshot could be
  encoded and sent; the snapshots handed to \<open>sendVirt\<close> in order, and the state in the end.\<close>

fun virt_turns :: "(time \<times> (string + snapshot) \<times> bool) list \<Rightarrow> virt_push \<Rightarrow> snapshot list \<times> virt_push" where
  "virt_turns [] p = ([], p)"
| "virt_turns ((now, answer, ok) # ts) p =
     (let p1 = virt_read now answer p;
          (sent, q) = virt_turns ts (virt_delivered now ok p1)
      in ((case virt_outgoing p1 of None \<Rightarrow> [] | Some s \<Rightarrow> [s]) @ sent, q))"

section \<open>Only valid snapshots leave the node\<close>

definition virt_inv :: "addr_parser \<Rightarrow> time \<Rightarrow> virt_push \<Rightarrow> bool" where
  "virt_inv parse_addr now p \<longleftrightarrow>
     (vp_snapshot p = zero_snapshot \<and> vp_read_error p = '''' \<and> vp_sent p = time_zero \<or>
      snapshot_ok parse_addr (vp_snapshot p)) \<and>
     sn_collected (vp_snapshot p) \<le> now \<and> 3 * second \<le> vp_delay p \<and> vp_delay p \<le> minute"

text \<open>What the loop is given: readings at non-decreasing instants after the epoch of the clock, and
  snapshots that passed \<open>Validate\<close> and were collected before they are read.\<close>

fun virt_inputs :: "addr_parser \<Rightarrow> time \<Rightarrow> (time \<times> (string + snapshot) \<times> bool) list \<Rightarrow> bool" where
  "virt_inputs parse_addr prev [] = True"
| "virt_inputs parse_addr prev ((now, answer, ok) # ts) \<longleftrightarrow>
     0 < now \<and> prev \<le> now \<and>
     (case answer of Inl _ \<Rightarrow> True | Inr s \<Rightarrow> snapshot_ok parse_addr s \<and> sn_collected s \<le> now) \<and>
     virt_inputs parse_addr now ts"

lemma unavailable_text: "length (unavailable_text err) \<le> 1024" "unavailable_text err \<noteq> ''''"
proof -
  show "length (unavailable_text err) \<le> 1024" unfolding unavailable_text_def by (rule error_text_bound)
  show "unavailable_text err \<noteq> ''''"
    unfolding unavailable_text_def by (rule error_text_nonempty) (simp_all add: in_range_def)
qed

lemma virt_read_inv:
  assumes "virt_inv parse_addr prev p" and "0 < now" and "prev \<le> now"
    and "case answer of Inl _ \<Rightarrow> True | Inr s \<Rightarrow> snapshot_ok parse_addr s \<and> sn_collected s \<le> now"
  shows "virt_inv parse_addr now (virt_read now answer p)"
proof (cases answer)
  case (Inr s)
  then show ?thesis using assms by (auto simp: virt_read_def virt_inv_def)
next
  case (Inl err)
  let ?m = "unavailable_text err"
  note m = unavailable_text [of err]
  show ?thesis
  proof (cases "vp_read_error p = ?m")
    case True
    then have "virt_read now answer p = p" using Inl by (simp add: virt_read_def Let_def)
    then show ?thesis using assms by (auto simp: virt_inv_def)
  next
    case False
    let ?s = "(vp_snapshot p)\<lparr>sn_schema := 1, sn_provider := ''pve'', sn_ttl := 90, sn_collected := now,
        sn_status := ''error'', sn_error := ?m\<rparr>"
    have old: "vp_snapshot p = zero_snapshot \<or> snapshot_ok parse_addr (vp_snapshot p)"
      and le: "sn_collected (vp_snapshot p) \<le> now" using assms(1,3) by (auto simp: virt_inv_def)
    have "snapshot_ok parse_addr ?s"
      using old
    proof
      assume "vp_snapshot p = zero_snapshot"
      then show ?thesis using m assms(2) by (simp add: snapshot_ok_def zero_snapshot_def is_zero_time_def)
    next
      assume ok: "snapshot_ok parse_addr (vp_snapshot p)"
      have "list_all (vm_ok parse_addr now) (sn_vm_list (vp_snapshot p))"
        using ok le vm_ok_mono by (fastforce simp: snapshot_ok_def list_all_iff)
      moreover have "pred_option (\<lambda>t. \<not> is_zero_time t \<and> t \<le> now) (sn_success (vp_snapshot p))"
        using ok le by (auto simp: snapshot_ok_def pred_option_def)
      ultimately show ?thesis using ok m assms(2) by (simp add: snapshot_ok_def is_zero_time_def)
    qed
    moreover have "virt_read now answer p = p\<lparr>vp_read_error := ?m, vp_snapshot := ?s\<rparr>"
      using Inl False by (simp add: virt_read_def Let_def)
    ultimately show ?thesis using assms(1) by (simp add: virt_inv_def)
  qed
qed

lemma virt_outgoing_ok:
  "virt_inv parse_addr now p \<Longrightarrow> virt_outgoing p = Some s \<Longrightarrow> snapshot_ok parse_addr s"
  by (auto simp: virt_inv_def virt_outgoing_def zero_snapshot_def split: if_splits)

lemma virt_delivered_inv: "virt_inv parse_addr now p \<Longrightarrow> virt_inv parse_addr now (virt_delivered t ok p)"
  by (auto simp: virt_inv_def virt_delivered_def virt_outgoing_def zero_snapshot_def second_def minute_def
      split: option.splits if_splits)

lemma virt_turns_ok:
  assumes "virt_inv parse_addr prev p" and "virt_inputs parse_addr prev ts"
  shows "list_all (snapshot_ok parse_addr) (fst (virt_turns ts p))"
  using assms
proof (induction ts arbitrary: prev p)
  case (Cons turn ts)
  obtain now answer ok where t: "turn = (now, answer, ok)" by (metis prod_cases3)
  have inv: "virt_inv parse_addr now (virt_read now answer p)"
    using virt_read_inv [OF Cons.prems(1)] Cons.prems(2) by (simp add: t)
  obtain sent q where st: "virt_turns ts (virt_delivered now ok (virt_read now answer p)) = (sent, q)" by fastforce
  have "list_all (snapshot_ok parse_addr) sent"
    using Cons.IH [OF virt_delivered_inv [OF inv, of now ok]] Cons.prems(2) st by (simp add: t)
  then show ?case
    using virt_outgoing_ok [OF inv] st by (auto simp: t Let_def split: option.splits)
qed simp

text \<open>A step back of the clock.  The error snapshot that the loop makes up keeps the times of the last reading,
  so one of them may lie behind its own.\<close>

definition time_behind :: "snapshot \<Rightarrow> time option \<Rightarrow> bool" where
  "time_behind s t \<longleftrightarrow> (case t of None \<Rightarrow> False | Some u \<Rightarrow> sn_collected s < u)"

definition has_later_time :: "snapshot \<Rightarrow> bool" where
  "has_later_time s \<longleftrightarrow>
     time_behind s (sn_success s) \<or>
     list_ex (\<lambda>v. time_behind s (vm_collected v) \<or> time_behind s (vm_ips_collected v)) (sn_vm_list s)"

text \<open>But for its times, such a snapshot is one that would be valid later.\<close>

definition valid_later :: "addr_parser \<Rightarrow> snapshot \<Rightarrow> bool" where
  "valid_later parse_addr s \<longleftrightarrow>
     \<not> is_zero_time (sn_collected s) \<and>
     (\<exists>t. sn_collected s \<le> t \<and> snapshot_ok parse_addr (s\<lparr>sn_collected := t\<rparr>)) \<and>
     (has_later_time s \<longrightarrow> sn_status s = ''error'')"

lemma vm_ok_times:
  "vm_ok parse_addr (sn_collected s) v \<Longrightarrow> \<not> time_behind s (vm_collected v) \<and> \<not> time_behind s (vm_ips_collected v)"
  by (auto simp: vm_ok_def fresh_ok_def time_behind_def split: option.splits)

lemma snapshot_ok_times:
  assumes "snapshot_ok parse_addr s"
  shows "\<not> has_later_time s"
proof -
  have vms: "list_all (vm_ok parse_addr (sn_collected s)) (sn_vm_list s)"
    and success: "pred_option (\<lambda>t. \<not> is_zero_time t \<and> t \<le> sn_collected s) (sn_success s)"
    using assms unfolding snapshot_ok_def by blast+
  have "\<not> time_behind s (sn_success s)" using success by (auto simp: time_behind_def split: option.splits)
  then show ?thesis using vms vm_ok_times unfolding has_later_time_def list_all_iff list_ex_iff by blast
qed

lemma snapshot_ok_valid_later: "snapshot_ok parse_addr s \<Longrightarrow> valid_later parse_addr s"
  using snapshot_ok_times [of parse_addr s] unfolding valid_later_def
  by (intro conjI exI [of _ "sn_collected s"]) (simp_all add: snapshot_ok_def)

lemma vm_ok_earlier:
  assumes "vm_ok parse_addr limit v" and "\<And>u. vm_collected v = Some u \<Longrightarrow> u \<le> limit'"
    and "\<And>u. vm_ips_collected v = Some u \<Longrightarrow> u \<le> limit'"
  shows "vm_ok parse_addr limit' v"
  using assms by (auto simp: vm_ok_def fresh_ok_def split: option.splits)

lemma valid_later_iff:
  assumes "valid_later parse_addr s"
  shows "snapshot_ok parse_addr s \<longleftrightarrow> \<not> has_later_time s"
proof
  assume none: "\<not> has_later_time s"
  obtain t where t: "snapshot_ok parse_addr (s\<lparr>sn_collected := t\<rparr>)" "\<not> is_zero_time (sn_collected s)"
    using assms by (auto simp: valid_later_def)
  have "vm_ok parse_addr (sn_collected s) v" if "v \<in> set (sn_vm_list s)" for v
  proof (rule vm_ok_earlier)
    show "vm_ok parse_addr t v" using t(1) that by (simp add: snapshot_ok_def list_all_iff)
    show "u \<le> sn_collected s" if "vm_collected v = Some u" for u
      using none that \<open>v \<in> _\<close> by (auto simp: has_later_time_def time_behind_def list_ex_iff)
    show "u \<le> sn_collected s" if "vm_ips_collected v = Some u" for u
      using none that \<open>v \<in> _\<close> by (auto simp: has_later_time_def time_behind_def list_ex_iff)
  qed
  moreover have "pred_option (\<lambda>u. \<not> is_zero_time u \<and> u \<le> sn_collected s) (sn_success s)"
    using t(1) none by (auto simp: snapshot_ok_def pred_option_def has_later_time_def time_behind_def)
  ultimately show "snapshot_ok parse_addr s" using t by (simp add: snapshot_ok_def list_all_iff)
qed (rule snapshot_ok_times)

lemma snapshot_ok_postpone:
  assumes "snapshot_ok parse_addr (s\<lparr>sn_collected := t\<rparr>)" and "t \<le> t'" and "0 < t'"
  shows "snapshot_ok parse_addr (s\<lparr>sn_collected := t'\<rparr>)"
proof -
  have "list_all (vm_ok parse_addr t') (sn_vm_list s)"
    using assms(1,2) vm_ok_mono by (fastforce simp: snapshot_ok_def list_all_iff)
  moreover have "pred_option (\<lambda>u. \<not> is_zero_time u \<and> u \<le> t') (sn_success s)"
    using assms(1,2) by (auto simp: snapshot_ok_def pred_option_def)
  ultimately show ?thesis using assms(1,3) by (simp add: snapshot_ok_def is_zero_time_def)
qed

definition made_up :: "string \<Rightarrow> time \<Rightarrow> snapshot \<Rightarrow> snapshot" where
  "made_up message now s = s\<lparr>sn_schema := 1, sn_provider := ''pve'', sn_ttl := 90, sn_collected := now,
     sn_status := ''error'', sn_error := message\<rparr>"

lemma made_up_ok:
  assumes "snapshot_ok parse_addr (s\<lparr>sn_collected := t\<rparr>)" and "length m \<le> 1024" and "m \<noteq> ''''"
  shows "snapshot_ok parse_addr ((made_up m now s)\<lparr>sn_collected := t\<rparr>)"
  using assms unfolding snapshot_ok_def by (simp add: made_up_def)

lemma made_up_valid_later:
  assumes "s = zero_snapshot \<or> valid_later parse_addr s" and "0 < now"
  shows "valid_later parse_addr (made_up (unavailable_text err) now s)"
proof -
  note m = unavailable_text [of err]
  obtain t where t: "now \<le> t" "snapshot_ok parse_addr ((made_up (unavailable_text err) now s)\<lparr>sn_collected := t\<rparr>)"
    using assms(1)
  proof
    assume "s = zero_snapshot"
    then show ?thesis
      using m assms(2) by (intro that [of now]) (simp_all add: made_up_def snapshot_ok_def zero_snapshot_def is_zero_time_def)
  next
    assume "valid_later parse_addr s"
    then obtain u where u: "snapshot_ok parse_addr (s\<lparr>sn_collected := u\<rparr>)" unfolding valid_later_def by blast
    have "u \<le> max now u" "0 < max now u" using assms(2) by simp_all
    then have "snapshot_ok parse_addr (s\<lparr>sn_collected := max now u\<rparr>)" by (rule snapshot_ok_postpone [OF u])
    from made_up_ok [OF this m] show ?thesis by (intro that [of "max now u"]) simp_all
  qed
  have "sn_collected (made_up m now s) = now \<and> sn_status (made_up m now s) = ''error''" for m
    by (simp add: made_up_def)
  then show ?thesis using t assms(2) unfolding valid_later_def is_zero_time_def time_zero_def by auto
qed

lemma virt_read_valid_later:
  assumes "vp_snapshot p = zero_snapshot \<and> vp_read_error p = '''' \<and> vp_sent p = time_zero \<or> valid_later parse_addr (vp_snapshot p)"
    and "0 < now" and "case answer of Inl _ \<Rightarrow> True | Inr s \<Rightarrow> snapshot_ok parse_addr s"
  shows "valid_later parse_addr (vp_snapshot (virt_read now answer p))"
proof (cases answer)
  case (Inr s)
  then show ?thesis using assms(3) snapshot_ok_valid_later by (simp add: virt_read_def)
next
  case (Inl err)
  show ?thesis
  proof (cases "vp_read_error p = unavailable_text err")
    case True
    then have "vp_read_error p \<noteq> ''''" using unavailable_text [of err] by simp
    then show ?thesis using assms(1) Inl True by (simp add: virt_read_def Let_def)
  next
    case False
    then have "vp_snapshot (virt_read now answer p) = made_up (unavailable_text err) now (vp_snapshot p)"
      using Inl by (simp add: virt_read_def Let_def made_up_def)
    then show ?thesis using made_up_valid_later [OF _ assms(2)] assms(1) by auto
  qed
qed

definition virt_reading_ok :: "addr_parser \<Rightarrow> time \<times> (string + snapshot) \<times> bool \<Rightarrow> bool" where
  "virt_reading_ok parse_addr = (\<lambda>(now, answer, ok).
     0 < now \<and> (case answer of Inl _ \<Rightarrow> True | Inr s \<Rightarrow> validate_snapshot parse_addr s = Inr ()))"

lemma virt_turns_valid_later:
  assumes "vp_snapshot p = zero_snapshot \<and> vp_read_error p = '''' \<and> vp_sent p = time_zero \<or> valid_later parse_addr (vp_snapshot p)"
    and "list_all (virt_reading_ok parse_addr) ts"
  shows "list_all (valid_later parse_addr) (fst (virt_turns ts p))"
  using assms
proof (induction ts arbitrary: p)
  case (Cons turn ts)
  obtain now answer ok where t: "turn = (now, answer, ok)" by (metis prod_cases3)
  have later: "valid_later parse_addr (vp_snapshot (virt_read now answer p))"
    using virt_read_valid_later [OF Cons.prems(1)] Cons.prems(2)
    by (simp add: t virt_reading_ok_def validate_snapshot_iff split: sum.splits)
  moreover have "vp_snapshot (virt_delivered now ok q) = vp_snapshot q" for q
    by (simp add: virt_delivered_def split: option.split)
  ultimately have "list_all (valid_later parse_addr) (fst (virt_turns ts (virt_delivered now ok (virt_read now answer p))))"
    using Cons.IH Cons.prems(2) by simp
  then show ?case using later by (auto simp: t Let_def virt_outgoing_def split: prod.splits option.splits)
qed simp

text \<open>C32. What a target is sent, whatever the clock does.  Let every reading of the helper be an error or a
  snapshot that passed \<open>Validate\<close>.  Then a snapshot sent passes \<open>Validate\<close> again unless one of the times
  in it (the last success, a sample, a reading of addresses) is later than its own; this can only happen
  to an error snapshot the loop made up, after the clock was set back.  As long as the clock does not
  step back and no snapshot was collected in the future, every snapshot sent is valid.\<close>

theorem virt_push_sends_valid:
  assumes "list_all (virt_reading_ok parse_addr) ts"
  shows "list_all (\<lambda>s. (validate_snapshot parse_addr s = Inr () \<longleftrightarrow> \<not> has_later_time s) \<and>
        (has_later_time s \<longrightarrow> sn_status s = ''error'')) (fst (virt_turns ts new_virt_push)) \<and>
    (virt_inputs parse_addr time_zero ts \<longrightarrow>
      list_all (\<lambda>s. validate_snapshot parse_addr s = Inr ()) (fst (virt_turns ts new_virt_push)))"
proof
  have "list_all (valid_later parse_addr) (fst (virt_turns ts new_virt_push))"
    by (rule virt_turns_valid_later [OF _ assms]) (simp add: new_virt_push_def)
  then show "list_all (\<lambda>s. (validate_snapshot parse_addr s = Inr () \<longleftrightarrow> \<not> has_later_time s) \<and>
        (has_later_time s \<longrightarrow> sn_status s = ''error'')) (fst (virt_turns ts new_virt_push))"
    using valid_later_iff by (auto simp: list_all_iff validate_snapshot_iff valid_later_def)
  have "virt_inv parse_addr time_zero new_virt_push"
    by (simp add: virt_inv_def new_virt_push_def zero_snapshot_def second_def minute_def)
  then show "virt_inputs parse_addr time_zero ts \<longrightarrow>
      list_all (\<lambda>s. validate_snapshot parse_addr s = Inr ()) (fst (virt_turns ts new_virt_push))"
    using virt_turns_ok by (auto simp: validate_snapshot_iff)
qed

text \<open>A clock set back from 9 to 5 while the helper fails: what is sent then is invalid.\<close>

definition demo_served :: snapshot where
  "demo_served = \<lparr>sn_schema = 1, sn_provider = ''pve'', sn_host = ''h'', sn_collected = 9, sn_success = Some 9, sn_ttl = 90,
     sn_status = ''ok'', sn_error = '''', sn_vms = Some []\<rparr>"

definition demo_turns :: "(time \<times> (string + snapshot) \<times> bool) list" where
  "demo_turns = [(9, Inr demo_served, True), (5, Inl ''down'', True)]"

theorem virt_push_sends_valid_witness:
  "map has_later_time (fst (virt_turns demo_turns new_virt_push)) = [False, True] \<and>
   list_all (\<lambda>s. (validate_snapshot (\<lambda>_. None) s = Inr () \<longleftrightarrow> \<not> has_later_time s) \<and>
        (has_later_time s \<longrightarrow> sn_status s = ''error'')) (fst (virt_turns demo_turns new_virt_push)) \<and>
   list_all (\<lambda>s. validate_snapshot (\<lambda>_. None) s = Inr ()) (fst (virt_turns [(5, Inl ''down'', False), (9, Inl ''down'', True)] new_virt_push))"
proof (intro conjI)
  show "map has_later_time (fst (virt_turns demo_turns new_virt_push)) = [False, True]"
    by code_simp
  have ok: "list_all (virt_reading_ok (\<lambda>_. None)) demo_turns" by code_simp
  show "list_all (\<lambda>s. (validate_snapshot (\<lambda>_. None) s = Inr () \<longleftrightarrow> \<not> has_later_time s) \<and>
        (has_later_time s \<longrightarrow> sn_status s = ''error'')) (fst (virt_turns demo_turns new_virt_push))"
    by (rule conjunct1 [OF virt_push_sends_valid [OF ok]])
  have "list_all (virt_reading_ok (\<lambda>_. None)) [(5, Inl ''down'', False), (9, Inl ''down'', True)]" by code_simp
  from conjunct2 [OF virt_push_sends_valid [OF this]]
  show "list_all (\<lambda>s. validate_snapshot (\<lambda>_. None) s = Inr ())
      (fst (virt_turns [(5, Inl ''down'', False), (9, Inl ''down'', True)] new_virt_push))"
    by (simp add: time_zero_def)
qed

end
