(* ===== verification/Session.thy ===== *)
theory Session
  imports VirtPush
begin

text \<open>
  \<open>internal/push/session.go\<close>: the query session of a target.  One loop owns the pending queries; a
  reader, a writer and one task per admitted query run beside it and talk to it over bounded
  channels.  The step relation interleaves them freely.
\<close>

section \<open>Messages\<close>

datatype dash_body = DashCancel | DashHistory history_query nat | DashOther

record dash_message =
  dm_id :: string
  dm_body :: dash_body

datatype node_body = NodeHeartbeat | NodeResult string string

record node_message =
  nm_id :: string
  nm_body :: node_body

text \<open>\<open>historyResult\<close>: the helper's answer as a result with an error code; \<open>raw\<close> is nil on an error.\<close>

definition history_code :: "client_error \<Rightarrow> string" where
  "history_code e =
     (case e of
        CeBusy \<Rightarrow> ''busy''
      | CeUnsupported \<Rightarrow> ''unsupported''
      | CeVmNotFound \<Rightarrow> ''vm_not_found''
      | CeDeadline \<Rightarrow> ''deadline_exceeded''
      | CeTransport True \<Rightarrow> ''deadline_exceeded''
      | CeRead True \<Rightarrow> ''deadline_exceeded''
      | _ \<Rightarrow> ''source_unavailable'')"

definition history_result :: "string \<Rightarrow> history_query \<Rightarrow> helper_response \<Rightarrow> node_message" where
  "history_result qid q response =
     (case client_history q response of
        Inr raw \<Rightarrow> \<lparr>nm_id = qid, nm_body = NodeResult raw ''''\<rparr>
      | Inl e \<Rightarrow> \<lparr>nm_id = qid, nm_body = NodeResult '''' (history_code e)\<rparr>)"

section \<open>The loop\<close>

text \<open>A pending query: its deadline and whether its context was cancelled.\<close>

record job =
  jb_query :: history_query
  jb_timeout :: duration
  jb_cancelled :: bool

record session =
  ss_pending :: "(string, job) gomap"
  ss_running :: "string list"
  ss_completed :: "node_message list"
  ss_outgoing :: "node_message list"
  ss_last_seen :: time
  ss_caps :: capabilities

datatype session_end =
    SessCanceled | SessFailure | SessQueueFull | SessBadId | SessBadQuery | SessDuplicate
  | SessHeartbeat | SessCapsChanged | SessPanic

text \<open>What a step of the loop does to queries, for the statements about traces.\<close>

datatype session_label = Admitted string | Busied string | Answered string | Silent

definition new_session :: "capabilities \<Rightarrow> time \<Rightarrow> session" where
  "new_session caps now = \<lparr>ss_pending = [], ss_running = [], ss_completed = [], ss_outgoing = [],
     ss_last_seen = now, ss_caps = caps\<rparr>"

text \<open>The non-blocking send on the queue of 64 messages.\<close>

definition session_send :: "node_message \<Rightarrow> session \<Rightarrow> session_end + session" where
  "session_send m s =
     (if length (ss_outgoing s) < 64 then Inr (s\<lparr>ss_outgoing := ss_outgoing s @ [m]\<rparr>) else Inl SessQueueFull)"

text \<open>\<open>case result := <-completed\<close>: calling the entry of a missing id would call a nil function.\<close>

definition on_completed :: "node_message \<Rightarrow> session \<Rightarrow> session_end + session" where
  "on_completed result s =
     (case map_of (ss_pending s) (nm_id result) of
        None \<Rightarrow> Inl SessPanic
      | Some job \<Rightarrow> session_send result (s\<lparr>ss_pending := AList.delete (nm_id result) (ss_pending s)\<rparr>))"

definition on_incoming :: "time \<Rightarrow> dash_message \<Rightarrow> session \<Rightarrow> session_label \<times> (session_end + session)" where
  "on_incoming now m s0 =
     (let s = s0\<lparr>ss_last_seen := now\<rparr> in
      case dm_body m of
        DashCancel \<Rightarrow>
          (Silent, Inr (case map_of (ss_pending s) (dm_id m) of
                          None \<Rightarrow> s
                        | Some job \<Rightarrow>
                            s\<lparr>ss_pending := AList.update (dm_id m) (job\<lparr>jb_cancelled := True\<rparr>) (ss_pending s)\<rparr>))
      | DashOther \<Rightarrow> (Silent, Inr s)
      | DashHistory q timeout_ms \<Rightarrow>
          if dm_id m = '''' \<or> 64 < length (dm_id m) then (Silent, Inl SessBadId)
          else if \<not> validate_query q \<or> timeout_ms = 0 then (Silent, Inl SessBadQuery)
          else if map_of (ss_pending s) (dm_id m) \<noteq> None then (Silent, Inl SessDuplicate)
          else if 32 \<le> length (ss_pending s)
          then (Busied (dm_id m), session_send \<lparr>nm_id = dm_id m, nm_body = NodeResult '''' ''busy''\<rparr> s)
          else (Admitted (dm_id m),
                Inr (s\<lparr>ss_pending := AList.update (dm_id m)
                         \<lparr>jb_query = q, jb_timeout = min (10 * second) (int timeout_ms * millisecond),
                          jb_cancelled = False\<rparr> (ss_pending s),
                       ss_running := dm_id m # ss_running s\<rparr>)))"

definition on_heartbeat :: "time \<Rightarrow> session \<Rightarrow> session_end + session" where
  "on_heartbeat now s =
     (if 60 * second < time_sub now (ss_last_seen s) then Inl SessHeartbeat
      else session_send \<lparr>nm_id = '''', nm_body = NodeHeartbeat\<rparr> s)"

definition on_check :: "client_error + capabilities \<Rightarrow> session \<Rightarrow> session_end + session" where
  "on_check current s =
     (case current of
        Inl _ \<Rightarrow> Inr s
      | Inr c \<Rightarrow>
          if cap_history c \<noteq> cap_history (ss_caps s) \<or> cap_version c \<noteq> cap_version (ss_caps s)
          then Inl SessCapsChanged else Inr s)"

text \<open>The steps: a task hands its result over (the channel holds 32), the writer sends a message, or the
  loop takes one of its cases.\<close>

inductive session_step :: "session \<Rightarrow> session_label \<Rightarrow> session_end + session \<Rightarrow> bool" where
  job_done: "\<lbrakk>qid \<in> set (ss_running s); length (ss_completed s) < 32; nm_id m = qid\<rbrakk> \<Longrightarrow>
     session_step s Silent (Inr (s\<lparr>ss_running := remove1 qid (ss_running s), ss_completed := ss_completed s @ [m]\<rparr>))"
| written: "ss_outgoing s = m # ms \<Longrightarrow> session_step s Silent (Inr (s\<lparr>ss_outgoing := ms\<rparr>))"
| completed: "ss_completed s = r # rs \<Longrightarrow>
     session_step s (Answered (nm_id r)) (on_completed r (s\<lparr>ss_completed := rs\<rparr>))"
| incoming: "on_incoming now m s = (lab, res) \<Longrightarrow> session_step s lab res"
| heartbeat: "session_step s Silent (on_heartbeat now s)"
| check: "session_step s Silent (on_check current s)"
| failure: "session_step s Silent (Inl SessFailure)"
| canceled: "session_step s Silent (Inl SessCanceled)"

inductive session_path :: "session \<Rightarrow> session_label list \<Rightarrow> session \<Rightarrow> bool" where
  start: "session_path s [] s"
| step: "\<lbrakk>session_path s labs t; session_step t lab (Inr u)\<rbrakk> \<Longrightarrow> session_path s (labs @ [lab]) u"

inductive_cases session_stepE: "session_step s lab res"

section \<open>Invariant\<close>

definition session_inv :: "session \<Rightarrow> bool" where
  "session_inv s \<longleftrightarrow>
     keys_distinct (ss_pending s) \<and> length (ss_pending s) \<le> 32 \<and>
     mset (map fst (ss_pending s)) = mset (ss_running s) + mset (map nm_id (ss_completed s)) \<and>
     length (ss_outgoing s) \<le> 64"



lemma delete_keys_mset:
  "keys_distinct m \<Longrightarrow> mset (map fst (AList.delete k m)) = mset (map fst m) - {#k#}"
  unfolding keys_distinct_def delete_keys by (simp add: distinct_remove1_removeAll [symmetric] removeAll_filter_not_eq [symmetric])

lemma session_send_cases:
  "session_send m s = Inr s' \<Longrightarrow> length (ss_outgoing s) < 64 \<and> s' = s\<lparr>ss_outgoing := ss_outgoing s @ [m]\<rparr>"
  "session_send m s \<noteq> Inl SessPanic"
  by (auto simp: session_send_def split: if_splits)

lemma completed_pending:
  assumes "session_inv s" and "r \<in> set (ss_completed s)"
  shows "map_of (ss_pending s) (nm_id r) \<noteq> None"
proof -
  have "nm_id r \<in># mset (map fst (ss_pending s))"
    using assms unfolding session_inv_def by (metis image_eqI list.set_map set_mset_mset union_iff)
  then show ?thesis unfolding dom_keys by simp
qed

lemma session_completed_bound: "session_inv s \<Longrightarrow> length (ss_running s) + length (ss_completed s) \<le> 32"
  unfolding session_inv_def by (metis length_map size_mset size_union)

lemma on_completed_inv:
  assumes "session_inv s" and "ss_completed s = r # rs" and "on_completed r (s\<lparr>ss_completed := rs\<rparr>) = Inr s'"
  shows "session_inv s'"
proof -
  have inv: "keys_distinct (ss_pending s)" "length (ss_pending s) \<le> 32"
    "mset (map fst (ss_pending s)) = mset (ss_running s) + mset (map nm_id (ss_completed s))"
    using assms(1) by (simp_all add: session_inv_def)
  obtain job where "map_of (ss_pending s) (nm_id r) = Some job"
    using completed_pending [OF assms(1), of r] assms(2) by auto
  then have s': "s' = s\<lparr>ss_completed := rs, ss_pending := AList.delete (nm_id r) (ss_pending s),
      ss_outgoing := ss_outgoing s @ [r]\<rparr>" and q: "length (ss_outgoing s) < 64"
    using assms(3) by (auto simp: on_completed_def dest!: session_send_cases(1))
  show ?thesis
    using inv q length_delete_le [of "nm_id r" "ss_pending s"] delete_keys_mset [OF inv(1), of "nm_id r"] assms(2)
    unfolding session_inv_def s' by simp
qed

lemma on_incoming_inv:
  assumes "session_inv s" and "on_incoming now m s = (lab, Inr s')"
  shows "session_inv s'"
proof -
  have cancel: "session_inv (s\<lparr>ss_last_seen := now, ss_pending := AList.update k v (ss_pending s)\<rparr>)"
    if "map_of (ss_pending s) k = Some w" for k v w
  proof -
    have "mset (map fst (AList.update k v (ss_pending s))) = mset (map fst (ss_pending s))"
      using update_present_keys [OF that] by simp
    then show ?thesis using assms(1) length_update_present [OF that] by (simp add: session_inv_def)
  qed
  show ?thesis
    using assms cancel
    by (auto simp: session_inv_def on_incoming_def Let_def update_fresh
        split: dash_body.splits if_splits option.splits dest!: session_send_cases(1))
qed

lemma session_step_inv:
  assumes "session_inv s" and "session_step s lab (Inr s')"
  shows "session_inv s'"
  using assms(2)
proof (cases rule: session_step.cases)
  case (job_done qid m)
  then have "mset (ss_running s) = add_mset qid (mset (remove1 qid (ss_running s)))" by simp
  then show ?thesis using assms(1) job_done by (simp add: session_inv_def)
next
  case (written m ms)
  then show ?thesis using assms(1) by (simp add: session_inv_def)
next
  case (completed r rs)
  then show ?thesis using on_completed_inv [OF assms(1)] by metis
next
  case (incoming now m)
  then show ?thesis using on_incoming_inv [OF assms(1)] by metis
next
  case (heartbeat now)
  then have "session_send \<lparr>nm_id = '''', nm_body = NodeHeartbeat\<rparr> s = Inr s'"
    by (auto simp: on_heartbeat_def split: if_splits)
  from session_send_cases(1) [OF this] show ?thesis using assms(1) by (simp add: session_inv_def)
next
  case (check current)
  then show ?thesis using assms(1) by (auto simp: on_check_def split: sum.splits if_splits)
qed

lemma session_reach_inv: "session_path s0 labs s \<Longrightarrow> s0 = new_session caps now \<Longrightarrow> session_inv s"
proof (induction rule: session_path.induct)
  case (start s)
  then show ?case by (simp add: session_inv_def new_session_def)
next
  case (step s labs t lab u)
  then show ?case using session_step_inv by blast
qed

text \<open>C4. In every reachable state at most 32 queries are pending, each under its own id, and the queue
  to the writer holds at most 64 messages; a finished task can always hand its result over without
  blocking, and no step calls the cancel function of a query that is not pending.\<close>

theorem session_safe:
  assumes "session_path (new_session caps now) labs s"
  shows "length (ss_pending s) \<le> 32 \<and> distinct (map fst (ss_pending s)) \<and> length (ss_outgoing s) \<le> 64 \<and>
    (ss_running s \<noteq> [] \<longrightarrow> length (ss_completed s) < 32) \<and>
    (\<forall>lab. \<not> session_step s lab (Inl SessPanic))"
proof -
  note inv = session_reach_inv [OF assms refl]
  have panic: False if step: "session_step s lab (Inl SessPanic)" for lab
    using step
  proof (cases rule: session_step.cases)
    case (completed r rs)
    then show False
      using completed_pending [OF inv, of r] session_send_cases(2) by (auto simp: on_completed_def split: option.splits)
  next
    case (incoming now m)
    then show False
      using session_send_cases(2) by (auto simp: on_incoming_def Let_def split: dash_body.splits if_splits)
  next
    case (heartbeat now)
    then show False using session_send_cases(2) by (auto simp: on_heartbeat_def split: if_splits)
  next
    case (check current)
    then show False by (auto simp: on_check_def split: sum.splits if_splits)
  qed
  have "length (ss_completed s) < 32" if "ss_running s \<noteq> []"
    using session_completed_bound [OF inv] that by (cases "ss_running s") auto
  then show ?thesis using inv panic by (auto simp: session_inv_def keys_distinct_def)
qed

section \<open>Every admitted query is answered once\<close>

definition label_count :: "session_label \<Rightarrow> session_label list \<Rightarrow> nat" where
  "label_count lab labs = length (filter (\<lambda>l. l = lab) labs)"

definition is_pending :: "string \<Rightarrow> session \<Rightarrow> nat" where
  "is_pending qid s = (if map_of (ss_pending s) qid = None then 0 else 1)"

lemma session_step_count:
  assumes "session_inv s" and "session_step s lab (Inr s')"
  shows "label_count (Answered qid) [lab] + is_pending qid s' = label_count (Admitted qid) [lab] + is_pending qid s"
  using assms(2)
proof (cases rule: session_step.cases)
  case (completed r rs)
  have res: "on_completed r (s\<lparr>ss_completed := rs\<rparr>) = Inr s'" using completed by simp
  obtain job where "map_of (ss_pending s) (nm_id r) = Some job"
    using completed_pending [OF assms(1), of r] completed by auto
  then show ?thesis
    using completed(1,3) res by (auto simp: on_completed_def label_count_def is_pending_def dest!: session_send_cases(1))
next
  case (incoming now m)
  then show ?thesis
    by (auto simp: on_incoming_def Let_def label_count_def is_pending_def
        split: dash_body.splits if_splits option.splits dest!: session_send_cases(1))
next
  case (heartbeat now)
  then have "session_send \<lparr>nm_id = '''', nm_body = NodeHeartbeat\<rparr> s = Inr s'"
    by (auto simp: on_heartbeat_def split: if_splits)
  from session_send_cases(1) [OF this] show ?thesis using heartbeat by (simp add: label_count_def is_pending_def)
next
  case (check current)
  then show ?thesis by (auto simp: on_check_def label_count_def is_pending_def split: sum.splits if_splits)
qed (auto simp: label_count_def is_pending_def)

lemma label_count_append: "label_count l (xs @ ys) = label_count l xs + label_count l ys"
  by (simp add: label_count_def)

lemma session_path_count:
  assumes "session_path s labs t" and "session_inv s"
  shows "session_inv t \<and>
    label_count (Answered qid) labs + is_pending qid t = label_count (Admitted qid) labs + is_pending qid s"
  using assms
proof (induction rule: session_path.induct)
  case (step s labs t lab u)
  then show ?case
    using session_step_inv session_step_count [of t lab u qid] by (auto simp: label_count_append)
qed (simp add: label_count_def)

lemma session_path_trans: "session_path t labs' u \<Longrightarrow> session_path s labs t \<Longrightarrow> session_path s (labs @ labs') u"
proof (induction rule: session_path.induct)
  case (step t labs' u lab v)
  then show ?case using session_path.step [of s "labs @ labs'" u lab v] by simp
qed simp

lemma session_path_first: "session_step s lab (Inr t) \<Longrightarrow> session_path t labs u \<Longrightarrow> session_path s (lab # labs) u"
  using session_path_trans [of t labs u s "[lab]"] session_path.step [OF session_path.start] by fastforce

text \<open>From every state the tasks, the loop and the writer can empty the session by themselves: the queue is
  written out, one result is taken from the channel, or a task hands one over.\<close>

definition session_load :: "session \<Rightarrow> nat" where
  "session_load s = 3 * length (ss_running s) + 2 * length (ss_completed s) + length (ss_outgoing s)"

lemma session_own_step:
  assumes "session_inv s" and "ss_pending s \<noteq> []"
  shows "\<exists>lab t. session_step s lab (Inr t) \<and> session_load t < session_load s \<and> (\<forall>qid. lab \<noteq> Admitted qid)"
proof -
  consider m ms where "ss_outgoing s = m # ms"
    | r rs where "ss_outgoing s = []" "ss_completed s = r # rs"
    | qid ids where "ss_completed s = []" "ss_running s = qid # ids"
    | "ss_completed s = []" "ss_running s = []"
    by (metis list.exhaust)
  then show ?thesis
  proof cases
    case (1 m ms)
    then show ?thesis using session_step.written [OF 1] by (fastforce simp: session_load_def)
  next
    case (2 r rs)
    let ?t = "s\<lparr>ss_completed := rs, ss_pending := AList.delete (nm_id r) (ss_pending s), ss_outgoing := [r]\<rparr>"
    have "on_completed r (s\<lparr>ss_completed := rs\<rparr>) = Inr ?t"
      using completed_pending [OF assms(1), of r] 2 by (auto simp: on_completed_def session_send_def)
    then have "session_step s (Answered (nm_id r)) (Inr ?t)" using session_step.completed [OF 2(2)] by simp
    then show ?thesis using 2 by (fastforce simp: session_load_def)
  next
    case (3 qid ids)
    then have "session_step s Silent (Inr (s\<lparr>ss_running := ids, ss_completed := [\<lparr>nm_id = qid, nm_body = NodeResult '''' ''source_unavailable''\<rparr>]\<rparr>))"
      using session_step.job_done [of qid s "\<lparr>nm_id = qid, nm_body = NodeResult '''' ''source_unavailable''\<rparr>"] by simp
    then show ?thesis using 3 by (fastforce simp: session_load_def)
  next
    case 4
    then show ?thesis using assms by (simp add: session_inv_def)
  qed
qed

lemma session_drains:
  "session_inv s \<Longrightarrow> \<exists>labs t. session_path s labs t \<and> ss_pending t = [] \<and> (\<forall>qid. Admitted qid \<notin> set labs)"
proof (induction "session_load s" arbitrary: s rule: less_induct)
  case less
  show ?case
  proof (cases "ss_pending s = []")
    case True
    then show ?thesis using session_path.start by fastforce
  next
    case False
    then obtain lab t where t: "session_step s lab (Inr t)" "session_load t < session_load s" "\<forall>qid. lab \<noteq> Admitted qid"
      using session_own_step less.prems by blast
    moreover have "session_inv t" by (rule session_step_inv [OF less.prems t(1)])
    ultimately obtain labs u where "session_path t labs u" "ss_pending u = []" "\<forall>qid. Admitted qid \<notin> set labs"
      using less.hyps by blast
    then show ?thesis using session_path_first [OF t(1)] t(3) by (intro exI [of _ "lab # labs"] exI [of _ u]) auto
  qed
qed

text \<open>C26. As long as a session lives, it answers no query twice and none that it did not admit: at every moment as
  many answers for an id have been queued as queries were admitted under it, but for the one that is
  still pending.  And it never gets stuck: from every reachable state the tasks, the loop and the writer
  can go on, without a further admission, until nothing is pending and each admitted query has been
  answered exactly once.  (When the session ends first, because of a failure or a full queue, the pending
  ones stay without an answer.)\<close>

theorem session_answers_once:
  assumes "session_path (new_session caps now) labs s"
  shows "label_count (Answered qid) labs + is_pending qid s = label_count (Admitted qid) labs \<and>
    (\<exists>labs' t. session_path s labs' t \<and> ss_pending t = [] \<and> (\<forall>q. Admitted q \<notin> set labs') \<and>
      (\<forall>q. label_count (Answered q) (labs @ labs') = label_count (Admitted q) labs))"
proof -
  have new: "session_inv (new_session caps now)" "is_pending q (new_session caps now) = 0" for q
    by (simp_all add: session_inv_def new_session_def is_pending_def)
  note now = session_path_count [OF assms new(1)]
  then obtain labs' t where t: "session_path s labs' t" "ss_pending t = []" "\<forall>q. Admitted q \<notin> set labs'"
    using session_drains by blast
  have "label_count (Answered q) (labs @ labs') = label_count (Admitted q) labs" for q
  proof -
    have "label_count (Answered q) (labs @ labs') + is_pending q t = label_count (Admitted q) (labs @ labs')"
      using session_path_count [OF session_path_trans [OF t(1) assms] new(1), of q] new(2) by simp
    moreover have "label_count (Admitted q) labs' = 0" using t(3) by (auto simp: label_count_def filter_empty_conv)
    ultimately show ?thesis using t(2) by (simp add: label_count_append is_pending_def)
  qed
  then show ?thesis using now new(2) t by auto
qed

section \<open>Reconnecting\<close>

text \<open>The loop of \<open>startSessions\<close>: what ends a session, and the wait before the next one.
  Each session comes with its own draw of \<open>rand.Int64N\<close>, a function from the bound to a number below it.\<close>

datatype session_result = SessionDone | SessionRejected | SessionBroken

definition classify_session :: "rpc_error option \<Rightarrow> bool \<Rightarrow> session_result" where
  "classify_session err stopped =
     (case err of
        None \<Rightarrow> SessionDone
      | Some e \<Rightarrow> if stopped then SessionDone else if rejected e then SessionRejected else SessionBroken)"

definition jitter_bound :: "duration \<Rightarrow> duration" where
  "jitter_bound delay = max 1 (delay div 4)"

text \<open>The waits after consecutive broken sessions, each given by its length and its draw.\<close>

fun session_waits :: "duration \<Rightarrow> (duration \<times> (int \<Rightarrow> int)) list \<Rightarrow> duration list" where
  "session_waits delay [] = []"
| "session_waits delay ((lasted, rand) # ss) =
     (let d = (if minute < lasted then second else delay)
      in (d + rand (jitter_bound d)) # session_waits (min (d * 2) minute) ss)"

text \<open>However often sessions break, the node waits at least a second and less than 75 seconds
  before it connects again.\<close>

theorem session_wait_bounds:
  assumes "second \<le> delay" and "delay \<le> minute"
    and "\<forall>(lasted, rand) \<in> set ss. \<forall>n > 0. 0 \<le> rand n \<and> rand n < n"
  shows "\<forall>w \<in> set (session_waits delay ss). second \<le> w \<and> w < 75 * second"
  using assms
proof (induction ss arbitrary: delay)
  case (Cons s ss)
  obtain lasted rand where s: "s = (lasted, rand)" by fastforce
  let ?d = "if minute < lasted then second else delay"
  have d: "second \<le> ?d" "?d \<le> minute" using Cons.prems by (auto simp: second_def minute_def)
  then have b: "0 < jitter_bound ?d" "jitter_bound ?d \<le> 15 * second"
    by (auto simp: jitter_bound_def second_def minute_def)
  then have "0 \<le> rand (jitter_bound ?d)" "rand (jitter_bound ?d) < jitter_bound ?d"
    using Cons.prems(3) by (auto simp: s)
  then have "second \<le> ?d + rand (jitter_bound ?d)" "?d + rand (jitter_bound ?d) < 75 * second"
    using d b by (simp_all add: second_def minute_def)
  moreover have "second \<le> min (?d * 2) minute" "min (?d * 2) minute \<le> minute"
    using d by (auto simp: second_def minute_def)
  ultimately show ?case
    using Cons.IH [of "min (?d * 2) minute"] Cons.prems(3) unfolding s session_waits.simps Let_def
    by (simp only: list.set ball_simps) simp
qed simp

section \<open>Concrete instances\<close>

definition demo_query :: history_query where
  "demo_query = \<lparr>hq_vmid = 100, hq_timeframe = ''hour'', hq_consolidation = ''MAX''\<rparr>"

definition demo_caps :: capabilities where "demo_caps = \<lparr>cap_version = ''1'', cap_history = True\<rparr>"

lemma demo_admit:
  "\<exists>s. session_path (new_session demo_caps 0) [Admitted ''q''] s \<and> ss_running s = [''q'']"
proof -
  let ?m = "\<lparr>dm_id = ''q'', dm_body = DashHistory demo_query 500\<rparr>"
  have "fst (on_incoming 1 ?m (new_session demo_caps 0)) = Admitted ''q'' \<and>
      map_sum (\<lambda>_. ()) ss_running (snd (on_incoming 1 ?m (new_session demo_caps 0))) = Inr [''q'']"
    by code_simp
  then obtain s where s: "on_incoming 1 ?m (new_session demo_caps 0) = (Admitted ''q'', Inr s)" "ss_running s = [''q'']"
    by (cases "on_incoming 1 ?m (new_session demo_caps 0)"; cases "snd (on_incoming 1 ?m (new_session demo_caps 0))") auto
  have "session_path (new_session demo_caps 0) ([] @ [Admitted ''q'']) s"
    by (rule session_path.step [OF session_path.start]) (rule session_step.incoming [OF s(1)])
  then show ?thesis using s(2) by auto
qed

theorem session_safe_witness:
  "\<exists>s. session_path (new_session demo_caps 0) [Admitted ''q''] s \<and> length (ss_pending s) \<le> 32 \<and>
     length (ss_completed s) < 32"
proof -
  obtain s where s: "session_path (new_session demo_caps 0) [Admitted ''q''] s" "ss_running s = [''q'']"
    using demo_admit by blast
  show ?thesis using session_safe [OF s(1)] s by auto
qed

theorem session_answers_once_witness:
  "\<exists>s labs' t. session_path (new_session demo_caps 0) [Admitted ''q''] s \<and> is_pending ''q'' s = 1 \<and>
     session_path s labs' t \<and> ss_pending t = [] \<and> label_count (Answered ''q'') labs' = 1"
proof -
  obtain s where s: "session_path (new_session demo_caps 0) [Admitted ''q''] s" using demo_admit by blast
  have "is_pending ''q'' s = 1" using session_answers_once [OF s, of "''q''"] by (simp add: label_count_def)
  moreover obtain labs' t where "session_path s labs' t" "ss_pending t = []"
      "\<forall>q. label_count (Answered q) ([Admitted ''q''] @ labs') = label_count (Admitted q) [Admitted ''q'']"
    using session_answers_once [OF s, of "''q''"] by blast
  moreover from this(3) have "label_count (Answered ''q'') labs' = 1" by (auto simp: label_count_def)
  ultimately show ?thesis using s by blast
qed

theorem session_wait_bounds_witness:
  "\<forall>w \<in> set (session_waits second [(5, \<lambda>n. n - 1), (61 * second, \<lambda>n. 0)]). second \<le> w \<and> w < 75 * second"
  by (rule session_wait_bounds) (auto simp: second_def minute_def)

end
