(* ===== verification/PveGuest.thy ===== *)
theory PveGuest
  imports "HOL-Library.Char_ord" "HOL-Library.List_Lexorder" "HOL-Library.Product_Lexorder" GoFs VirtSnapshot
begin

text \<open>
  Guest addresses: the retry state of every VM's guest agent on disk (\<open>internal/pve/guest_cache.go\<close>), the
  pool that queries agents, the addresses decoded from an agent (\<open>guest.go\<close>) and their way into
  the snapshot.  The JSON codec, the result of each query and the clock are inputs.
\<close>

section \<open>The state of a guest on disk\<close>

record guest_state =
  gs_host :: string
  gs_next :: time
  gs_failures :: int
  gs_start :: int
  gs_agent :: string
  gs_collected :: time
  gs_ips :: "string list"

definition zero_guest :: guest_state where
  "zero_guest = \<lparr>gs_host = '''', gs_next = time_zero, gs_failures = 0, gs_start = 0, gs_agent = '''',
     gs_collected = time_zero, gs_ips = []\<rparr>"

text \<open>One use of the file: the codec, whether the read fails, the temporary name and the failing calls.\<close>

record guest_env =
  gv_encode :: "guest_state \<Rightarrow> string option"
  gv_decode :: "string \<Rightarrow> guest_state option"
  gv_read_fails :: bool
  gv_tmp :: path
  gv_faults :: fs_oracle

definition guest_path :: "path \<Rightarrow> int \<Rightarrow> path" where
  "guest_path dir i = dir @ [itoa i @ ''.json'']"

definition read_guest :: "guest_env \<Rightarrow> path \<Rightarrow> fsys \<Rightarrow> guest_state option" where
  "read_guest env p fs =
     (case fs p of
        None \<Rightarrow> Some zero_guest
      | Some (RegFile text mode) \<Rightarrow> if gv_read_fails env then None else gv_decode env text
      | Some _ \<Rightarrow> None)"

definition guest_prep :: "path \<Rightarrow> string \<Rightarrow> fop list" where
  "guest_prep tmp raw = [CreateTemp tmp, WriteTo tmp raw, CloseFile tmp]"

definition write_guest :: "guest_env \<Rightarrow> path \<Rightarrow> guest_state \<Rightarrow> fsys \<Rightarrow> fsys \<times> bool" where
  "write_guest env p st fs =
     (case gv_encode env st of
        None \<Rightarrow> (fs, False)
      | Some raw \<Rightarrow>
          (case run_ops (gv_faults env) (guest_prep (gv_tmp env) raw @ [RenameTo (gv_tmp env) p]) fs of
             (fs1, None) \<Rightarrow> (fs_ignore (gv_faults env) (TryRemove (gv_tmp env)) fs1, True)
           | (fs1, Some (CreateTemp _)) \<Rightarrow> (fs1, False)
           | (fs1, Some _) \<Rightarrow> (fs_ignore (gv_faults env) (TryRemove (gv_tmp env)) fs1, False)))"

interpretation guest_pub: publisher guest_prep mode_0600
proof
  show "op_paths oper \<subseteq> {tmp}" if "oper \<in> set (guest_prep tmp data)" for oper tmp data
    using that by (auto simp: guest_prep_def)
  show "fs' tmp = Some (RegFile data mode_0600)"
    if "fs tmp = None" and "run_ops fails (guest_prep tmp data) fs = (fs', None)" for fs tmp fails data fs'
    using that
    by (auto simp: guest_prep_def run_ops_Cons_ok simp del: run_ops.simps(2) dest!: fs_step_ok split: option.splits)
qed

section \<open>Querying one guest\<close>

record guest_target =
  gt_id :: int
  gt_start :: int
  gt_agent :: string

text \<open>The delays \<open>[]time.Duration{time.Minute, 2 * time.Minute, 5 * time.Minute}\<close>; an index out of
  range panics.\<close>

definition guest_backoff :: "int \<Rightarrow> duration option" where
  "guest_backoff i =
     (if i = 0 then Some minute else if i = 1 then Some (2 * minute) else if i = 2 then Some (5 * minute) else None)"

datatype guest_result = GuestDone | GuestSkipped | GuestStopped | GuestError | GuestPanic

text \<open>The first half of \<open>queryGuest\<close>: it reserves the next attempt on disk.  \<open>Inr\<close> holds the state before and
  the reservation; then the agent is queried.\<close>

definition guest_reserve ::
  "guest_env \<Rightarrow> path \<Rightarrow> time \<Rightarrow> bool \<Rightarrow> fsys \<Rightarrow> fsys \<times> (guest_result + guest_state \<times> guest_state)" where
  "guest_reserve env p now stopped fs =
     (case read_guest env p fs of
        None \<Rightarrow> (fs, Inl GuestError)
      | Some st \<Rightarrow>
          if stopped then (fs, Inl GuestStopped)
          else if now < gs_next st then (fs, Inl GuestSkipped)
          else
            (let failures = min (wrap64 (max (gs_failures st) 0 + 1)) 3 in
             case guest_backoff (failures - 1) of
               None \<Rightarrow> (fs, Inl GuestPanic)
             | Some delay \<Rightarrow>
                 (let st1 = st\<lparr>gs_failures := failures, gs_next := time_add now delay\<rparr> in
                  case write_guest env p st1 fs of
                    (fs1, False) \<Rightarrow> (fs1, Inl GuestError)
                  | (fs1, True) \<Rightarrow> (fs1, Inr (st, st1)))))"

text \<open>The second half, with the result of the agent (\<open>None\<close> is an error) and whether the context ended.\<close>

definition guest_settle ::
  "guest_env \<Rightarrow> path \<Rightarrow> string \<Rightarrow> guest_target \<Rightarrow> time \<Rightarrow> bool \<Rightarrow> string list option \<Rightarrow>
   guest_state \<times> guest_state \<Rightarrow> fsys \<Rightarrow> fsys \<times> guest_result" where
  "guest_settle env p host target now stopped answer = (\<lambda>(before, st) fs.
     if stopped
     then (fst (write_guest env p (before\<lparr>gs_next := time_add now (3 * second)\<rparr>) fs), GuestStopped)
     else case answer of
       None \<Rightarrow> (fs, GuestError)
     | Some ips \<Rightarrow>
         (case write_guest env p
                 (st\<lparr>gs_host := host, gs_start := gt_start target, gs_agent := gt_agent target, gs_ips := ips,
                     gs_collected := now, gs_failures := 0, gs_next := time_add now minute\<rparr>) fs of
            (fs1, False) \<Rightarrow> (fs1, GuestError)
          | (fs1, True) \<Rightarrow> (fs1, GuestDone)))"

definition query_guest ::
  "guest_env \<Rightarrow> guest_env \<Rightarrow> path \<Rightarrow> string \<Rightarrow> guest_target \<Rightarrow> time \<times> bool \<Rightarrow> time \<times> bool \<Rightarrow>
   string list option \<Rightarrow> fsys \<Rightarrow> fsys \<times> guest_result" where
  "query_guest env1 env2 dir host target before after answer fs =
     (case guest_reserve env1 (guest_path dir (gt_id target)) (fst before) (snd before) fs of
        (fs1, Inl r) \<Rightarrow> (fs1, r)
      | (fs1, Inr states) \<Rightarrow>
          guest_settle env2 (guest_path dir (gt_id target)) host target (fst after) (snd after) answer states fs1)"

section \<open>One round over all guests\<close>

record candidate =
  cd_target :: guest_target
  cd_next :: time
  cd_priority :: nat

definition guest_priority :: "guest_state \<Rightarrow> nat" where
  "guest_priority st =
     (if 0 < gs_failures st then 2 else if is_zero_time (gs_collected st) then 1 else 0)"

text \<open>The loop of \<open>collectGuests\<close> over the targets; \<open>None\<close> when a state cannot be reset.\<close>

fun guest_candidates ::
  "guest_env \<Rightarrow> path \<Rightarrow> string \<Rightarrow> time \<Rightarrow> guest_target list \<Rightarrow> fsys \<Rightarrow> fsys \<times> candidate list option" where
  "guest_candidates env dir host now [] fs = (fs, Some [])"
| "guest_candidates env dir host now (t # ts) fs =
     (case read_guest env (guest_path dir (gt_id t)) fs of
        None \<Rightarrow> guest_candidates env dir host now ts fs
      | Some st0 \<Rightarrow>
          (let changed = (gs_host st0 \<noteq> host \<or> gs_start st0 \<noteq> gt_start t \<or> gs_agent st0 \<noteq> gt_agent t);
               st = (if changed then zero_guest\<lparr>gs_host := host, gs_start := gt_start t, gs_agent := gt_agent t\<rparr>
                     else st0);
               (fs1, ok) = (if changed then write_guest env (guest_path dir (gt_id t)) st fs else (fs, True))
           in if \<not> ok then (fs1, None)
              else if gt_agent t = '''' \<or> now < gs_next st then guest_candidates env dir host now ts fs1
              else (case guest_candidates env dir host now ts fs1 of
                      (fs2, None) \<Rightarrow> (fs2, None)
                    | (fs2, Some cs) \<Rightarrow>
                        (fs2, Some (\<lparr>cd_target = t, cd_next = gs_next st, cd_priority = guest_priority st\<rparr> # cs)))))"

definition order_candidates :: "candidate list \<Rightarrow> candidate list" where
  "order_candidates cs = sort_key (\<lambda>c. (cd_priority c, cd_next c)) cs"

text \<open>The pool: eight workers take jobs in order; a retry needs one of two slots and is dropped without one.
  Once the context ended, jobs may be skipped.\<close>

record guest_pool =
  gp_queue :: "candidate list"
  gp_running :: "candidate list"
  gp_dropped :: "candidate list"
  gp_stopped :: bool

abbreviation "is_retry c \<equiv> cd_priority c = 2"

inductive pool_step :: "guest_pool \<Rightarrow> guest_pool \<Rightarrow> bool" where
  take_job: "\<lbrakk>gp_queue s = j # js; length (gp_running s) < 8;
      \<not> is_retry j \<or> length (filter is_retry (gp_running s)) < 2\<rbrakk> \<Longrightarrow>
     pool_step s (s\<lparr>gp_queue := js, gp_running := j # gp_running s\<rparr>)"
| drop_job: "\<lbrakk>gp_queue s = j # js; length (gp_running s) < 8; is_retry j;
      \<not> length (filter is_retry (gp_running s)) < 2\<rbrakk> \<Longrightarrow>
     pool_step s (s\<lparr>gp_queue := js, gp_dropped := j # gp_dropped s\<rparr>)"
| stop_pool: "pool_step s (s\<lparr>gp_stopped := True\<rparr>)"
| skip_job: "\<lbrakk>gp_queue s = j # js; length (gp_running s) < 8; gp_stopped s\<rbrakk> \<Longrightarrow> pool_step s (s\<lparr>gp_queue := js\<rparr>)"
| finish_job: "j \<in> set (gp_running s) \<Longrightarrow> pool_step s (s\<lparr>gp_running := remove1 j (gp_running s)\<rparr>)"

definition start_pool :: "candidate list \<Rightarrow> guest_pool" where
  "start_pool cs = \<lparr>gp_queue = order_candidates cs, gp_running = [], gp_dropped = [], gp_stopped = False\<rparr>"

section \<open>Addresses\<close>

text \<open>\<open>decodeIPs\<close>: \<open>interfaces\<close> is the decoded reply (\<open>None\<close> for JSON null), \<open>global\<close> is
  \<open>IsGlobalUnicast\<close> of an unmapped address.\<close>

fun collect_ips :: "addr_parser \<Rightarrow> (string \<Rightarrow> bool) \<Rightarrow> string list \<Rightarrow> string list \<Rightarrow> string list option" where
  "collect_ips parse_addr global [] ips = Some ips"
| "collect_ips parse_addr global (raw # raws) ips =
     (case parse_addr raw of
        None \<Rightarrow> collect_ips parse_addr global raws ips
      | Some ip \<Rightarrow>
          if ia_zone ip \<noteq> '''' then collect_ips parse_addr global raws ips
          else if \<not> global (ia_unmap ip) \<or> ia_unmap ip \<in> set ips then collect_ips parse_addr global raws ips
          else if length ips = 1024 then None
          else collect_ips parse_addr global raws (ips @ [ia_unmap ip]))"

definition decode_ips :: "addr_parser \<Rightarrow> (string \<Rightarrow> bool) \<Rightarrow> string list list option \<Rightarrow> string list option" where
  "decode_ips parse_addr global interfaces =
     (case interfaces of
        None \<Rightarrow> None
      | Some addrs \<Rightarrow> map_option sort (collect_ips parse_addr global (concat addrs) []))"

definition guest_eligible :: "vm \<Rightarrow> bool" where
  "guest_eligible v \<longleftrightarrow> vm_status v = ''running'' \<and> \<not> vm_template v \<and> vm_qmp v = ''running''"

definition guest_ttl :: duration where "guest_ttl = 15 * minute"

text \<open>The body of \<open>AttachGuestIPs\<close> for one VM; \<open>read\<close> gives the state of a VM's file.\<close>

definition attach_guest_ips :: "(int \<Rightarrow> guest_state option) \<Rightarrow> string \<Rightarrow> time \<Rightarrow> vm \<Rightarrow> vm" where
  "attach_guest_ips read host now v0 =
     (let v = v0\<lparr>vm_ips := [], vm_ips_collected := None, vm_ips_ttl := 0\<rparr> in
      if \<not> guest_eligible v then v
      else case read (vm_id v) of
        None \<Rightarrow> v
      | Some st \<Rightarrow>
          if gs_host st \<noteq> host \<or> is_zero_time (gs_collected st) \<or> now < gs_collected st \<or>
             guest_ttl < time_sub now (gs_collected st) then v
          else case (vm_uptime v, vm_collected v) of
            (Some up, Some sampled) \<Rightarrow>
              if gs_collected st < time_add sampled (secs (- up)) then v
              else v\<lparr>vm_ips := gs_ips st, vm_ips_collected := Some (gs_collected st),
                     vm_ips_ttl := guest_ttl div second\<rparr>
          | _ \<Rightarrow> v)"

text \<open>The start of \<open>CollectGuests\<close>: a round needs a fresh, successful inventory.\<close>

definition guests_allowed :: "time \<Rightarrow> snapshot \<Rightarrow> bool" where
  "guests_allowed now s \<longleftrightarrow>
     \<not> (sn_status s \<noteq> ''ok'' \<or> now < sn_collected s \<or> secs (sn_ttl s) < time_sub now (sn_collected s))"

text \<open>The targets of a round; \<open>config\<close> is the agent setting of a VM and \<open>proc\<close> its start time, if readable.\<close>

definition guest_targets ::
  "(int \<Rightarrow> string option) \<Rightarrow> (int \<Rightarrow> int option) \<Rightarrow> vm list \<Rightarrow> guest_target list" where
  "guest_targets config proc vms =
     concat (map (\<lambda>v. if \<not> guest_eligible v then []
                      else case (config (vm_id v), proc (vm_id v)) of
                        (Some agent, Some start) \<Rightarrow> [\<lparr>gt_id = vm_id v, gt_start = start, gt_agent = agent\<rparr>]
                      | _ \<Rightarrow> []) vms)"

section \<open>The reservation\<close>

text \<open>What the codec must keep: the instant of the next attempt, which JSON carries to the nanosecond.\<close>

definition keeps_next :: "guest_env \<Rightarrow> bool" where
  "keeps_next env \<longleftrightarrow>
     (\<forall>st raw. gv_encode env st = Some raw \<longrightarrow> (\<exists>st'. gv_decode env raw = Some st' \<and> gs_next st' = gs_next st))"

lemma write_guest_ok:
  assumes "write_guest env p st fs = (fs', True)" and "fs (gv_tmp env) = None" and "gv_tmp env \<noteq> p"
  obtains raw where "gv_encode env st = Some raw" and "fs' p = Some (RegFile raw mode_0600)"
proof -
  obtain raw fs1 where raw: "gv_encode env st = Some raw"
    and run: "run_ops (gv_faults env) (guest_prep (gv_tmp env) raw @ [RenameTo (gv_tmp env) p]) fs = (fs1, None)"
    and fs': "fs' = fs_ignore (gv_faults env) (TryRemove (gv_tmp env)) fs1"
    using assms(1) by (auto simp: write_guest_def split: option.splits prod.splits fop.splits)
  have "fs1 p = Some (RegFile raw mode_0600)" by (rule guest_pub.publish_success(1) [OF assms(2,3) run])
  then have "fs' p = Some (RegFile raw mode_0600)" using assms(3) unfolding fs' by simp
  then show thesis using raw that by blast
qed

lemma write_guest_crash:
  assumes "fs (gv_tmp env) = None" and "gv_tmp env \<noteq> p"
    and "fs' \<in> set (crash_states (gv_faults env) (guest_prep (gv_tmp env) raw @ [RenameTo (gv_tmp env) p]) fs)"
  shows "fs' p = fs p \<or> fs' p = Some (RegFile raw mode_0600)"
  by (rule guest_pub.publish_crash [OF assms])

lemma guest_backoff_Some: "guest_backoff i = Some d \<Longrightarrow> 0 \<le> i \<and> i \<le> 2 \<and> minute \<le> d"
  by (auto simp: guest_backoff_def minute_def split: if_splits)

lemma guest_reserve_ok:
  assumes "guest_reserve env p now stopped fs = (fs', Inr (st, st1))" and "fs (gv_tmp env) = None" and "gv_tmp env \<noteq> p"
  shows "\<exists>raw. gv_encode env st1 = Some raw \<and> fs' p = Some (RegFile raw mode_0600)"
    and "time_add now minute \<le> gs_next st1" and "1 \<le> gs_failures st1" and "gs_failures st1 \<le> 3"
proof -
  obtain delay where w: "write_guest env p st1 fs = (fs', True)"
    and d: "guest_backoff (gs_failures st1 - 1) = Some delay" and n: "gs_next st1 = time_add now delay"
    using assms(1) by (auto simp: guest_reserve_def Let_def split: option.splits if_splits prod.splits bool.splits)
  show "\<exists>raw. gv_encode env st1 = Some raw \<and> fs' p = Some (RegFile raw mode_0600)"
    using write_guest_ok [OF w assms(2,3)] by metis
  show "time_add now minute \<le> gs_next st1" "1 \<le> gs_failures st1" "gs_failures st1 \<le> 3"
    using guest_backoff_Some [OF d] n by (auto simp: time_add_def)
qed

lemma write_guest_failed:
  assumes "write_guest env p st fs = (fs', False)" and "fs (gv_tmp env) = None" and "gv_tmp env \<noteq> p"
  shows "fs' p = fs p"
  using assms guest_pub.publish_failure [where path = p and tmp = "gv_tmp env" and fs = fs]
  by (force simp: write_guest_def split: option.splits prod.splits fop.splits)

lemma write_guest_file:
  assumes "fs (gv_tmp env) = None" and "gv_tmp env \<noteq> p" and "keeps_next env" and "fs' = fst (write_guest env p st fs)"
    and "gv_decode env2 = gv_decode env" and "\<not> gv_read_fails env2"
  shows "fs' p = fs p \<or> (\<exists>st'. read_guest env2 p fs' = Some st' \<and> gs_next st' = gs_next st)"
proof (cases "write_guest env p st fs")
  case (Pair fs1 ok)
  show ?thesis
  proof (cases ok)
    case True
    then have "write_guest env p st fs = (fs1, True)" using Pair by simp
    then obtain raw where "gv_encode env st = Some raw" "fs1 p = Some (RegFile raw mode_0600)"
      by (rule write_guest_ok [where env = env and p = p and fs = fs]) (use assms(1,2) in auto)
    then show ?thesis using Pair assms(3-6) by (fastforce simp: read_guest_def keeps_next_def)
  next
    case False
    then show ?thesis using write_guest_failed [where env = env and p = p and fs = fs and st = st and fs' = fs1] Pair assms by simp
  qed
qed

text \<open>The file after a reservation and anything that can come of it.\<close>

lemma guest_state_after:
  assumes "guest_reserve env p t0 False fs = (fs1, Inr (before, st))" and "fs (gv_tmp env) = None" and "gv_tmp env \<noteq> p"
    and "keeps_next env" and "keeps_next env2" and "fs1 (gv_tmp env2) = None" and "gv_tmp env2 \<noteq> p"
    and "fs2 p = fs1 p \<or> fs2 p = fst (guest_settle env2 p host target t1 stopped answer (before, st) fs1) p"
    and "gv_decode env2 = gv_decode env" "gv_decode env3 = gv_decode env" and "\<not> gv_read_fails env3" and "t0 \<le> t1"
  shows "\<exists>st'. read_guest env3 p fs2 = Some st' \<and>
    (if stopped then min (t0 + minute) (t1 + 3 * second) else t0 + minute) \<le> gs_next st'"
proof -
  note ok = guest_reserve_ok [where env = env and p = p and fs = fs, OF assms(1-3)]
  have kept: "\<exists>st'. read_guest env3 p fs2 = Some st' \<and> gs_next st' = gs_next st" if "fs2 p = fs1 p"
    using ok(1) that assms(4,10,11) by (fastforce simp: read_guest_def keeps_next_def)
  have same: "read_guest env3 p fs2 = read_guest env3 p fs'" if "fs2 p = fs' p" for fs'
    using that by (simp add: read_guest_def)
  show ?thesis
  proof (cases "fs2 p = fs1 p")
    case True
    then show ?thesis using kept ok(2) by (auto simp: time_add_def)
  next
    case False
    define new where "new = (if stopped then before\<lparr>gs_next := time_add t1 (3 * second)\<rparr>
      else st\<lparr>gs_host := host, gs_start := gt_start target, gs_agent := gt_agent target, gs_ips := the answer,
        gs_collected := t1, gs_failures := 0, gs_next := time_add t1 minute\<rparr>)"
    have "fst (guest_settle env2 p host target t1 stopped answer (before, st) fs1) \<in>
        {fs1, fst (write_guest env2 p new fs1)}"
      by (auto simp: guest_settle_def new_def split: option.split prod.split bool.split)
    then have "fs2 p = fst (write_guest env2 p new fs1) p" using assms(8) False by auto
    moreover from this have "\<exists>st'. read_guest env3 p (fst (write_guest env2 p new fs1)) = Some st' \<and> gs_next st' = gs_next new"
      using write_guest_file [where env = env2 and p = p and fs = fs1 and st = new and ?env2.0 = env3, OF _ _ _ refl]
        assms(5-7,9-11) False by simp
    ultimately obtain st' where "read_guest env3 p fs2 = Some st'" "gs_next st' = gs_next new" using same by metis
    then show ?thesis using assms(12) by (auto simp: new_def time_add_def minute_def second_def)
  qed
qed

text \<open>C34. How often an agent is asked, as long as the file can be read and the clock does not step back.  A query is started only after its reservation is in the VM's file.
  Whatever becomes of it (the agent answers or fails, the helper dies, or the second write does not happen or
  is cut off at any point), the file left behind keeps every process from asking this agent again for a
  minute after the query started; when the query was cut short because its round ended, for three
  seconds.  An attempt in that time is skipped, and a round does not consider the VM at all, unless the
  file belongs to another host, an earlier boot of the VM or another setting of its agent.\<close>

theorem guest_query_rate:
  assumes "guest_reserve env (guest_path dir (gt_id vm)) t0 False fs = (fs1, Inr states)"
    and "fs (gv_tmp env) = None" and "gv_tmp env \<noteq> guest_path dir (gt_id vm)"
    and "fs1 (gv_tmp env2) = None" and "gv_tmp env2 \<noteq> guest_path dir (gt_id vm)"
    and "fs2 (guest_path dir (gt_id vm)) = fs1 (guest_path dir (gt_id vm)) \<or>
      fs2 (guest_path dir (gt_id vm)) =
        fst (guest_settle env2 (guest_path dir (gt_id vm)) host target t1 stopped answer states fs1) (guest_path dir (gt_id vm))"
    and "keeps_next env" "keeps_next env2" "gv_decode env2 = gv_decode env" "gv_decode env3 = gv_decode env"
    and "\<not> gv_read_fails env3" and "t0 \<le> t1"
    and "now < (if stopped then min (t0 + minute) (t1 + 3 * second) else t0 + minute)"
  shows "guest_reserve env3 (guest_path dir (gt_id vm)) now False fs2 = (fs2, Inl GuestSkipped) \<and>
    (\<exists>st. read_guest env3 (guest_path dir (gt_id vm)) fs2 = Some st \<and>
       (gs_host st = host' \<and> gs_start st = gt_start vm \<and> gs_agent st = gt_agent vm \<longrightarrow>
          guest_candidates env3 dir host' now [vm] fs2 = (fs2, Some [])))"
proof -
  obtain before st where states: "states = (before, st)" by fastforce
  obtain st' where "read_guest env3 (guest_path dir (gt_id vm)) fs2 = Some st'"
    "(if stopped then min (t0 + minute) (t1 + 3 * second) else t0 + minute) \<le> gs_next st'"
    using guest_state_after [where env = env and fs = fs and p = "guest_path dir (gt_id vm)" and ?env2.0 = env2 and ?env3.0 = env3
      and stopped = stopped and ?fs2.0 = fs2] assms unfolding states by blast
  moreover from this have "now < gs_next st'" using assms(13) by simp
  ultimately show ?thesis by (simp add: guest_reserve_def)
qed

text \<open>The reservation never indexes the table of delays out of range, unless the file claims the
  largest failure count an \<open>int\<close> can hold; there the sum overflows.\<close>

theorem guest_reserve_panics_iff:
  assumes "read_guest env p fs = Some st" and "is_int64 (gs_failures st)" and "gs_next st \<le> now"
  shows "guest_reserve env p now False fs = (fs, Inl GuestPanic) \<longleftrightarrow> gs_failures st = max_int64"
proof -
  let ?n = "wrap64 (max (gs_failures st) 0 + 1)"
  have le: "gs_failures st \<le> max_int64" using assms(2) by (simp add: is_int64_def)
  have wrap: "?n = (if gs_failures st = max_int64 then min_int64 else max (gs_failures st) 0 + 1)"
    using le by (auto simp: wrap64_def max_int64_def min_int64_def max_def)
  have table: "guest_backoff (min k 3 - 1) = None \<longleftrightarrow> k < 1" for k
    by (auto simp: guest_backoff_def)
  have "guest_backoff (min ?n 3 - 1) = None \<longleftrightarrow> gs_failures st = max_int64"
    unfolding table wrap by (auto simp: min_int64_def)
  then show ?thesis
    using assms(1,3)
    by (auto simp: guest_reserve_def Let_def split: option.splits prod.splits bool.splits)
qed

section \<open>The pool\<close>

lemma order_sorted: "sorted (map (\<lambda>c. (cd_priority c, cd_next c)) (order_candidates cs))"
  by (simp add: order_candidates_def)

definition pool_inv :: "guest_pool \<Rightarrow> bool" where
  "pool_inv s \<longleftrightarrow>
     length (gp_running s) \<le> 8 \<and> length (filter is_retry (gp_running s)) \<le> 2 \<and>
     sorted (map (\<lambda>c. (cd_priority c, cd_next c)) (gp_queue s)) \<and>
     (\<forall>c \<in> set (gp_running s) \<union> set (gp_dropped s). \<forall>d \<in> set (gp_queue s).
        (cd_priority c, cd_next c) \<le> (cd_priority d, cd_next d)) \<and>
     (\<forall>c \<in> set (gp_dropped s). is_retry c)"

lemma pool_step_inv: "pool_step s t \<Longrightarrow> pool_inv s \<Longrightarrow> pool_inv t"
proof (induction rule: pool_step.induct)
  case (take_job s j js)
  then show ?case by (auto simp: pool_inv_def)
next
  case (drop_job s j js)
  then show ?case by (auto simp: pool_inv_def)
next
  case (stop_pool s)
  then show ?case by (simp add: pool_inv_def)
next
  case (skip_job s j js)
  then show ?case by (auto simp: pool_inv_def)
next
  case (finish_job j s)
  have "length (filter is_retry (remove1 j (gp_running s))) \<le> length (filter is_retry (gp_running s))"
    by (simp add: filter_remove1 length_remove1)
  then show ?case
    using finish_job set_remove1_subset [of j "gp_running s"]
    by (auto simp: pool_inv_def length_remove1 split: if_splits)
qed

text \<open>A round never runs more than eight queries at once nor more than two retries of failing
  agents, and healthy guests come first: a query that runs or was dropped is not behind any that
  still waits, and only retries are dropped.\<close>

theorem guest_pool_bounded:
  assumes "pool_step\<^sup>*\<^sup>* (start_pool cs) s"
  shows "length (gp_running s) \<le> 8 \<and> length (filter is_retry (gp_running s)) \<le> 2 \<and>
    (\<forall>c \<in> set (gp_running s) \<union> set (gp_dropped s). \<forall>d \<in> set (gp_queue s). cd_priority c \<le> cd_priority d) \<and>
    (\<forall>c \<in> set (gp_dropped s). is_retry c)"
proof -
  have "pool_inv s"
    using assms
  proof (induction rule: rtranclp_induct)
    case base
    then show ?case using order_sorted by (simp add: pool_inv_def start_pool_def)
  next
    case (step s t)
    then show ?case using pool_step_inv by blast
  qed
  moreover have "(a, b) \<le> (c, d) \<Longrightarrow> a \<le> c" for a c :: nat and b d :: time by auto
  ultimately show ?thesis unfolding pool_inv_def by blast
qed

section \<open>Addresses in the snapshot\<close>

text \<open>What \<open>netip\<close> documents: the text of an unmapped address parses to itself, without a zone.\<close>

definition unmap_canonical :: "addr_parser \<Rightarrow> (string \<Rightarrow> bool) \<Rightarrow> bool" where
  "unmap_canonical parse_addr global \<longleftrightarrow>
     (\<forall>raw ip. parse_addr raw = Some ip \<longrightarrow> ia_zone ip = '''' \<longrightarrow>
        parse_addr (ia_unmap ip) = Some \<lparr>ia_zone = '''', ia_global_unicast = global (ia_unmap ip), ia_unmap = ia_unmap ip\<rparr>)"

definition canonical_ips :: "addr_parser \<Rightarrow> string list \<Rightarrow> bool" where
  "canonical_ips parse_addr ips \<longleftrightarrow>
     length ips \<le> 1024 \<and> distinct ips \<and>
     (\<forall>s \<in> set ips. parse_addr s = Some \<lparr>ia_zone = '''', ia_global_unicast = True, ia_unmap = s\<rparr>)"

lemma collect_ips_canonical:
  assumes "unmap_canonical parse_addr global" and "canonical_ips parse_addr ips"
    and "collect_ips parse_addr global raws ips = Some out"
  shows "canonical_ips parse_addr out"
  using assms(2,3)
proof (induction raws arbitrary: ips)
  case (Cons raw raws)
  show ?case
  proof (cases "parse_addr raw")
    case None
    then show ?thesis using Cons by simp
  next
    case (Some ip)
    show ?thesis
    proof (cases "ia_zone ip \<noteq> '''' \<or> \<not> global (ia_unmap ip) \<or> ia_unmap ip \<in> set ips")
      case True
      then show ?thesis using Cons Some by (auto split: if_splits)
    next
      case False
      then have "length ips < 1024" and rest: "collect_ips parse_addr global raws (ips @ [ia_unmap ip]) = Some out"
        using Cons.prems Some by (auto simp: canonical_ips_def split: if_splits)
      moreover have "parse_addr (ia_unmap ip) = Some \<lparr>ia_zone = '''', ia_global_unicast = True, ia_unmap = ia_unmap ip\<rparr>"
        using assms(1) Some False by (auto simp: unmap_canonical_def)
      ultimately have "canonical_ips parse_addr (ips @ [ia_unmap ip])"
        using Cons.prems(1) False by (auto simp: canonical_ips_def)
      then show ?thesis using Cons.IH rest by blast
    qed
  qed
qed simp

lemma canonical_ips_ok: "canonical_ips parse_addr ips \<Longrightarrow> ips_ok parse_addr ips"
proof -
  assume c: "canonical_ips parse_addr ips"
  then have "map (\<lambda>raw. map_option ia_unmap (parse_addr raw)) ips = map Some ips"
    by (auto simp: canonical_ips_def)
  then have "distinct (map (\<lambda>raw. map_option ia_unmap (parse_addr raw)) ips)"
    using c by (auto simp: canonical_ips_def distinct_map intro!: inj_onI)
  then show ?thesis using c by (simp add: ips_ok_def canonical_ips_def list_all_iff)
qed

lemma canonical_ips_sort: "canonical_ips parse_addr ips \<Longrightarrow> canonical_ips parse_addr (sort ips)"
  by (simp add: canonical_ips_def)

text \<open>The addresses decoded from a guest are sorted and pass the validation of the snapshot: at most
  1024 distinct global addresses without a zone, also when the guest reports mapped duplicates.\<close>

theorem decoded_ips_valid:
  assumes "unmap_canonical parse_addr global" and "decode_ips parse_addr global interfaces = Some ips"
  shows "ips_ok parse_addr ips \<and> sorted ips"
proof -
  obtain out where out: "collect_ips parse_addr global (concat (the interfaces)) [] = Some out" "ips = sort out"
    using assms(2) by (auto simp: decode_ips_def split: option.splits)
  have "canonical_ips parse_addr []" by (simp add: canonical_ips_def)
  from collect_ips_canonical [OF assms(1) this out(1)] show ?thesis
    using canonical_ips_sort canonical_ips_ok out(2) by auto
qed

lemma attach_guest_ips_other [simp]:
  "vm_id (attach_guest_ips read host now v) = vm_id v"
  by (auto simp: attach_guest_ips_def Let_def split: option.splits)

text \<open>The addresses shown with a VM were read from a guest that runs now, on this host, at most
  fifteen minutes ago and not before the VM's current boot; they keep the time at which they were read.\<close>

theorem attached_ips_fresh:
  assumes "vm_ips_collected (attach_guest_ips read host now v) = Some t"
  shows "guest_eligible v \<and>
    (\<exists>st up sampled. read (vm_id v) = Some st \<and> gs_host st = host \<and> gs_collected st = t \<and>
       vm_ips (attach_guest_ips read host now v) = gs_ips st \<and> t \<le> now \<and> time_sub now t \<le> guest_ttl \<and>
       vm_uptime v = Some up \<and> vm_collected v = Some sampled \<and> time_add sampled (secs (- up)) \<le> t)"
  using assms by (auto simp: attach_guest_ips_def Let_def guest_eligible_def split: if_splits option.splits)

lemma attach_guest_ips_ok:
  assumes "vm_ok parse_addr now v" and "\<And>st. read (vm_id v) = Some st \<Longrightarrow> ips_ok parse_addr (gs_ips st)"
  shows "vm_ok parse_addr now (attach_guest_ips read host now v)"
proof -
  have none: "vm_ok parse_addr now (v\<lparr>vm_ips := [], vm_ips_collected := None, vm_ips_ttl := 0\<rparr>)"
    using assms(1) by (simp add: vm_ok_def fresh_ok_def ips_ok_def vm_counters_def)
  have ttl: "guest_ttl div second = 900" by (simp add: guest_ttl_def second_def minute_def)
  show ?thesis
    using none assms(2) ttl
    by (auto simp: attach_guest_ips_def Let_def vm_ok_def fresh_ok_def vm_counters_def split: option.splits)
qed

section \<open>Concrete instances\<close>

definition demo_guest_env :: guest_env where
  "demo_guest_env = \<lparr>gv_encode = (\<lambda>st. Some (itoa (gs_failures st) @ ''/'' @ itoa (gs_next st))),
     gv_decode = (\<lambda>raw. None), gv_read_fails = False, gv_tmp = [''.g''], gv_faults = no_faults\<rparr>"

text \<open>A codec for the one reservation the example makes.\<close>

definition demo_reserved :: guest_state where
  "demo_reserved = zero_guest\<lparr>gs_failures := 1, gs_next := minute + 5\<rparr>"

definition demo_guest_codec :: guest_env where
  "demo_guest_codec = demo_guest_env\<lparr>gv_encode := (\<lambda>st. if st = demo_reserved then Some ''r'' else None),
     gv_decode := (\<lambda>raw. if raw = ''r'' then Some demo_reserved else None)\<rparr>"

lemma demo_reserve:
  "guest_reserve demo_guest_codec [''g''] 5 False Map.empty =
     (fst (guest_reserve demo_guest_codec [''g''] 5 False Map.empty), Inr (zero_guest, demo_reserved))"
proof -
  have "snd (guest_reserve demo_guest_codec [''g''] 5 False Map.empty) = Inr (zero_guest, demo_reserved)"
    by code_simp
  then show ?thesis by (metis prod.collapse)
qed

definition demo_guest_vm :: guest_target where
  "demo_guest_vm = \<lparr>gt_id = 7, gt_start = 0, gt_agent = ''''\<rparr>"

lemma demo_vm_reserve:
  "guest_reserve demo_guest_codec (guest_path [''g''] 7) 5 False Map.empty =
     (fst (guest_reserve demo_guest_codec (guest_path [''g''] 7) 5 False Map.empty), Inr (zero_guest, demo_reserved))"
proof -
  have "snd (guest_reserve demo_guest_codec (guest_path [''g''] 7) 5 False Map.empty) = Inr (zero_guest, demo_reserved)"
    by code_simp
  then show ?thesis by (metis prod.collapse)
qed

text \<open>The helper dies after the reservation.\<close>

theorem guest_query_rate_witness:
  "snd (guest_reserve demo_guest_codec (guest_path [''g''] 7) minute False
     (fst (guest_reserve demo_guest_codec (guest_path [''g''] 7) 5 False Map.empty))) = Inl GuestSkipped"
proof -
  let ?fs = "fst (guest_reserve demo_guest_codec (guest_path [''g''] 7) 5 False Map.empty)"
  have codec: "keeps_next demo_guest_codec" by (auto simp: keeps_next_def demo_guest_codec_def split: if_splits)
  have env: "gv_tmp demo_guest_codec = [''.g'']" "\<not> gv_read_fails demo_guest_codec"
    by (simp_all add: demo_guest_codec_def demo_guest_env_def)
  have free: "?fs [''.g''] = None" by code_simp
  have id: "gt_id demo_guest_vm = 7" by (simp add: demo_guest_vm_def)
  have "guest_reserve demo_guest_codec (guest_path [''g''] 7) minute False ?fs = (?fs, Inl GuestSkipped)"
    using guest_query_rate [of demo_guest_codec "[''g'']" demo_guest_vm 5 Map.empty ?fs "(zero_guest, demo_reserved)"
        demo_guest_codec ?fs _ _ 6 False _ demo_guest_codec minute] demo_vm_reserve codec env free
    by (simp add: id guest_path_def)
  then show ?thesis by simp
qed

theorem guest_reserve_panics_iff_witness:
  "guest_reserve (demo_guest_env\<lparr>gv_decode := (\<lambda>_. Some (zero_guest\<lparr>gs_failures := max_int64\<rparr>))\<rparr>) [''g''] 5 False
     [[''g''] \<mapsto> RegFile ''x'' mode_0600] = ([[''g''] \<mapsto> RegFile ''x'' mode_0600], Inl GuestPanic)"
  using guest_reserve_panics_iff [of "demo_guest_env\<lparr>gv_decode := (\<lambda>_. Some (zero_guest\<lparr>gs_failures := max_int64\<rparr>))\<rparr>"
      "[''g'']" "[[''g''] \<mapsto> RegFile ''x'' mode_0600]" "zero_guest\<lparr>gs_failures := max_int64\<rparr>" 5]
  by (simp add: read_guest_def demo_guest_env_def zero_guest_def is_int64_def time_zero_def max_int64_def min_int64_def)

definition demo_candidate :: "int \<Rightarrow> nat \<Rightarrow> candidate" where
  "demo_candidate i p = \<lparr>cd_target = \<lparr>gt_id = i, gt_start = 0, gt_agent = ''1''\<rparr>, cd_next = 0, cd_priority = p\<rparr>"

theorem guest_pool_bounded_witness:
  "\<exists>s. pool_step\<^sup>*\<^sup>* (start_pool [demo_candidate 1 2, demo_candidate 2 0]) s \<and>
     gp_running s = [demo_candidate 2 0] \<and> length (gp_running s) \<le> 8"
proof -
  have start: "start_pool [demo_candidate 1 2, demo_candidate 2 0] =
      \<lparr>gp_queue = [demo_candidate 2 0, demo_candidate 1 2], gp_running = [], gp_dropped = [], gp_stopped = False\<rparr>"
    by code_simp
  let ?s = "\<lparr>gp_queue = [demo_candidate 1 2], gp_running = [demo_candidate 2 0], gp_dropped = [], gp_stopped = False\<rparr>"
  have "pool_step (start_pool [demo_candidate 1 2, demo_candidate 2 0]) ?s"
    unfolding start
    using pool_step.take_job [of "\<lparr>gp_queue = [demo_candidate 2 0, demo_candidate 1 2], gp_running = [], gp_dropped = [], gp_stopped = False\<rparr>"
        "demo_candidate 2 0" "[demo_candidate 1 2]"] by simp
  then have "pool_step\<^sup>*\<^sup>* (start_pool [demo_candidate 1 2, demo_candidate 2 0]) ?s" by (rule r_into_rtranclp)
  moreover from guest_pool_bounded [OF this] have "length (gp_running ?s) \<le> 8" by blast
  ultimately show ?thesis by (intro exI [of _ ?s]) simp
qed

text \<open>A parser that knows one address under two texts.\<close>

definition demo_addr :: addr_parser where
  "demo_addr s =
     (if s = ''9.9.9.9'' \<or> s = ''::ffff:9.9.9.9''
      then Some \<lparr>ia_zone = '''', ia_global_unicast = True, ia_unmap = ''9.9.9.9''\<rparr> else None)"

theorem decoded_ips_valid_witness:
  "\<exists>ips. decode_ips demo_addr (\<lambda>_. True) (Some [[''x'', ''::ffff:9.9.9.9''], [''9.9.9.9'']]) = Some ips \<and>
     ips = [''9.9.9.9''] \<and> ips_ok demo_addr ips"
proof -
  have dec: "decode_ips demo_addr (\<lambda>_. True) (Some [[''x'', ''::ffff:9.9.9.9''], [''9.9.9.9'']]) = Some [''9.9.9.9'']"
    by code_simp
  have "unmap_canonical demo_addr (\<lambda>_. True)" by (auto simp: unmap_canonical_def demo_addr_def split: if_splits)
  from decoded_ips_valid [OF this dec] dec show ?thesis by blast
qed

definition demo_vm :: vm where
  "demo_vm = \<lparr>vm_collected = Some (100 * second), vm_ttl = 90, vm_ips_collected = None, vm_ips_ttl = 0, vm_ips = [],
     vm_id = 100, vm_name = ''a'', vm_status = ''running'', vm_qmp = ''running'', vm_template = False,
     vm_cpus = Some 2, vm_cpu = None, vm_memory = None, vm_memory_limit = Some 1024, vm_disk_capacity = None,
     vm_disk_read = None, vm_disk_write = None, vm_net_in = None, vm_net_out = None, vm_rates = [],
     vm_uptime = Some 60\<rparr>"

theorem attached_ips_fresh_witness:
  "guest_eligible demo_vm \<and>
   vm_ips_collected (attach_guest_ips (\<lambda>_. Some (zero_guest\<lparr>gs_host := ''h'', gs_collected := 50 * second\<rparr>)) ''h''
     (101 * second) demo_vm) = Some (50 * second)"
proof -
  have t: "vm_ips_collected (attach_guest_ips (\<lambda>_. Some (zero_guest\<lparr>gs_host := ''h'', gs_collected := 50 * second\<rparr>)) ''h''
     (101 * second) demo_vm) = Some (50 * second)"
    by code_simp
  from attached_ips_fresh [OF this] t show ?thesis by blast
qed

end
