(* ===== verification/PveConfig.thy ===== *)
theory PveConfig
  imports PveGuest
begin

text \<open>
  What the PVE helper reads about a VM (\<open>internal/pve/local.go\<close>, the rate limits of
  \<open>internal/pve/collect.go\<close>): the VM's configuration file, its process in \<open>/proc\<close>, its cgroup memory, and
  the observation put together from them.  File contents and the monitor's result are inputs;
  floating-point numbers are parsed and scaled by arguments, and a quotient is exact.
\<close>

section \<open>The configuration file\<close>

record vm_config =
  vc_vm :: vm
  vc_agent :: string
  vc_nics :: "string list"

definition newline :: char where "newline = CHR 0x0A"

text \<open>The trimmed lines of the current configuration: pending changes and saved snapshots follow a line
  that starts with \<open>[\<close>.\<close>

definition current_lines :: "string \<Rightarrow> string list" where
  "current_lines raw = takeWhile (\<lambda>l. \<not> has_prefix l ''['') (map trim_space (split_on newline raw))"

definition config_fields :: "string \<Rightarrow> (string, string) gomap" where
  "config_fields raw =
     fold (\<lambda>line m.
             if has_prefix line ''#'' then m
             else case cut_at CHR '':'' line of
               None \<Rightarrow> m
             | Some (key, val) \<Rightarrow> AList.update key (trim_space val) m)
          (current_lines raw) []"

definition field :: "(string, string) gomap \<Rightarrow> string \<Rightarrow> string" where
  "field m key = (case map_of m key of None \<Rightarrow> '''' | Some v \<Rightarrow> v)"

definition config_number :: "(string, string) gomap \<Rightarrow> string \<Rightarrow> int \<Rightarrow> string + int" where
  "config_number m key fallback =
     (let v = field m key in
      if v = '''' then Inr fallback
      else let v1 = (if key = ''memory'' then trim_prefix v ''current='' else v) in
        case parse_int v1 of
          None \<Rightarrow> Inl key
        | Some n \<Rightarrow> if n \<le> 0 \<or> 2147483647 < n then Inl key else Inr n)"

text \<open>The index of a canonical NIC name \<open>net<index>\<close>.\<close>

definition net_index :: "string \<Rightarrow> int option" where
  "net_index name =
     (case parse_int (trim_prefix name ''net'') of
        None \<Rightarrow> None
      | Some i \<Rightarrow> if i < 0 \<or> name \<noteq> ''net'' @ itoa i then None else Some i)"

text \<open>\<open>networkRateLimits\<close>; \<open>parse_float\<close> is \<open>strconv.ParseFloat\<close> and \<open>mbps\<close> the rounded conversion from
  MiB/s.  The rate of a NIC is its last \<open>rate=\<close> property.\<close>

fun nic_rate :: "(string \<Rightarrow> float64 option) \<Rightarrow> string list \<Rightarrow> float64 \<Rightarrow> float64 option" where
  "nic_rate parse_float [] rate = Some rate"
| "nic_rate parse_float (p # ps) rate =
     (case cut_at CHR ''='' (trim_space p) of
        None \<Rightarrow> nic_rate parse_float ps rate
      | Some (key, v) \<Rightarrow>
          if key \<noteq> ''rate'' then nic_rate parse_float ps rate
          else case parse_float v of
            None \<Rightarrow> None
          | Some r \<Rightarrow> if is_nan r \<or> is_inf r \<or> float_less r (Fin 0) then None else nic_rate parse_float ps r)"

fun rate_limits ::
  "(string \<Rightarrow> float64 option) \<Rightarrow> (float64 \<Rightarrow> float64) \<Rightarrow> string list \<Rightarrow> (string, float64) gomap \<Rightarrow>
   (string, float64) gomap option" where
  "rate_limits parse_float mbps [] limits = Some limits"
| "rate_limits parse_float mbps (line # rest) limits =
     (case cut_at CHR '':'' line of
        None \<Rightarrow> rate_limits parse_float mbps rest limits
      | Some (name, v) \<Rightarrow>
          if \<not> has_prefix name ''net'' \<or> net_index name = None then rate_limits parse_float mbps rest limits
          else case nic_rate parse_float (split_on CHR '','' v) (Fin 0) of
            None \<Rightarrow> None
          | Some r \<Rightarrow>
              if is_inf (mbps r) then None
              else rate_limits parse_float mbps rest (AList.update name (mbps r) limits))"

definition network_rate_limits ::
  "(string \<Rightarrow> float64 option) \<Rightarrow> (float64 \<Rightarrow> float64) \<Rightarrow> string \<Rightarrow> (string, float64) gomap option" where
  "network_rate_limits parse_float mbps config = rate_limits parse_float mbps (current_lines config) []"

text \<open>The last \<open>enabled\<close> property of the agent setting counts; a bare value is one.\<close>

definition agent_enabled :: "string \<Rightarrow> bool" where
  "agent_enabled agent =
     fold (\<lambda>p enabled.
             let (key, v) = (case cut_at CHR ''='' p of None \<Rightarrow> (''enabled'', p) | Some kv \<Rightarrow> kv)
             in if key = ''enabled'' then v \<in> set [''1'', ''yes'', ''on'', ''true''] else enabled)
          (split_on CHR '','' agent) False"

definition empty_vm :: vm where
  "empty_vm = \<lparr>vm_collected = None, vm_ttl = 0, vm_ips_collected = None, vm_ips_ttl = 0, vm_ips = [],
     vm_id = 0, vm_name = '''', vm_status = '''', vm_qmp = '''', vm_template = False, vm_cpus = None, vm_cpu = None,
     vm_memory = None, vm_memory_limit = None, vm_disk_capacity = None, vm_disk_read = None, vm_disk_write = None,
     vm_net_in = None, vm_net_out = None, vm_rates = [], vm_uptime = None\<rparr>"

definition parse_config ::
  "(string \<Rightarrow> float64 option) \<Rightarrow> (float64 \<Rightarrow> float64) \<Rightarrow> int \<Rightarrow> string \<Rightarrow> int \<Rightarrow> string + vm_config" where
  "parse_config parse_float mbps i raw host_cpus =
     (let m = config_fields raw in
      case config_number m ''cores'' 1 of Inl e \<Rightarrow> Inl e | Inr cores \<Rightarrow>
      (case config_number m ''sockets'' 1 of Inl e \<Rightarrow> Inl e | Inr sockets \<Rightarrow>
      (case config_number m ''vcpus'' (min (wrap64 (cores * sockets)) host_cpus) of Inl e \<Rightarrow> Inl e | Inr cpus \<Rightarrow>
      (case config_number m ''memory'' 512 of Inl e \<Rightarrow> Inl e | Inr memory \<Rightarrow>
       Inr \<lparr>vc_vm = empty_vm\<lparr>vm_id := i,
               vm_name := (if field m ''name'' = '''' then ''VM '' @ itoa i else field m ''name''),
               vm_status := ''stopped'', vm_template := (field m ''template'' = ''1''), vm_cpus := Some cpus,
               vm_memory_limit := Some (wrap64 (memory * 1024 * 1024)),
               vm_rates := (case network_rate_limits parse_float mbps raw of None \<Rightarrow> [] | Some limits \<Rightarrow> limits)\<rparr>,
            vc_agent = (if agent_enabled (field m ''agent'') then field m ''agent'' else ''''),
            vc_nics = concat (map (\<lambda>(key, v). case net_index key of
                                                None \<Rightarrow> []
                                              | Some n \<Rightarrow> [''tap'' @ itoa i @ ''i'' @ itoa n]) m)\<rparr>))))"

section \<open>Processes\<close>

record process_sample =
  ps_pid :: int
  ps_start :: int
  ps_ticks :: int
  ps_at :: time

definition no_process :: process_sample where
  "no_process = \<lparr>ps_pid = 0, ps_start = 0, ps_ticks = 0, ps_at = time_zero\<rparr>"

datatype file_read = FileMissing | FileError | FileText string

datatype proc_error = ProcMissing | ProcError

text \<open>\<open>bytes.LastIndexByte\<close>: the text after the last occurrence.\<close>

fun after_last :: "char \<Rightarrow> string \<Rightarrow> string option" where
  "after_last c [] = None"
| "after_last c (x # xs) =
     (case after_last c xs of Some r \<Rightarrow> Some r | None \<Rightarrow> if x = c then Some xs else None)"

definition parse_process :: "string \<Rightarrow> proc_error + process_sample" where
  "parse_process raw =
     (case after_last CHR '')'' raw of
        None \<Rightarrow> Inl ProcError
      | Some rest \<Rightarrow>
          (let fs = GoBase.fields rest in
           if length fs < 20 then Inl ProcError
           else if fs ! 0 = ''Z'' \<or> fs ! 0 = ''X'' then Inl ProcMissing
           else case (parse_uint (fs ! 11), parse_uint (fs ! 12), parse_uint (fs ! 19)) of
             (Some user, Some system, Some start) \<Rightarrow>
               Inr (no_process\<lparr>ps_start := start, ps_ticks := (user + system) mod 2 ^ 64\<rparr>)
           | _ \<Rightarrow> Inl ProcError))"

text \<open>The files \<open>readProcess\<close> opens: the pid file, then the command line and the status of the process.\<close>

record proc_files =
  pf_pidfile :: file_read
  pf_cmdline :: "int \<Rightarrow> file_read"
  pf_stat :: "int \<Rightarrow> file_read"
  pf_now :: time

fun has_id_argument :: "string \<Rightarrow> string list \<Rightarrow> bool" where
  "has_id_argument i (a # b # rest) = (a = ''-id'' \<and> b = i \<or> has_id_argument i (b # rest))"
| "has_id_argument i _ = False"

definition read_file :: "file_read \<Rightarrow> proc_error + string" where
  "read_file f = (case f of FileMissing \<Rightarrow> Inl ProcMissing | FileError \<Rightarrow> Inl ProcError | FileText s \<Rightarrow> Inr s)"

definition read_process :: "int \<Rightarrow> proc_files \<Rightarrow> proc_error + process_sample" where
  "read_process i files =
     (case read_file (pf_pidfile files) of Inl e \<Rightarrow> Inl e | Inr raw \<Rightarrow>
      (case parse_int (trim_space raw) of None \<Rightarrow> Inl ProcError | Some pid \<Rightarrow>
       if pid \<le> 0 then Inl ProcError
       else case read_file (pf_cmdline files pid) of Inl e \<Rightarrow> Inl e | Inr cmdline \<Rightarrow>
         if \<not> has_id_argument (itoa i) (split_on (CHR 0x00) cmdline) then Inl ProcMissing
         else case read_file (pf_stat files pid) of Inl e \<Rightarrow> Inl e | Inr stat \<Rightarrow>
           (case parse_process stat of
              Inl e \<Rightarrow> Inl e
            | Inr s \<Rightarrow> Inr (s\<lparr>ps_pid := pid, ps_at := pf_now files\<rparr>))))"

text \<open>\<open>cpuRatio\<close>, without rounding.\<close>

definition cpu_ratio :: "process_sample \<Rightarrow> process_sample \<Rightarrow> int \<Rightarrow> float64 option" where
  "cpu_ratio before after cpus =
     (if ps_pid before \<noteq> ps_pid after \<or> ps_start before \<noteq> ps_start after \<or> is_zero_time (ps_at before) \<or>
         \<not> ps_at before < ps_at after \<or> ps_ticks after < ps_ticks before then None
      else Some (Fin (of_int (ps_ticks after - ps_ticks before) / 100 /
                      (of_int (time_sub (ps_at after) (ps_at before)) / 10 ^ 9) / of_int cpus)))"

text \<open>\<open>memoryUsage\<close>: the two cgroup files, and the name of the cache counter for the cgroup version.\<close>

fun cache_counter :: "string \<Rightarrow> string list \<Rightarrow> string option" where
  "cache_counter name [] = None"
| "cache_counter name (line # rest) =
     (case GoBase.fields line of
        [key, v] \<Rightarrow> if key = name then Some v else cache_counter name rest
      | _ \<Rightarrow> cache_counter name rest)"

definition memory_usage :: "bool \<Rightarrow> file_read \<Rightarrow> file_read \<Rightarrow> int option" where
  "memory_usage cgroup2 usage stat =
     (case (usage, stat) of
        (FileText u, FileText s) \<Rightarrow>
          (case (parse_int (trim_space u), cache_counter (if cgroup2 then ''file'' else ''total_cache'') (split_on newline s)) of
             (Some used, Some c) \<Rightarrow>
               (case parse_int c of None \<Rightarrow> None | Some cached \<Rightarrow> Some (max 0 (wrap64 (used - cached))))
           | _ \<Rightarrow> None)
      | _ \<Rightarrow> None)"

section \<open>The inventory\<close>

text \<open>\<open>entries\<close> are the names in the configuration directory, each with what reading its file gives.\<close>

definition conf_id :: "string \<Rightarrow> int option" where
  "conf_id name =
     (if \<not> has_suffix name ''.conf'' then None
      else case parse_int (trim_suffix name ''.conf'') of
        None \<Rightarrow> None
      | Some i \<Rightarrow> if i \<le> 0 then None else Some i)"

fun inventory_configs ::
  "(int \<Rightarrow> string \<Rightarrow> string + vm_config) \<Rightarrow> (string \<times> file_read) list \<Rightarrow> string + vm_config list" where
  "inventory_configs parse [] = Inr []"
| "inventory_configs parse ((name, content) # rest) =
     (case conf_id name of
        None \<Rightarrow> inventory_configs parse rest
      | Some i \<Rightarrow>
          (case content of
             FileMissing \<Rightarrow> inventory_configs parse rest
           | FileError \<Rightarrow> Inl name
           | FileText raw \<Rightarrow>
               (case parse i raw of
                  Inl e \<Rightarrow> Inl e
                | Inr c \<Rightarrow>
                    (case inventory_configs parse rest of
                       Inl e \<Rightarrow> Inl e
                     | Inr cs \<Rightarrow> Inr (if vm_template (vc_vm c) then cs else c # cs)))))"

definition inventory ::
  "(int \<Rightarrow> string \<Rightarrow> string + vm_config) \<Rightarrow> int option \<Rightarrow> (string \<times> file_read) list option \<Rightarrow> string + vm_config list" where
  "inventory parse host_cpus entries =
     (case (host_cpus, entries) of
        (Some n, Some es) \<Rightarrow>
          if n < 1 then Inl ''host CPU count is zero''
          else (case inventory_configs parse es of
                  Inl e \<Rightarrow> Inl e
                | Inr cs \<Rightarrow> Inr (sort_key (\<lambda>c. vm_id (vc_vm c)) cs))
      | _ \<Rightarrow> Inl ''inventory unavailable'')"

section \<open>One observation\<close>

text \<open>What \<open>sampleVM\<close> meets: the process before and after the monitor query, what the query makes of the
  VM, the host's uptime in seconds, the byte counters of the tap devices and the clock.\<close>

record sample_env =
  sa_before :: "proc_error + process_sample"
  sa_monitor :: "vm \<Rightarrow> vm"
  sa_after :: "proc_error + process_sample"
  sa_uptime :: "rat option"
  sa_bytes :: "string \<Rightarrow> string \<Rightarrow> int option"
  sa_now :: time

fun sum_bytes :: "(string \<Rightarrow> string \<Rightarrow> int option) \<Rightarrow> string list \<Rightarrow> int \<Rightarrow> int \<Rightarrow> (int \<times> int) option" where
  "sum_bytes bytes [] received transmitted = Some (received, transmitted)"
| "sum_bytes bytes (nic # nics) received transmitted =
     (case (bytes nic ''rx'', bytes nic ''tx'') of
        (Some rx, Some tx) \<Rightarrow> sum_bytes bytes nics (wrap64 (received + tx)) (wrap64 (transmitted + rx))
      | _ \<Rightarrow> None)"

definition unknown_vm :: "vm \<Rightarrow> time \<Rightarrow> vm" where
  "unknown_vm v now = v\<lparr>vm_status := ''unknown'', vm_collected := Some now, vm_ttl := 90\<rparr>"

text \<open>The end of an observation: the counters of a running VM.\<close>

definition live_sample :: "sample_env \<Rightarrow> vm_config \<Rightarrow> process_sample \<Rightarrow> process_sample \<Rightarrow> vm \<Rightarrow> vm" where
  "live_sample env config previous after v =
     (let io = sum_bytes (sa_bytes env) (vc_nics config) 0 0 in
      (if vm_qmp v = ''running''
       then v\<lparr>vm_cpu := (case vm_cpus v of None \<Rightarrow> None | Some n \<Rightarrow> cpu_ratio previous after n),
              vm_uptime := (case sa_uptime env of
                              None \<Rightarrow> vm_uptime v
                            | Some u \<Rightarrow> Some (max 0 \<lfloor>u - of_int (ps_start after) / 100\<rfloor>)),
              vm_net_in := (case io of None \<Rightarrow> vm_net_in v | Some (received, _) \<Rightarrow> Some received),
              vm_net_out := (case io of None \<Rightarrow> vm_net_out v | Some (_, transmitted) \<Rightarrow> Some transmitted)\<rparr>
       else v)\<lparr>vm_collected := Some (sa_now env)\<rparr>)"

definition sample_vm :: "sample_env \<Rightarrow> vm_config \<Rightarrow> process_sample \<Rightarrow> vm \<times> process_sample" where
  "sample_vm env config previous =
     (let v0 = (vc_vm config)\<lparr>vm_status := ''unknown'', vm_ttl := 90\<rparr> in
      case sa_before env of
        Inl ProcMissing \<Rightarrow>
          (v0\<lparr>vm_status := ''stopped'', vm_qmp := ''stopped'', vm_collected := Some (sa_now env), vm_uptime := Some 0\<rparr>,
           no_process)
      | Inl ProcError \<Rightarrow> (v0\<lparr>vm_collected := Some (sa_now env)\<rparr>, no_process)
      | Inr before \<Rightarrow>
          (let v1 = sa_monitor env (v0\<lparr>vm_status := ''running''\<rparr>) in
           case sa_after env of
             Inl _ \<Rightarrow> (unknown_vm (vc_vm config) (sa_now env), no_process)
           | Inr after \<Rightarrow>
               if ps_pid before \<noteq> ps_pid after \<or> ps_start before \<noteq> ps_start after
               then (unknown_vm (vc_vm config) (sa_now env), no_process)
               else (live_sample env config previous after v1, after)))"

section \<open>Parsed configurations can be published\<close>

lemma config_number_bounds:
  "config_number m key d = Inr n \<Longrightarrow> n = d \<or> 1 \<le> n \<and> n \<le> 2147483647"
  by (auto simp: config_number_def Let_def split: if_splits option.splits)

lemma set_update_go: "set (AList.update k v m) \<subseteq> insert (k, v) (set m)"
  by (induction m) auto

lemma nic_rate_finite: "nic_rate parse_float ps rate = Some r \<Longrightarrow> finite_nonneg rate \<Longrightarrow> finite_nonneg r"
proof (induction ps arbitrary: rate)
  case (Cons p ps)
  have "is_nan x \<or> is_inf x \<or> float_less x (Fin 0) \<longleftrightarrow> \<not> finite_nonneg x" for x
    by (simp add: finite_nonneg_iff)
  then show ?case using Cons by (auto split: option.splits if_splits)
qed simp

definition scales_rates :: "(float64 \<Rightarrow> float64) \<Rightarrow> bool" where
  "scales_rates mbps \<longleftrightarrow> (\<forall>x. finite_nonneg x \<longrightarrow> \<not> is_nan (mbps x) \<and> \<not> float_less (mbps x) (Fin 0))"

lemma rate_limits_ok:
  assumes "scales_rates mbps" and "list_all (\<lambda>r. \<not> bad_rate r) limits"
    and "rate_limits parse_float mbps ls limits = Some out"
  shows "list_all (\<lambda>r. \<not> bad_rate r) out"
  using assms(2,3)
proof (induction ls arbitrary: limits)
  case (Cons line rest)
  show ?case
  proof (cases "cut_at CHR '':'' line")
    case None
    then show ?thesis using Cons by simp
  next
    case (Some nv)
    obtain name v where nv: "nv = (name, v)" by fastforce
    show ?thesis
    proof (cases "\<not> has_prefix name ''net'' \<or> net_index name = None")
      case True
      then show ?thesis using Cons Some nv by simp
    next
      case False
      then obtain r where r: "nic_rate parse_float (split_on CHR '','' v) (Fin 0) = Some r" and inf: "\<not> is_inf (mbps r)"
        and rest: "rate_limits parse_float mbps rest (AList.update name (mbps r) limits) = Some out"
        using Cons.prems(2) Some nv by (auto split: option.splits if_splits)
      have "finite_nonneg r" by (rule nic_rate_finite [OF r]) simp
      then have "\<not> bad_rate (name, mbps r)"
        using assms(1) inf False by (auto simp: scales_rates_def bad_rate_def net_index_def split: option.splits if_splits)
      then have "list_all (\<lambda>r. \<not> bad_rate r) (AList.update name (mbps r) limits)"
        using Cons.prems(1) set_update_go [of name "mbps r" limits] by (auto simp: list_all_iff)
      then show ?thesis using Cons.IH rest by blast
    qed
  qed
qed simp

lemma wrap64_small: "0 \<le> n \<Longrightarrow> n < 2 ^ 63 \<Longrightarrow> wrap64 n = n"
  by (rule wrap64_id) (simp add: is_int64_def min_int64_def max_int64_def)

lemma cpu_product:
  assumes "1 \<le> a" "a \<le> 2147483647" "1 \<le> b" "b \<le> (2147483647::int)"
  shows "1 \<le> wrap64 (a * b)"
proof -
  have "a * b \<le> 2147483647 * 2147483647" using assms by (intro mult_mono) auto
  moreover have "1 * 1 \<le> a * b" using assms by (intro mult_mono) auto
  ultimately show ?thesis using wrap64_small [of "a * b"] by simp
qed

lemma parsed_config_shape:
  assumes "parse_config parse_float mbps i raw host_cpus = Inr c" and "1 \<le> host_cpus" and "scales_rates mbps"
  shows "\<exists>cpus memory rates. 1 \<le> cpus \<and> 0 \<le> memory \<and> list_all (\<lambda>r. \<not> bad_rate r) rates \<and>
    vc_vm c = empty_vm\<lparr>vm_id := i, vm_name := vm_name (vc_vm c), vm_status := ''stopped'',
      vm_template := vm_template (vc_vm c), vm_cpus := Some cpus, vm_memory_limit := Some memory, vm_rates := rates\<rparr>"
proof -
  let ?m = "config_fields raw"
  obtain cores sockets cpus memory where n: "config_number ?m ''cores'' 1 = Inr cores"
      "config_number ?m ''sockets'' 1 = Inr sockets"
      "config_number ?m ''vcpus'' (min (wrap64 (cores * sockets)) host_cpus) = Inr cpus"
      "config_number ?m ''memory'' 512 = Inr memory"
    using assms(1) by (auto simp: parse_config_def Let_def split: sum.splits)
  let ?rates = "case network_rate_limits parse_float mbps raw of None \<Rightarrow> [] | Some limits \<Rightarrow> limits"
  have "1 \<le> wrap64 (cores * sockets)"
    using config_number_bounds [OF n(1)] config_number_bounds [OF n(2)] by (intro cpu_product) auto
  then have "1 \<le> cpus" using config_number_bounds [OF n(3)] assms(2) by auto
  moreover have "0 \<le> wrap64 (memory * 1024 * 1024)"
    using config_number_bounds [OF n(4)] by (subst wrap64_small) auto
  moreover have "list_all (\<lambda>r. \<not> bad_rate r) ?rates"
    using rate_limits_ok [OF assms(3), of "[]" parse_float "current_lines raw"]
    by (auto simp: network_rate_limits_def split: option.splits)
  ultimately show ?thesis
    using assms(1) n by (intro exI [of _ cpus] exI [of _ "wrap64 (memory * 1024 * 1024)"] exI [of _ ?rates])
      (auto simp: parse_config_def Let_def)
qed

lemma parsed_config_ok:
  assumes "parse_config parse_float mbps i raw host_cpus = Inr c" and "1 \<le> i" and "1 \<le> host_cpus"
    and "scales_rates mbps" and "length (vm_name (vc_vm c)) \<le> 255"
  shows "vm_ok parse_addr limit (vc_vm c)"
proof -
  obtain cpus memory rates where b: "1 \<le> cpus" "0 \<le> memory" "list_all (\<lambda>r. \<not> bad_rate r) rates"
    and c: "vc_vm c = empty_vm\<lparr>vm_id := i, vm_name := vm_name (vc_vm c), vm_status := ''stopped'',
      vm_template := vm_template (vc_vm c), vm_cpus := Some cpus, vm_memory_limit := Some memory, vm_rates := rates\<rparr>"
    using parsed_config_shape [OF assms(1,3,4)] by blast
  show ?thesis
    by (subst c) (use b assms(2,5) in \<open>simp add: vm_ok_def empty_vm_def fresh_ok_def ips_ok_def vm_counters_def\<close>)
qed

text \<open>Whatever a configuration file says, a VM parsed from it can be published: positive CPUs, a
  memory limit without overflow, and rate limits only under canonical NIC names with finite,
  non-negative rates.\<close>

theorem parsed_config_publishable:
  assumes "parse_config parse_float mbps i raw host_cpus = Inr c" and "1 \<le> i" and "1 \<le> host_cpus"
    and "scales_rates mbps" and "length (vm_name (vc_vm c)) \<le> 255"
  shows "validate_vm parse_addr limit [] (vc_vm c) = Inr ()"
  using parsed_config_ok [OF assms] by (simp add: validate_vm_iff)

section \<open>Processes\<close>

lemma after_last_append: "c \<notin> set s \<Longrightarrow> after_last c (pre @ c # s) = Some s"
proof (induction pre)
  case Nil
  have "c \<notin> set s \<Longrightarrow> after_last c s = None" by (induction s) auto
  then show ?case using Nil by simp
qed simp

text \<open>The name of a process cannot forge its status: only what follows the last closing parenthesis
  is read, whatever spaces and parentheses the name contains.\<close>

theorem parse_process_ignores_name:
  assumes "CHR '')'' \<notin> set rest"
  shows "parse_process (name @ CHR '')'' # rest) = parse_process (other @ CHR '')'' # rest)"
  using after_last_append [OF assms] by (simp add: parse_process_def)

section \<open>Observations can be published\<close>

lemma cpu_ratio_nonneg: "cpu_ratio before after cpus = Some x \<Longrightarrow> 1 \<le> cpus \<Longrightarrow> finite_nonneg x"
  by (auto simp: cpu_ratio_def time_sub_def max_int64_def min_int64_def split: if_splits)

text \<open>A VM but for the freshness of its sample.\<close>

definition vm_body_ok :: "addr_parser \<Rightarrow> time \<Rightarrow> vm \<Rightarrow> bool" where
  "vm_body_ok parse_addr limit v \<longleftrightarrow> vm_ok parse_addr limit (v\<lparr>vm_collected := None, vm_ttl := 0\<rparr>)"

lemma vm_ok_body: "vm_ok parse_addr limit v \<longleftrightarrow> vm_body_ok parse_addr limit v \<and> fresh_ok limit (vm_collected v) (vm_ttl v)"
  by (auto simp: vm_body_ok_def vm_ok_def fresh_ok_def vm_counters_def)

lemma vm_body_frame [simp]:
  "vm_body_ok parse_addr limit (v\<lparr>vm_collected := t\<rparr>) = vm_body_ok parse_addr limit v"
  "vm_body_ok parse_addr limit (v\<lparr>vm_ttl := n\<rparr>) = vm_body_ok parse_addr limit v"
  by (simp_all add: vm_body_ok_def)

lemma vm_body_status:
  "vm_body_ok parse_addr limit v \<Longrightarrow> s \<noteq> '''' \<Longrightarrow> length s \<le> 64 \<Longrightarrow> vm_body_ok parse_addr limit (v\<lparr>vm_status := s\<rparr>)"
  "vm_body_ok parse_addr limit v \<Longrightarrow> length s \<le> 64 \<Longrightarrow> vm_body_ok parse_addr limit (v\<lparr>vm_qmp := s\<rparr>)"
  by (simp_all add: vm_body_ok_def vm_ok_def vm_counters_def)

lemma vm_body_metrics:
  "vm_body_ok parse_addr limit v \<Longrightarrow> pred_option finite_nonneg c \<Longrightarrow> vm_body_ok parse_addr limit (v\<lparr>vm_cpu := c\<rparr>)"
  "vm_body_ok parse_addr limit v \<Longrightarrow> pred_option (\<lambda>k. 0 \<le> k) n \<Longrightarrow> vm_body_ok parse_addr limit (v\<lparr>vm_uptime := n\<rparr>)"
  "vm_body_ok parse_addr limit v \<Longrightarrow> pred_option (\<lambda>k. 0 \<le> k) n \<Longrightarrow> vm_body_ok parse_addr limit (v\<lparr>vm_net_in := n\<rparr>)"
  "vm_body_ok parse_addr limit v \<Longrightarrow> pred_option (\<lambda>k. 0 \<le> k) n \<Longrightarrow> vm_body_ok parse_addr limit (v\<lparr>vm_net_out := n\<rparr>)"
  "vm_body_ok parse_addr limit v \<Longrightarrow> pred_option (\<lambda>k. 0 \<le> k) n \<Longrightarrow> vm_body_ok parse_addr limit (v\<lparr>vm_memory := n\<rparr>)"
  "vm_body_ok parse_addr limit v \<Longrightarrow> pred_option (\<lambda>k. 0 \<le> k) n \<Longrightarrow> vm_body_ok parse_addr limit (v\<lparr>vm_memory_limit := n\<rparr>)"
  "vm_body_ok parse_addr limit v \<Longrightarrow> pred_option (\<lambda>k. 0 \<le> k) n \<Longrightarrow> vm_body_ok parse_addr limit (v\<lparr>vm_disk_read := n\<rparr>)"
  "vm_body_ok parse_addr limit v \<Longrightarrow> pred_option (\<lambda>k. 0 \<le> k) n \<Longrightarrow> vm_body_ok parse_addr limit (v\<lparr>vm_disk_write := n\<rparr>)"
  by (simp_all add: vm_body_ok_def vm_ok_def vm_counters_def)

lemma vm_body_read:
  "vm_body_ok parse_addr limit v \<Longrightarrow> pred_option (\<lambda>k. 0 \<le> k) (vm_uptime v)"
  "vm_body_ok parse_addr limit v \<Longrightarrow> pred_option (\<lambda>k. 0 \<le> k) (vm_net_in v)"
  "vm_body_ok parse_addr limit v \<Longrightarrow> pred_option (\<lambda>k. 0 \<le> k) (vm_net_out v)"
  by (simp_all add: vm_body_ok_def vm_ok_def vm_counters_def)

text \<open>What the monitor query must keep.\<close>

definition monitor_ok :: "addr_parser \<Rightarrow> time \<Rightarrow> (vm \<Rightarrow> vm) \<Rightarrow> bool" where
  "monitor_ok parse_addr limit mon \<longleftrightarrow>
     (\<forall>v. vm_body_ok parse_addr limit v \<longrightarrow> vm_body_ok parse_addr limit (mon v)) \<and>
     (\<forall>v. vm_id (mon v) = vm_id v \<and> vm_cpus (mon v) = vm_cpus v \<and> vm_ttl (mon v) = vm_ttl v)"

definition bytes_ok :: "sample_env \<Rightarrow> vm_config \<Rightarrow> bool" where
  "bytes_ok env config \<longleftrightarrow>
     (case sum_bytes (sa_bytes env) (vc_nics config) 0 0 of
        None \<Rightarrow> True | Some (received, transmitted) \<Rightarrow> 0 \<le> received \<and> 0 \<le> transmitted)"

lemma live_sample_ok:
  assumes "vm_body_ok parse_addr limit v" and "vm_id v = i" and "vm_cpus v = Some cpus" and "vm_ttl v = 90"
    and "1 \<le> cpus" and "bytes_ok env config"
  shows "vm_body_ok parse_addr limit (live_sample env config previous after v)"
    and "vm_id (live_sample env config previous after v) = i"
    and "vm_ttl (live_sample env config previous after v) = 90"
    and "vm_collected (live_sample env config previous after v) = Some (sa_now env)"
proof -
  have cpu: "pred_option finite_nonneg (cpu_ratio previous after cpus)"
    using cpu_ratio_nonneg assms(5) by (auto simp: pred_option_def)
  show "vm_body_ok parse_addr limit (live_sample env config previous after v)"
    using assms(1,3,6) cpu vm_body_read [OF assms(1)]
    by (auto simp: live_sample_def Let_def bytes_ok_def intro!: vm_body_metrics split: option.splits)
  show "vm_id (live_sample env config previous after v) = i"
    and "vm_ttl (live_sample env config previous after v) = 90"
    and "vm_collected (live_sample env config previous after v) = Some (sa_now env)"
    using assms by (simp_all add: live_sample_def Let_def)
qed

lemma sample_vm_ok:
  assumes "vm_body_ok parse_addr limit (vc_vm config)" and "vm_cpus (vc_vm config) = Some cpus" and "1 \<le> cpus"
    and "monitor_ok parse_addr limit (sa_monitor env)" and "sa_now env \<le> limit" and "0 < sa_now env"
    and "bytes_ok env config" and "sample_vm env config previous = (v, ps)"
  shows "vm_ok parse_addr limit v \<and> vm_id v = vm_id (vc_vm config) \<and> vm_collected v = Some (sa_now env)"
proof -
  have fresh: "fresh_ok limit (Some (sa_now env)) 90" using assms(5,6) by (simp add: fresh_ok_def is_zero_time_def)
  let ?run = "(vc_vm config)\<lparr>vm_status := ''unknown'', vm_ttl := 90, vm_status := ''running''\<rparr>"
  have run: "vm_body_ok parse_addr limit ?run" using assms(1) by (simp add: vm_body_status)
  define m where "m = sa_monitor env ?run"
  have m: "vm_body_ok parse_addr limit m" "vm_id m = vm_id (vc_vm config)" "vm_cpus m = Some cpus" "vm_ttl m = 90"
    using assms(2,4) run unfolding monitor_ok_def m_def by auto
  consider (missing) "sa_before env = Inl ProcMissing" | (broken) "sa_before env = Inl ProcError"
    | (vanished) b where "sa_before env = Inr b" "v = unknown_vm (vc_vm config) (sa_now env)"
    | (full) b a where "sa_before env = Inr b" "sa_after env = Inr a" "ps_pid b = ps_pid a" "ps_start b = ps_start a"
    using assms(8) by (cases "sa_before env") (auto simp: sample_vm_def Let_def split: sum.splits proc_error.splits if_splits)
  then show ?thesis
  proof cases
    case missing
    then show ?thesis
      using assms(1,8) fresh by (auto simp: sample_vm_def Let_def vm_ok_body vm_body_status vm_body_metrics)
  next
    case broken
    then show ?thesis using assms(1,8) fresh by (auto simp: sample_vm_def Let_def vm_ok_body vm_body_status)
  next
    case vanished
    then show ?thesis using assms(1) fresh by (simp add: unknown_vm_def vm_ok_body vm_body_status)
  next
    case full
    have "v = live_sample env config previous a m"
      using assms(8) full by (auto simp: sample_vm_def Let_def m_def)
    then show ?thesis using live_sample_ok [OF m assms(3,7)] fresh by (simp add: vm_ok_body)
  qed
qed

text \<open>Every observation of a VM with a publishable configuration can itself be published: whatever
  the process, the monitor and the counters answer, the sampled VM passes the validation of the snapshot.\<close>

theorem sampled_vm_publishable:
  assumes "validate_vm parse_addr limit [] (vc_vm config) = Inr ()" and "vm_cpus (vc_vm config) = Some cpus" and "1 \<le> cpus"
    and "monitor_ok parse_addr limit (sa_monitor env)" and "sa_now env \<le> limit" and "0 < sa_now env"
    and "bytes_ok env config"
  shows "validate_vm parse_addr limit [] (fst (sample_vm env config previous)) = Inr ()"
proof -
  obtain v ps where s: "sample_vm env config previous = (v, ps)" by fastforce
  have "vm_body_ok parse_addr limit (vc_vm config)" using assms(1) by (simp add: validate_vm_iff vm_ok_body)
  from sample_vm_ok [OF this assms(2-7) s] show ?thesis by (simp add: validate_vm_iff s)
qed

section \<open>Concrete instances\<close>

definition demo_conf :: string where
  "demo_conf = ''cores:2'' @ [newline] @ ''[s]''"

lemma demo_scales: "scales_rates (\<lambda>x. x)"
  unfolding scales_rates_def by (simp add: finite_nonneg_iff)

lemma demo_parsed:
  "\<exists>c. parse_config (\<lambda>_. None) (\<lambda>x. x) 7 demo_conf 4 = Inr c \<and> vm_name (vc_vm c) = ''VM 7'' \<and>
     vm_cpus (vc_vm c) = Some 2"
proof -
  have "map_sum id (\<lambda>c. (vm_name (vc_vm c), vm_cpus (vc_vm c))) (parse_config (\<lambda>_. None) (\<lambda>x. x) 7 demo_conf 4) =
      Inr (''VM 7'', Some 2)"
    by code_simp
  then show ?thesis by (cases "parse_config (\<lambda>_. None) (\<lambda>x. x) 7 demo_conf 4") auto
qed

theorem parsed_config_publishable_witness:
  "\<exists>c. parse_config (\<lambda>_. None) (\<lambda>x. x) 7 demo_conf 4 = Inr c \<and>
     validate_vm (\<lambda>_. None) 0 [] (vc_vm c) = Inr ()"
proof -
  obtain c where c: "parse_config (\<lambda>_. None) (\<lambda>x. x) 7 demo_conf 4 = Inr c" "vm_name (vc_vm c) = ''VM 7''"
    using demo_parsed by blast
  show ?thesis using parsed_config_publishable [OF c(1) _ _ demo_scales] c by simp
qed

theorem parse_process_ignores_name_witness:
  "parse_process (''1 (a) R 0) S'' @ '')'' @ '' S 1'') = parse_process (''1 (b'' @ '')'' @ '' S 1'')"
  using parse_process_ignores_name [of "'' S 1''" "''1 (a) R 0) S''" "''1 (b''"] by simp

definition demo_sample_env :: sample_env where
  "demo_sample_env = \<lparr>sa_before = Inl ProcMissing, sa_monitor = (\<lambda>v. v), sa_after = Inl ProcMissing, sa_uptime = None,
     sa_bytes = (\<lambda>_ _. None), sa_now = 7\<rparr>"

definition demo_config :: vm_config where
  "demo_config = \<lparr>vc_vm = demo_vm\<lparr>vm_collected := None, vm_ttl := 0\<rparr>, vc_agent = '''', vc_nics = []\<rparr>"

theorem sampled_vm_publishable_witness:
  "validate_vm (\<lambda>_. None) 9 [] (fst (sample_vm demo_sample_env demo_config no_process)) = Inr ()"
proof (rule sampled_vm_publishable [of _ _ _ 2])
  show "validate_vm (\<lambda>_. None) 9 [] (vc_vm demo_config) = Inr ()" by code_simp
  show "monitor_ok (\<lambda>_. None) 9 (sa_monitor demo_sample_env)" by (simp add: monitor_ok_def demo_sample_env_def)
  show "bytes_ok demo_sample_env demo_config" by (simp add: bytes_ok_def demo_sample_env_def demo_config_def)
qed (simp_all add: demo_config_def demo_vm_def demo_sample_env_def)

end
