(* ===== verification/PveMonitor.thy ===== *)
theory PveMonitor
  imports PveConfig
begin

text \<open>
  The QEMU monitor and guest agent protocols of \<open>internal/pve/monitor.go\<close>: reading replies from a
  byte stream, discarding stale ones, and the metrics of one VM.  The stream is the bytes the
  peer sends before the connection ends; JSON decoding is an argument.
\<close>

record monitor_reply =
  mr_greeting :: string
  mr_id :: string
  mr_result :: string
  mr_error :: "string option"

text \<open>\<open>mr_error\<close> is the class of the error.  An empty text is a field that is absent.\<close>

datatype monitor_error = MonLimit | MonEof | MonDecode | MonReply string | MonEmpty | MonGreeting | MonSync

type_synonym reply_decoder = "string \<Rightarrow> monitor_reply option"

text \<open>\<open>read\<close>: one line of at most \<open>max_bytes\<close> bytes, and the rest of the stream.\<close>

definition read_reply :: "reply_decoder \<Rightarrow> string \<Rightarrow> monitor_error + monitor_reply \<times> string" where
  "read_reply decode s =
     (case cut_at newline s of
        None \<Rightarrow> Inl (if max_bytes < length s then MonLimit else MonEof)
      | Some (line, rest) \<Rightarrow>
          if max_bytes < length line + 1 then Inl MonLimit
          else case decode line of None \<Rightarrow> Inl MonDecode | Some r \<Rightarrow> Inr (r, rest))"

lemma read_reply_shorter: "read_reply decode s = Inr (r, rest) \<Longrightarrow> length rest < length s"
  by (auto simp: read_reply_def dest!: cut_at_Some split: option.splits if_splits)

text \<open>The loop of \<open>call\<close> after the request was sent; \<open>qid\<close> is the sequence number as text.\<close>

function monitor_call :: "reply_decoder \<Rightarrow> bool \<Rightarrow> string \<Rightarrow> string \<Rightarrow> monitor_error + string \<times> string" where
  "monitor_call decode guest qid s =
     (case read_reply decode s of
        Inl e \<Rightarrow> Inl e
      | Inr (r, rest) \<Rightarrow>
          if \<not> guest \<and> mr_id r \<noteq> qid then monitor_call decode guest qid rest
          else case mr_error r of
            Some cls \<Rightarrow> Inl (MonReply cls)
          | None \<Rightarrow> if mr_result r = '''' \<or> mr_result r = ''null'' then Inl MonEmpty else Inr (mr_result r, rest))"
  by pat_completeness auto
termination by (relation "measure (\<lambda>(_, _, _, s). length s)") (auto dest: read_reply_shorter)

declare monitor_call.simps [simp del]

text \<open>The loop of \<open>syncGuest\<close>: at most \<open>n\<close> bytes are discarded before the delimited answer with the
  sent number; \<open>number\<close> decodes a result.\<close>

fun sync_guest :: "reply_decoder \<Rightarrow> (string \<Rightarrow> nat option) \<Rightarrow> nat \<Rightarrow> nat \<Rightarrow> string \<Rightarrow> monitor_error + string" where
  "sync_guest decode number qid 0 s = Inl MonSync"
| "sync_guest decode number qid (Suc n) [] = Inl MonEof"
| "sync_guest decode number qid (Suc n) (b # s) =
     (if b \<noteq> CHR 0xFF then sync_guest decode number qid n s
      else case read_reply decode s of
        Inl e \<Rightarrow> Inl e
      | Inr (r, rest) \<Rightarrow>
          if number (mr_result r) = Some qid then Inr rest else sync_guest decode number qid n rest)"

text \<open>The handshake of \<open>openMonitor\<close>: a QMP server greets and accepts \<open>qmp_capabilities\<close>, an agent is
  synchronised; the rest of the stream.\<close>

definition open_monitor ::
  "reply_decoder \<Rightarrow> (string \<Rightarrow> nat option) \<Rightarrow> bool \<Rightarrow> nat \<Rightarrow> string \<Rightarrow> monitor_error + string" where
  "open_monitor decode number guest qid s =
     (if guest then sync_guest decode number qid max_bytes s
      else case read_reply decode s of
        Inl e \<Rightarrow> Inl e
      | Inr (r, rest) \<Rightarrow>
          if mr_greeting r = '''' then Inl MonGreeting
          else case monitor_call decode False (itoa 1) rest of
            Inl e \<Rightarrow> Inl e
          | Inr (_, rest2) \<Rightarrow> Inr rest2)"

section \<open>The metrics of a VM\<close>

text \<open>The counters of \<open>query-blockstats\<close>; an absent or negative one fails the query.\<close>

fun block_sums :: "(int option \<times> int option) list \<Rightarrow> int \<Rightarrow> int \<Rightarrow> (int \<times> int) option" where
  "block_sums [] r w = Some (r, w)"
| "block_sums ((rd, wr) # disks) r w =
     (case (rd, wr) of
        (Some a, Some b) \<Rightarrow> if a < 0 \<or> b < 0 then None else block_sums disks (wrap64 (r + a)) (wrap64 (w + b))
      | _ \<Rightarrow> None)"

record balloon =
  bl_max :: "int option"
  bl_total :: "int option"
  bl_free :: "int option"

text \<open>The monitor during one observation: the answers to its three commands, decoded, and the cgroup memory.\<close>

record monitor_env =
  me_open :: "monitor_error + unit"
  me_status :: "monitor_error + string option"
  me_memory :: "int option"
  me_blocks :: "monitor_error + (int option \<times> int option) list option"
  me_balloon :: "monitor_error + balloon option"

definition apply_balloon :: "balloon \<Rightarrow> vm \<Rightarrow> vm" where
  "apply_balloon b v =
     (case bl_max b of
        None \<Rightarrow> v
      | Some m \<Rightarrow>
          if m \<le> 0 then v
          else (let v1 = v\<lparr>vm_memory_limit := Some m\<rparr> in
                case (bl_total b, bl_free b) of
                  (Some t, Some f) \<Rightarrow> if 0 \<le> f \<and> f \<le> t then v1\<lparr>vm_memory := Some (t - f)\<rparr> else v1
                | _ \<Rightarrow> v1))"

text \<open>The part of \<open>collectMonitor\<close> after the status: memory of the cgroup, block counters, balloon.\<close>

definition monitor_memory :: "monitor_env \<Rightarrow> vm \<Rightarrow> vm" where
  "monitor_memory env v = (case me_memory env of None \<Rightarrow> v | Some m \<Rightarrow> v\<lparr>vm_memory := Some m\<rparr>)"

definition monitor_balloon :: "monitor_env \<Rightarrow> vm \<Rightarrow> vm \<times> bool" where
  "monitor_balloon env v =
     (case me_balloon env of
        Inl (MonReply cls) \<Rightarrow> (v, cls = ''DeviceNotActive'')
      | Inl _ \<Rightarrow> (v, False)
      | Inr None \<Rightarrow> (v, False)
      | Inr (Some b) \<Rightarrow> (apply_balloon b v, True))"

definition monitor_blocks :: "monitor_env \<Rightarrow> vm \<Rightarrow> vm \<times> bool" where
  "monitor_blocks env v =
     (case me_blocks env of
        Inl _ \<Rightarrow> (v, False)
      | Inr None \<Rightarrow> (v, False)
      | Inr (Some disks) \<Rightarrow>
          (case block_sums disks 0 0 of
             None \<Rightarrow> (v, False)
           | Some (r, w) \<Rightarrow> monitor_balloon env (v\<lparr>vm_disk_read := Some r, vm_disk_write := Some w\<rparr>)))"

text \<open>\<open>collectMonitor\<close>: the VM as far as it was filled in, and whether the call returns no error.\<close>

definition collect_monitor :: "monitor_env \<Rightarrow> vm \<Rightarrow> vm \<times> bool" where
  "collect_monitor env v =
     (case me_open env of
        Inl _ \<Rightarrow> (v, False)
      | Inr _ \<Rightarrow>
          (case me_status env of
             Inl _ \<Rightarrow> (v, False)
           | Inr None \<Rightarrow> (v, False)
           | Inr (Some status) \<Rightarrow>
               if status = '''' then (v, False)
               else if status \<noteq> ''running'' then (v\<lparr>vm_qmp := status\<rparr>, True)
               else monitor_blocks env (monitor_memory env (v\<lparr>vm_qmp := status\<rparr>))))"

section \<open>Stale replies are discarded\<close>

text \<open>The lines of asynchronous events: they decode, fit the limit and carry another id.\<close>

definition event_line :: "reply_decoder \<Rightarrow> string \<Rightarrow> string \<Rightarrow> bool" where
  "event_line decode qid line \<longleftrightarrow>
     newline \<notin> set line \<and> length line < max_bytes \<and> (\<exists>r. decode line = Some r \<and> mr_id r \<noteq> qid)"

lemma monitor_call_event:
  "event_line decode qid line \<Longrightarrow> monitor_call decode False qid (line @ newline # s) = monitor_call decode False qid s"
  by (subst monitor_call.simps) (auto simp: read_reply_def cut_at_append event_line_def)

text \<open>Any number of asynchronous QMP events before a reply does not change the answer of a call.\<close>

theorem monitor_skips_events:
  assumes "\<forall>line \<in> set events. event_line decode qid line"
  shows "monitor_call decode False qid (concat (map (\<lambda>line. line @ [newline]) events) @ s) =
         monitor_call decode False qid s"
  using assms
proof (induction events)
  case (Cons line events)
  then show ?case using monitor_call_event [of decode qid line] by simp
qed simp

text \<open>When the agent is synchronised, everything up to the answer with the sent number is gone, so
  the next reply read cannot be one of a client that disconnected before.\<close>

theorem sync_guest_discards:
  assumes "sync_guest decode number qid n s = Inr rest"
  shows "\<exists>stale line r. s = stale @ CHR 0xFF # line @ newline # rest \<and> newline \<notin> set line \<and>
    decode line = Some r \<and> number (mr_result r) = Some qid"
  using assms
proof (induction decode number qid n s rule: sync_guest.induct)
  case (3 decode number qid n b s)
  show ?case
  proof (cases "b = CHR 0xFF")
    case False
    then obtain stale line r where "s = stale @ CHR 0xFF # line @ newline # rest" "newline \<notin> set line"
        "decode line = Some r" "number (mr_result r) = Some qid"
      using 3 by auto
    then show ?thesis by (intro exI [of _ "b # stale"] exI [of _ line] exI [of _ r]) simp
  next
    case True
    then obtain r rest1 where r: "read_reply decode s = Inr (r, rest1)"
      using 3(3) by (auto split: sum.splits)
    then obtain line where line: "s = line @ newline # rest1" "newline \<notin> set line" "decode line = Some r"
      by (auto simp: read_reply_def dest!: cut_at_Some split: option.splits if_splits)
    show ?thesis
    proof (cases "number (mr_result r) = Some qid")
      case True
      then have "rest1 = rest" using 3(3) \<open>b = CHR 0xFF\<close> r by simp
      then show ?thesis
        using line True \<open>b = CHR 0xFF\<close> by (intro exI [of _ "[]"] exI [of _ line] exI [of _ r]) simp
    next
      case False
      then obtain stale l2 r2 where "rest1 = stale @ CHR 0xFF # l2 @ newline # rest" "newline \<notin> set l2"
          "decode l2 = Some r2" "number (mr_result r2) = Some qid"
        using 3(2) [OF _ r refl] 3(3) \<open>b = CHR 0xFF\<close> r by auto
      then show ?thesis
        using line \<open>b = CHR 0xFF\<close>
        by (intro exI [of _ "b # line @ newline # stale"] exI [of _ l2] exI [of _ r2]) simp
    qed
  qed
qed simp_all

section \<open>The metrics can be published\<close>

definition monitor_env_ok :: "monitor_env \<Rightarrow> bool" where
  "monitor_env_ok env \<longleftrightarrow>
     (case me_status env of Inr (Some s) \<Rightarrow> length s \<le> 64 | _ \<Rightarrow> True) \<and> pred_option (\<lambda>k. 0 \<le> k) (me_memory env) \<and>
     (case me_blocks env of
        Inr (Some disks) \<Rightarrow> (case block_sums disks 0 0 of None \<Rightarrow> True | Some (r, w) \<Rightarrow> 0 \<le> r \<and> 0 \<le> w)
      | _ \<Rightarrow> True)"

lemma apply_balloon_keeps [simp]:
  "vm_id (apply_balloon b v) = vm_id v" "vm_cpus (apply_balloon b v) = vm_cpus v" "vm_ttl (apply_balloon b v) = vm_ttl v"
  by (auto simp: apply_balloon_def Let_def split: option.splits)

lemma apply_balloon_body: "vm_body_ok parse_addr limit v \<Longrightarrow> vm_body_ok parse_addr limit (apply_balloon b v)"
  by (auto simp: apply_balloon_def Let_def intro!: vm_body_metrics split: option.splits)

text \<open>What a step must keep: the identity, the number of processors and the lifetime of the VM.\<close>

definition same_vm :: "vm \<Rightarrow> vm \<Rightarrow> bool" where
  "same_vm v w \<longleftrightarrow> vm_id w = vm_id v \<and> vm_cpus w = vm_cpus v \<and> vm_ttl w = vm_ttl v"

lemma monitor_memory_keeps: "same_vm v (monitor_memory env v)"
  by (simp add: monitor_memory_def same_vm_def split: option.split)

lemma monitor_balloon_keeps: "same_vm v (fst (monitor_balloon env v))"
  by (simp add: monitor_balloon_def same_vm_def split: sum.split option.split monitor_error.split)

lemma monitor_blocks_keeps: "same_vm v (fst (monitor_blocks env v))"
  using monitor_balloon_keeps [of "v\<lparr>vm_disk_read := Some r, vm_disk_write := Some w\<rparr>" env for r w]
  by (auto simp: monitor_blocks_def same_vm_def split: sum.split option.split)

lemma collect_monitor_keeps: "same_vm v (fst (collect_monitor env v))"
  using monitor_blocks_keeps [of "monitor_memory env (v\<lparr>vm_qmp := ''running''\<rparr>)" env]
    monitor_memory_keeps [of "v\<lparr>vm_qmp := ''running''\<rparr>" env]
  by (auto simp: collect_monitor_def same_vm_def split: sum.split option.split)

lemma monitor_memory_body:
  "monitor_env_ok env \<Longrightarrow> vm_body_ok parse_addr limit v \<Longrightarrow> vm_body_ok parse_addr limit (monitor_memory env v)"
  by (cases "me_memory env") (simp_all add: monitor_memory_def monitor_env_ok_def vm_body_metrics)

lemma monitor_balloon_body:
  "vm_body_ok parse_addr limit v \<Longrightarrow> vm_body_ok parse_addr limit (fst (monitor_balloon env v))"
  by (simp add: monitor_balloon_def apply_balloon_body split: sum.split option.split monitor_error.split)

lemma monitor_blocks_body:
  "monitor_env_ok env \<Longrightarrow> vm_body_ok parse_addr limit v \<Longrightarrow> vm_body_ok parse_addr limit (fst (monitor_blocks env v))"
  by (auto simp: monitor_blocks_def monitor_env_ok_def vm_body_metrics monitor_balloon_body
      split: sum.split option.split)

lemma collect_monitor_body:
  assumes "monitor_env_ok env" and "vm_body_ok parse_addr limit v"
  shows "vm_body_ok parse_addr limit (fst (collect_monitor env v))"
proof -
  have status: "vm_body_ok parse_addr limit (v\<lparr>vm_qmp := s\<rparr>)" if "me_status env = Inr (Some s)" for s
    using assms that by (simp add: monitor_env_ok_def vm_body_status)
  note blocks = monitor_blocks_body [OF assms(1) monitor_memory_body [OF assms(1) status]]
  show ?thesis
  proof (cases "me_open env")
    case Inl
    then show ?thesis using assms(2) by (simp add: collect_monitor_def)
  next
    case Inr
    show ?thesis
    proof (cases "me_status env")
      case Inl
      then show ?thesis using assms(2) \<open>me_open env = _\<close> by (simp add: collect_monitor_def)
    next
      case (Inr s)
      show ?thesis
      proof (cases s)
        case None
        then show ?thesis using assms(2) Inr \<open>me_open env = _\<close> by (simp add: collect_monitor_def)
      next
        case (Some status)
        then have running: "vm_body_ok parse_addr limit
            (fst (monitor_blocks env (monitor_memory env (v\<lparr>vm_qmp := ''running''\<rparr>))))" if "status = ''running''"
          using blocks [of status] Inr that by simp
        show ?thesis
          using assms(2) Inr Some \<open>me_open env = _\<close> running status [of status] by (simp add: collect_monitor_def)
      qed
    qed
  qed
qed

lemma collect_monitor_ok:
  "monitor_env_ok env \<Longrightarrow> monitor_ok parse_addr limit (\<lambda>v. fst (collect_monitor env v))"
  using collect_monitor_keeps collect_monitor_body by (auto simp: monitor_ok_def same_vm_def)

section \<open>The addresses of one guest\<close>

text \<open>\<open>guestIPs\<close>: the process before and after the query, the stream of the agent's socket (\<open>None\<close> when it cannot
  be opened) and the decoder of the addresses.\<close>

definition guest_ips ::
  "reply_decoder \<Rightarrow> (string \<Rightarrow> nat option) \<Rightarrow> (string \<Rightarrow> string list option) \<Rightarrow> nat \<Rightarrow> guest_target \<Rightarrow>
   proc_error + process_sample \<Rightarrow> string option \<Rightarrow> proc_error + process_sample \<Rightarrow> string list option" where
  "guest_ips decode number ips_of qid target before stream after =
     (case before of
        Inl _ \<Rightarrow> None
      | Inr b \<Rightarrow>
          if ps_start b \<noteq> gt_start target then None
          else case stream of
            None \<Rightarrow> None
          | Some s \<Rightarrow>
              (case open_monitor decode number True qid s of
                 Inl _ \<Rightarrow> None
               | Inr rest \<Rightarrow>
                   (case monitor_call decode True (itoa 1) rest of
                      Inl _ \<Rightarrow> None
                    | Inr (raw, _) \<Rightarrow>
                        (case after of
                           Inl _ \<Rightarrow> None
                         | Inr a \<Rightarrow> if ps_pid b \<noteq> ps_pid a \<or> ps_start b \<noteq> ps_start a then None else ips_of raw))))"

text \<open>The addresses that a query returns come from the boot that was to be queried.\<close>

lemma guest_ips_same_boot:
  assumes "guest_ips decode number ips_of qid target before stream after = Some ips"
  shows "\<exists>b a. before = Inr b \<and> after = Inr a \<and> ps_pid a = ps_pid b \<and>
    ps_start b = gt_start target \<and> ps_start a = gt_start target"
proof -
  obtain b where b: "before = Inr b" "ps_start b = gt_start target"
    using assms by (cases before) (simp_all add: guest_ips_def split: if_splits)
  then obtain s where s: "stream = Some s" using assms by (cases stream) (simp_all add: guest_ips_def)
  then obtain rest where rest: "open_monitor decode number True qid s = Inr rest"
    using assms b by (cases "open_monitor decode number True qid s") (simp_all add: guest_ips_def)
  then obtain raw where "monitor_call decode True (itoa 1) rest = Inr raw"
    using assms b s by (cases "monitor_call decode True (itoa 1) rest") (simp_all add: guest_ips_def)
  then obtain a where "after = Inr a" "ps_pid b = ps_pid a" "ps_start b = ps_start a"
    using assms b s rest by (cases after; cases raw) (simp_all add: guest_ips_def split: if_splits)
  then show ?thesis using b by simp
qed

section \<open>Concrete instances\<close>

definition demo_decode :: reply_decoder where
  "demo_decode line = Some \<lparr>mr_greeting = '''', mr_id = take 1 line, mr_result = drop 1 line, mr_error = None\<rparr>"

theorem monitor_skips_events_witness:
  "monitor_call demo_decode False ''1'' (''9event'' @ [newline] @ ''1ok'' @ [newline]) = Inr (''ok'', '''')"
proof -
  have "event_line demo_decode ''1'' ''9event''" by (simp add: event_line_def demo_decode_def newline_def max_bytes_def)
  then have "monitor_call demo_decode False ''1'' (concat (map (\<lambda>line. line @ [newline]) [''9event'']) @ (''1ok'' @ [newline])) =
      monitor_call demo_decode False ''1'' (''1ok'' @ [newline])"
    by (intro monitor_skips_events) simp
  moreover have "monitor_call demo_decode False ''1'' (''1ok'' @ [newline]) = Inr (''ok'', '''')"
    by (subst monitor_call.simps) (simp add: read_reply_def demo_decode_def newline_def max_bytes_def)
  ultimately show ?thesis by simp
qed

theorem sync_guest_discards_witness:
  "\<exists>stale line. ''junk'' @ [CHR 0xFF] @ ''x5'' @ [newline] @ ''rest'' = stale @ CHR 0xFF # line @ newline # ''rest''"
proof -
  have "sync_guest demo_decode (\<lambda>s. if s = ''5'' then Some 5 else None) 5 (Suc (Suc (Suc (Suc (Suc 0)))))
      (''junk'' @ [CHR 0xFF] @ ''x5'' @ [newline] @ ''rest'') = Inr ''rest''"
    by (simp add: read_reply_def demo_decode_def newline_def max_bytes_def)
  from sync_guest_discards [OF this] show ?thesis by blast
qed

end
