(* ===== verification/PveCollector.thy ===== *)
theory PveCollector
  imports PveMonitor
begin

text \<open>
  The collector of the PVE helper (\<open>internal/pve/cache.go\<close>, \<open>metadata\<close> of \<open>internal/pve/collect.go\<close>): the
  entries of the inventory, the scheduling of observations over eight workers, and the snapshot.
  Every operation holds the collector's lock, so it is one function on the state; the interleaving of
  the refresh, the workers and the clock is a step relation.  A Go pointer to an observation is its
  allocation number.
\<close>

section \<open>The state\<close>

record observation =
  ob_ref :: nat
  ob_config :: vm_config
  ob_vm :: vm
  ob_previous :: process_sample
  ob_next :: time

text \<open>\<open>co_order\<close> is \<open>None\<close> for the nil slice, \<open>co_changed\<close> numbers the channels made by \<open>notify\<close> and
  \<open>co_alloc\<close> the observations allocated so far.\<close>

record collector =
  co_entries :: "(int, observation) gomap"
  co_order :: "int list option"
  co_active :: "int set"
  co_cursor :: nat
  co_changed :: nat
  co_inventory_at :: time
  co_inventory_err :: "string option"
  co_capacities :: "(int, int) gomap"
  co_metadata_at :: time
  co_alloc :: nat

definition new_collector :: collector where
  "new_collector = \<lparr>co_entries = [], co_order = None, co_active = {}, co_cursor = 0, co_changed = 0,
     co_inventory_at = time_zero, co_inventory_err = None, co_capacities = [], co_metadata_at = time_zero, co_alloc = 0\<rparr>"

definition co_ids :: "collector \<Rightarrow> int list" where
  "co_ids c = (case co_order c of None \<Rightarrow> [] | Some ids \<Rightarrow> ids)"

lemma co_ids_simps [simp]:
  "co_ids (c\<lparr>co_entries := m\<rparr>) = co_ids c" "co_ids (c\<lparr>co_active := a\<rparr>) = co_ids c"
  "co_ids (c\<lparr>co_cursor := k\<rparr>) = co_ids c" "co_ids (c\<lparr>co_changed := k\<rparr>) = co_ids c"
  "co_ids (c\<lparr>co_inventory_at := t\<rparr>) = co_ids c" "co_ids (c\<lparr>co_inventory_err := e\<rparr>) = co_ids c"
  "co_ids (c\<lparr>co_capacities := caps\<rparr>) = co_ids c" "co_ids (c\<lparr>co_metadata_at := t\<rparr>) = co_ids c"
  "co_ids (c\<lparr>co_alloc := k\<rparr>) = co_ids c" "co_ids (c\<lparr>co_order := Some ids\<rparr>) = ids" "co_ids new_collector = []"
  by (simp_all add: co_ids_def new_collector_def)

abbreviation "config_id config \<equiv> vm_id (vc_vm config)"

definition sample_interval :: duration where "sample_interval = 3 * second"

definition co_notify :: "collector \<Rightarrow> collector" where
  "co_notify c = c\<lparr>co_changed := co_changed c + 1\<rparr>"

section \<open>Refreshing the inventory\<close>

text \<open>The loop of \<open>refreshInventory\<close>: the new entries, the order and the allocations.\<close>

fun build_entries ::
  "(int, observation) gomap \<Rightarrow> vm_config list \<Rightarrow> (int, observation) gomap \<Rightarrow> int list \<Rightarrow> nat \<Rightarrow>
   (int, observation) gomap \<times> int list \<times> nat" where
  "build_entries old [] entries order n = (entries, order, n)"
| "build_entries old (config # configs) entries order n =
     (let i = config_id config;
          (entry, n') = (case map_of old i of
             None \<Rightarrow> (\<lparr>ob_ref = n, ob_config = config, ob_vm = (vc_vm config)\<lparr>vm_status := ''unknown''\<rparr>,
                       ob_previous = no_process, ob_next = time_zero\<rparr>, n + 1)
           | Some e \<Rightarrow> (e\<lparr>ob_config := config\<rparr>, n))
      in build_entries old configs (AList.update i entry entries) (order @ [i]) n')"

definition refresh_inventory :: "time \<Rightarrow> string + vm_config list \<Rightarrow> collector \<Rightarrow> collector" where
  "refresh_inventory now result c =
     (case result of
        Inl err \<Rightarrow> c\<lparr>co_inventory_err := Some err\<rparr>
      | Inr configs \<Rightarrow>
          (let (entries, order, n) = build_entries (co_entries c) configs [] [] (co_alloc c)
           in co_notify (c\<lparr>co_inventory_err := None, co_entries := entries, co_order := Some order,
                co_inventory_at := now, co_alloc := n\<rparr>)))"

section \<open>Scheduling\<close>

record query_job =
  qj_ref :: nat
  qj_config :: vm_config
  qj_previous :: process_sample
  qj_started :: time

text \<open>What \<open>next\<close> hands to a worker; dereferencing a nil entry panics.\<close>

datatype next_result = NextWork nat query_job | NextWait duration | NextPanic

text \<open>The loop of \<open>next\<close> over the positions from the cursor on.\<close>

fun scan_entries :: "collector \<Rightarrow> time \<Rightarrow> nat list \<Rightarrow> duration \<Rightarrow> next_result" where
  "scan_entries c now [] wait = NextWait wait"
| "scan_entries c now (index # rest) wait =
     (let i = co_ids c ! index in
      if i \<in> co_active c then scan_entries c now rest wait
      else case map_of (co_entries c) i of
        None \<Rightarrow> NextPanic
      | Some e \<Rightarrow>
          if now < ob_next e then scan_entries c now rest (min wait (time_sub (ob_next e) now))
          else NextWork index \<lparr>qj_ref = ob_ref e, qj_config = ob_config e, qj_previous = ob_previous e, qj_started = now\<rparr>)"

definition scan_order :: "collector \<Rightarrow> nat list" where
  "scan_order c = map (\<lambda>offset. (co_cursor c + offset) mod length (co_ids c)) [0..<length (co_ids c)]"

definition collector_next :: "time \<Rightarrow> collector \<Rightarrow> collector \<times> next_result" where
  "collector_next now c =
     (case scan_entries c now (scan_order c) sample_interval of
        NextWork index j \<Rightarrow>
          (c\<lparr>co_active := insert (co_ids c ! index) (co_active c), co_cursor := (index + 1) mod length (co_ids c)\<rparr>,
           NextWork index j)
      | r \<Rightarrow> (c, r))"

text \<open>The end of an iteration of \<open>worker\<close>, with the observation it made.\<close>

definition collector_finish :: "query_job \<Rightarrow> bool \<Rightarrow> vm \<times> process_sample \<Rightarrow> collector \<Rightarrow> collector" where
  "collector_finish j stopped result c =
     (let i = config_id (qj_config j);
          c1 = c\<lparr>co_active := co_active c - {i}\<rparr>
      in co_notify
           (case map_of (co_entries c1) i of
              None \<Rightarrow> c1
            | Some e \<Rightarrow>
                if ob_ref e = qj_ref j \<and> \<not> stopped
                then c1\<lparr>co_entries := AList.update i
                         (e\<lparr>ob_vm := fst result, ob_previous := snd result,
                            ob_next := time_add (qj_started j) sample_interval\<rparr>) (co_entries c1)\<rparr>
                else c1))"

section \<open>Metadata\<close>

text \<open>\<open>metadata\<close> after the query: \<open>None\<close> is a JSON null.  The last entry of a VM wins.\<close>

definition bad_node_name :: "string \<Rightarrow> bool" where
  "bad_node_name host \<longleftrightarrow>
     host = '''' \<or> list_ex (\<lambda>ch. ch \<in> {CHR ''/'', CHR 0x5C, CHR '' '', CHR 0x09, CHR 0x0D, CHR 0x0A}) host"

definition capacities_of :: "(int \<times> int option) list \<Rightarrow> (int, int) gomap" where
  "capacities_of machines =
     fold (\<lambda>(i, capacity) m. case capacity of
             None \<Rightarrow> m | Some k \<Rightarrow> if 0 \<le> k then AList.update i k m else m) machines []"

definition collector_metadata ::
  "time \<Rightarrow> string \<Rightarrow> (int \<times> int option) list option option \<Rightarrow> collector \<Rightarrow> collector \<times> bool" where
  "collector_metadata now host answer c =
     (if bad_node_name host then (c, False)
      else case answer of
        None \<Rightarrow> (c, False)
      | Some None \<Rightarrow> (c, False)
      | Some (Some machines) \<Rightarrow> (c\<lparr>co_capacities := capacities_of machines, co_metadata_at := now\<rparr>, True))"

section \<open>The snapshot\<close>

definition snapshot_vm :: "time \<Rightarrow> collector \<Rightarrow> int \<Rightarrow> observation \<Rightarrow> vm" where
  "snapshot_vm now c i e =
     expire_vm now
       ((ob_vm e)\<lparr>vm_name := vm_name (vc_vm (ob_config e)), vm_rates := vm_rates (vc_vm (ob_config e)),
          vm_disk_capacity :=
            (if time_sub now (co_metadata_at c) < 2 * minute then map_of (co_capacities c) i else None)\<rparr>)"

text \<open>A nil entry panics.\<close>

fun snapshot_vms :: "time \<Rightarrow> collector \<Rightarrow> int list \<Rightarrow> vm list option" where
  "snapshot_vms now c [] = Some []"
| "snapshot_vms now c (i # ids) =
     (case (map_of (co_entries c) i, snapshot_vms now c ids) of
        (Some e, Some vms) \<Rightarrow> Some (snapshot_vm now c i e # vms)
      | _ \<Rightarrow> None)"

definition unavailable_inventory :: string where
  "unavailable_inventory = ''PVE inventory unavailable or expired''"

definition snapshot_error_of :: "time \<Rightarrow> collector \<Rightarrow> string option" where
  "snapshot_error_of now c =
     (if is_zero_time (co_inventory_at c) \<or> 90 * second < time_sub now (co_inventory_at c)
      then Some unavailable_inventory else co_inventory_err c)"

definition collector_snapshot ::
  "time \<Rightarrow> string \<Rightarrow> (int \<Rightarrow> guest_state option) \<Rightarrow> collector \<Rightarrow> snapshot option" where
  "collector_snapshot now host read c =
     (let err = snapshot_error_of now c;
          make = (\<lambda>vms. \<lparr>sn_schema = 1, sn_provider = ''pve'', sn_host = host, sn_collected = now,
            sn_success = (if is_zero_time (co_inventory_at c) then None else Some (co_inventory_at c)), sn_ttl = 90,
            sn_status = (if err = None then ''ok'' else ''error''),
            sn_error = (case err of None \<Rightarrow> '''' | Some e \<Rightarrow> error_text e), sn_vms = vms\<rparr>)
      in case co_order c of
           None \<Rightarrow> Some (make None)
         | Some ids \<Rightarrow>
             map_option (\<lambda>vms. make (Some (map (attach_guest_ips read host now) vms))) (snapshot_vms now c ids))"

datatype lookup_error = LookupSource | LookupNotFound

definition collector_contains :: "time \<Rightarrow> int \<Rightarrow> collector \<Rightarrow> lookup_error option" where
  "collector_contains now i c =
     (if co_inventory_err c \<noteq> None \<or> is_zero_time (co_inventory_at c) \<or>
         90 * second < time_sub now (co_inventory_at c) then Some LookupSource
      else if map_of (co_entries c) i = None then Some LookupNotFound
      else None)"


section \<open>The running helper\<close>

text \<open>The clock, the collector, the queries in flight, whether the context ended, and the log of the queries
  started: the observation and the time, newest first.\<close>

record helper =
  he_now :: time
  he_coll :: collector
  he_jobs :: "query_job list"
  he_stopped :: bool
  he_log :: "(nat \<times> time) list"

definition config_ok :: "addr_parser \<Rightarrow> vm_config \<Rightarrow> bool" where
  "config_ok parse_addr config \<longleftrightarrow>
     vm_ok parse_addr time_zero (vc_vm config) \<and> (case vm_cpus (vc_vm config) of None \<Rightarrow> False | Some n \<Rightarrow> 1 \<le> n)"

text \<open>What an inventory returns: distinct VMs with publishable configurations, or an error with a text.\<close>

definition inventory_ok :: "addr_parser \<Rightarrow> string + vm_config list \<Rightarrow> bool" where
  "inventory_ok parse_addr result \<longleftrightarrow>
     (case result of
        Inl err \<Rightarrow> error_text err \<noteq> ''''
      | Inr configs \<Rightarrow>
          list_all (config_ok parse_addr) configs \<and> distinct (map config_id configs) \<and> length configs \<le> 4096)"

text \<open>What a worker meets at a VM, at a time up to \<open>now\<close>.\<close>

definition sample_ok :: "addr_parser \<Rightarrow> time \<Rightarrow> vm_config \<Rightarrow> sample_env \<Rightarrow> bool" where
  "sample_ok parse_addr now config env \<longleftrightarrow>
     0 < sa_now env \<and> sa_now env \<le> now \<and> bytes_ok env config \<and>
     (\<exists>menv. monitor_env_ok menv \<and> sa_monitor env = (\<lambda>v. fst (collect_monitor menv v)))"

text \<open>The steps of the helper, in an environment that is restricted in three ways: the clock advances, an
  inventory is \<open>inventory_ok\<close>, a sample \<open>sample_ok\<close>.  What a refresh by any other inventory does is
  \<open>refreshed_snapshot_valid_iff\<close>.  A worker reads the clock before it locks the collector, so it may come
  with an older time.\<close>

inductive helper_step :: "addr_parser \<Rightarrow> helper \<Rightarrow> helper \<Rightarrow> bool" for parse_addr where
  clock: "0 \<le> d \<Longrightarrow> helper_step parse_addr s (s\<lparr>he_now := he_now s + d\<rparr>)"
| stop: "helper_step parse_addr s (s\<lparr>he_stopped := True\<rparr>)"
| refresh: "inventory_ok parse_addr result \<Longrightarrow>
     helper_step parse_addr s (s\<lparr>he_coll := refresh_inventory (he_now s) result (he_coll s)\<rparr>)"
| metadata: "helper_step parse_addr s (s\<lparr>he_coll := fst (collector_metadata (he_now s) host answer (he_coll s))\<rparr>)"
| start: "length (he_jobs s) < 8 \<Longrightarrow> started \<le> he_now s \<Longrightarrow>
     collector_next started (he_coll s) = (c, NextWork index j) \<Longrightarrow>
     helper_step parse_addr s (s\<lparr>he_coll := c, he_jobs := j # he_jobs s, he_log := (qj_ref j, started) # he_log s\<rparr>)"
| finish: "j \<in> set (he_jobs s) \<Longrightarrow> sample_ok parse_addr (he_now s) (qj_config j) env \<Longrightarrow>
     helper_step parse_addr s
       (s\<lparr>he_coll := collector_finish j (he_stopped s) (sample_vm env (qj_config j) (qj_previous j)) (he_coll s),
          he_jobs := remove1 j (he_jobs s)\<rparr>)"

definition start_helper :: "time \<Rightarrow> helper" where
  "start_helper now = \<lparr>he_now = now, he_coll = new_collector, he_jobs = [], he_stopped = False, he_log = []\<rparr>"

section \<open>The collector's invariant\<close>

definition entry_ok :: "addr_parser \<Rightarrow> time \<Rightarrow> int \<times> observation \<Rightarrow> bool" where
  "entry_ok parse_addr now = (\<lambda>(i, e).
     config_id (ob_config e) = i \<and> config_ok parse_addr (ob_config e) \<and>
     vm_ok parse_addr now (ob_vm e) \<and> vm_id (ob_vm e) = i)"

definition coll_inv :: "addr_parser \<Rightarrow> time \<Rightarrow> collector \<Rightarrow> bool" where
  "coll_inv parse_addr now c \<longleftrightarrow>
     map fst (co_entries c) = co_ids c \<and> distinct (co_ids c) \<and> length (co_ids c) \<le> 4096 \<and>
     list_all (entry_ok parse_addr now) (co_entries c) \<and>
     (co_order c = None \<longleftrightarrow> is_zero_time (co_inventory_at c)) \<and>
     0 \<le> co_inventory_at c \<and> co_inventory_at c \<le> now \<and>
     pred_option (\<lambda>err. error_text err \<noteq> '''') (co_inventory_err c) \<and>
     list_all (\<lambda>(i, k). 0 \<le> k) (co_capacities c)"

lemma entry_ok_mono: "entry_ok parse_addr now ie \<Longrightarrow> now \<le> now' \<Longrightarrow> entry_ok parse_addr now' ie"
  by (auto simp: entry_ok_def intro: vm_ok_mono)

lemma coll_inv_mono: "coll_inv parse_addr now c \<Longrightarrow> now \<le> now' \<Longrightarrow> coll_inv parse_addr now' c"
  by (auto simp: coll_inv_def list_all_iff intro: entry_ok_mono)

lemma coll_inv_new: "0 \<le> now \<Longrightarrow> coll_inv parse_addr now new_collector"
  unfolding coll_inv_def co_ids_simps by (simp add: new_collector_def is_zero_time_def time_zero_def)

lemma coll_inv_frame [simp]:
  "coll_inv parse_addr now (c\<lparr>co_active := a\<rparr>) = coll_inv parse_addr now c"
  "coll_inv parse_addr now (c\<lparr>co_cursor := k\<rparr>) = coll_inv parse_addr now c"
  "coll_inv parse_addr now (co_notify c) = coll_inv parse_addr now c"
  by (simp_all add: coll_inv_def co_notify_def)

lemma coll_inv_entry:
  "coll_inv parse_addr now c \<Longrightarrow> map_of (co_entries c) i = Some e \<Longrightarrow> entry_ok parse_addr now (i, e)"
  by (auto simp: coll_inv_def list_all_iff dest: map_of_SomeD)

lemma coll_inv_lookup:
  "coll_inv parse_addr now c \<Longrightarrow> i \<in> set (co_ids c) \<Longrightarrow> \<exists>e. map_of (co_entries c) i = Some e"
  unfolding coll_inv_def by (metis dom_keys not_None_eq)

text \<open>A fresh entry and a kept one.\<close>

lemma config_ok_entry:
  assumes "config_ok parse_addr config" and "0 \<le> now"
  shows "vm_ok parse_addr now ((vc_vm config)\<lparr>vm_status := ''unknown''\<rparr>)"
  using assms vm_ok_mono [of parse_addr time_zero "vc_vm config" now]
  by (simp add: config_ok_def vm_ok_def vm_counters_def time_zero_def)

lemma build_entries_inv:
  assumes "build_entries old configs entries order n = (entries', order', n')"
    and "list_all (config_ok parse_addr) configs" and "0 \<le> now"
    and "\<And>i e. map_of old i = Some e \<Longrightarrow> entry_ok parse_addr now (i, e)"
    and "map fst entries = order" and "distinct (order @ map config_id configs)"
    and "list_all (entry_ok parse_addr now) entries"
  shows "map fst entries' = order' \<and> order' = order @ map config_id configs \<and>
    list_all (entry_ok parse_addr now) entries'"
  using assms
proof (induction old configs entries order n rule: build_entries.induct)
  case (2 old config configs entries order n)
  let ?i = "config_id config"
  obtain entry n1 where en: "(case map_of old ?i of
             None \<Rightarrow> (\<lparr>ob_ref = n, ob_config = config, ob_vm = (vc_vm config)\<lparr>vm_status := ''unknown''\<rparr>,
                       ob_previous = no_process, ob_next = time_zero\<rparr>, n + 1)
           | Some e \<Rightarrow> (e\<lparr>ob_config := config\<rparr>, n)) = (entry, n1)"
    by fastforce
  have ok: "entry_ok parse_addr now (?i, entry)"
    using en 2(3,4) 2(5) config_ok_entry [of parse_addr config now]
    by (auto simp: entry_ok_def split: option.splits)
  have fresh: "map_of entries ?i = None"
    using 2(6,7) dom_keys [of entries ?i] by auto
  have step: "build_entries old configs (AList.update ?i entry entries) (order @ [?i]) n1 = (entries', order', n')"
    using 2(2) en by (simp add: Let_def)
  have "map fst entries' = order' \<and> order' = (order @ [?i]) @ map config_id configs \<and>
      list_all (entry_ok parse_addr now) entries'"
    by (rule 2(1) [OF refl en [symmetric] refl step])
      (use 2 ok in \<open>auto simp: update_fresh [OF fresh]\<close>)
  then show ?case by simp
qed simp

lemma refresh_inv:
  assumes "coll_inv parse_addr now c" and "inventory_ok parse_addr result" and "0 < now"
  shows "coll_inv parse_addr now (refresh_inventory now result c)"
proof (cases result)
  case (Inl err)
  then show ?thesis using assms by (simp add: refresh_inventory_def coll_inv_def inventory_ok_def)
next
  case (Inr configs)
  obtain entries order n where b: "build_entries (co_entries c) configs [] [] (co_alloc c) = (entries, order, n)"
    by (cases "build_entries (co_entries c) configs [] [] (co_alloc c)") auto
  have ok: "list_all (config_ok parse_addr) configs" "distinct (map config_id configs)" "length configs \<le> 4096"
    using assms(2) Inr by (simp_all add: inventory_ok_def)
  have "map fst entries = order \<and> order = [] @ map config_id configs \<and> list_all (entry_ok parse_addr now) entries"
    by (rule build_entries_inv [OF b ok(1)]) (use assms ok coll_inv_entry in auto)
  then show ?thesis
    using assms ok Inr b
    by (simp add: refresh_inventory_def coll_inv_def is_zero_time_def co_notify_def)
qed

lemma capacities_nonneg: "list_all (\<lambda>(i, k). 0 \<le> k) (capacities_of machines)"
proof -
  have "list_all (\<lambda>(i, k). 0 \<le> k)
      (fold (\<lambda>(i, capacity) m. case capacity of
             None \<Rightarrow> m | Some k \<Rightarrow> if 0 \<le> k then AList.update i k m else m) machines m)"
    if "list_all (\<lambda>(i, k). 0 \<le> k) m" for m :: "(int, int) gomap"
    using that
  proof (induction machines arbitrary: m)
    case (Cons im machines)
    obtain i capacity where im: "im = (i, capacity)" by fastforce
    have "list_all (\<lambda>(i, k). 0 \<le> k) (AList.update i k m)" if "0 \<le> k" for k
      using Cons.prems that set_update_go [of i k m] by (auto simp: list_all_iff)
    then show ?case using Cons im by (auto split: option.splits)
  qed simp
  then show ?thesis by (simp add: capacities_of_def)
qed

lemma metadata_inv:
  "coll_inv parse_addr now c \<Longrightarrow> coll_inv parse_addr now (fst (collector_metadata t host answer c))"
proof -
  assume inv: "coll_inv parse_addr now c"
  have "coll_inv parse_addr now (c\<lparr>co_capacities := capacities_of machines, co_metadata_at := t\<rparr>)" for machines
    using inv capacities_nonneg unfolding coll_inv_def by simp
  then show ?thesis using inv by (simp add: collector_metadata_def split: option.split)
qed


section \<open>Scheduling\<close>

text \<open>What the scan returns when every position is an entry.\<close>

lemma scan_work:
  assumes "scan_entries c now positions wait = NextWork index j"
  shows "index \<in> set positions \<and> co_ids c ! index \<notin> co_active c \<and>
    (\<exists>e. map_of (co_entries c) (co_ids c ! index) = Some e \<and> ob_next e \<le> now \<and>
       j = \<lparr>qj_ref = ob_ref e, qj_config = ob_config e, qj_previous = ob_previous e, qj_started = now\<rparr>)"
  using assms
  by (induction positions arbitrary: wait) (auto simp: Let_def not_less split: if_splits option.splits)

lemma scan_wait:
  assumes "scan_entries c now positions wait = NextWait w" and "0 < wait"
  shows "0 < w \<and> w \<le> wait \<and>
    (\<forall>index \<in> set positions. co_ids c ! index \<notin> co_active c \<longrightarrow>
       (\<exists>e. map_of (co_entries c) (co_ids c ! index) = Some e \<and> now < ob_next e \<and> w \<le> time_sub (ob_next e) now))"
  using assms
proof (induction positions arbitrary: wait)
  case (Cons index positions)
  show ?case
  proof (cases "co_ids c ! index \<in> co_active c")
    case True
    then show ?thesis using Cons by (simp add: Let_def)
  next
    case False
    then obtain e where e: "map_of (co_entries c) (co_ids c ! index) = Some e" "now < ob_next e"
        "scan_entries c now positions (min wait (time_sub (ob_next e) now)) = NextWait w"
      using Cons.prems(1) by (auto simp: Let_def split: option.splits if_splits)
    moreover have "0 < time_sub (ob_next e) now" using e(2) by (simp add: go_time)
    ultimately show ?thesis
      using Cons.IH [OF e(3)] Cons.prems(2) by auto
  qed
qed simp

lemma scan_no_panic:
  assumes "\<And>index. index \<in> set positions \<Longrightarrow> map_of (co_entries c) (co_ids c ! index) \<noteq> None"
  shows "scan_entries c now positions wait \<noteq> NextPanic"
  using assms
proof (induction positions arbitrary: wait)
  case (Cons index positions)
  obtain e where e: "map_of (co_entries c) (co_ids c ! index) = Some e" using Cons.prems [of index] by auto
  have "scan_entries c now positions w \<noteq> NextPanic" for w using Cons by simp
  then show ?case using e by (auto simp: Let_def)
qed simp

lemma scan_order_set: "set (scan_order c) = {..<length (co_ids c)}"
proof (cases "co_ids c = []")
  case False
  define n where "n = length (co_ids c)"
  have n: "0 < n" using False by (simp add: n_def)
  have "k \<in> (\<lambda>offset. (co_cursor c + offset) mod n) ` {..<n}" if "k < n" for k
  proof (intro image_eqI)
    let ?offset = "(k + (n - co_cursor c mod n)) mod n"
    have "(co_cursor c + ?offset) mod n = (co_cursor c mod n + (k + (n - co_cursor c mod n))) mod n"
      by (simp add: mod_simps)
    also have "co_cursor c mod n + (k + (n - co_cursor c mod n)) = k + n"
      using mod_less_divisor [OF n, of "co_cursor c"] by linarith
    finally show "k = (co_cursor c + ?offset) mod n" using that by simp
    show "?offset \<in> {..<n}" using n by simp
  qed
  moreover have "(\<lambda>offset. (co_cursor c + offset) mod n) ` {..<n} \<subseteq> {..<n}" using n by auto
  ultimately show ?thesis unfolding scan_order_def n_def [symmetric] by (auto simp: atLeast0LessThan)
qed (simp add: scan_order_def)

lemma next_no_panic:
  assumes "coll_inv parse_addr limit c"
  shows "snd (collector_next now c) \<noteq> NextPanic"
proof -
  have "scan_entries c now (scan_order c) sample_interval \<noteq> NextPanic"
    by (rule scan_no_panic) (use assms coll_inv_lookup nth_mem in \<open>fastforce simp: scan_order_set\<close>)
  then show ?thesis by (simp add: collector_next_def split: next_result.split)
qed

text \<open>The facts of a started query.\<close>

lemma next_work:
  assumes "collector_next now c = (c', NextWork index j)"
  obtains i e where "i \<in> set (co_ids c)" and "i \<notin> co_active c" and "map_of (co_entries c) i = Some e"
    and "ob_next e \<le> now"
    and "j = \<lparr>qj_ref = ob_ref e, qj_config = ob_config e, qj_previous = ob_previous e, qj_started = now\<rparr>"
    and "c' = c\<lparr>co_active := insert i (co_active c), co_cursor := (index + 1) mod length (co_ids c)\<rparr>"
proof -
  have scan: "scan_entries c now (scan_order c) sample_interval = NextWork index j"
    and c': "c' = c\<lparr>co_active := insert (co_ids c ! index) (co_active c), co_cursor := (index + 1) mod length (co_ids c)\<rparr>"
    using assms by (auto simp: collector_next_def split: next_result.splits)
  from scan_work [OF scan] obtain e where "map_of (co_entries c) (co_ids c ! index) = Some e" "ob_next e \<le> now"
      "j = \<lparr>qj_ref = ob_ref e, qj_config = ob_config e, qj_previous = ob_previous e, qj_started = now\<rparr>"
      "index < length (co_ids c)" "co_ids c ! index \<notin> co_active c"
    by (auto simp: scan_order_set)
  with c' show thesis by (intro that [of "co_ids c ! index" e]) simp_all
qed

lemma next_wait:
  assumes "collector_next now c = (c', NextWait w)"
  shows "c' = c \<and> 0 < w \<and> w \<le> sample_interval \<and>
    (\<forall>i \<in> set (co_ids c). i \<notin> co_active c \<longrightarrow>
       (\<exists>e. map_of (co_entries c) i = Some e \<and> now < ob_next e \<and> w \<le> time_sub (ob_next e) now))"
proof -
  have scan: "scan_entries c now (scan_order c) sample_interval = NextWait w" and "c' = c"
    using assms by (auto simp: collector_next_def split: next_result.splits)
  have "\<forall>i \<in> set (co_ids c). \<exists>index \<in> set (scan_order c). i = co_ids c ! index"
    unfolding scan_order_set by (auto simp: in_set_conv_nth)
  with scan_wait [OF scan] \<open>c' = c\<close> show ?thesis
    by (fastforce simp: sample_interval_def second_def)
qed

lemma finish_inv:
  assumes "coll_inv parse_addr now c" and "0 \<le> now"
    and "vm_ok parse_addr now (fst result)" and "vm_id (fst result) = config_id (qj_config j)"
  shows "coll_inv parse_addr now (collector_finish j stopped result c)"
proof (cases "map_of (co_entries c) (config_id (qj_config j))")
  case None
  then show ?thesis using assms(1) by (simp add: collector_finish_def Let_def)
next
  case (Some e)
  let ?i = "config_id (qj_config j)"
  let ?e = "e\<lparr>ob_vm := fst result, ob_previous := snd result, ob_next := time_add (qj_started j) sample_interval\<rparr>"
  have ok: "entry_ok parse_addr now (?i, ?e)"
    using coll_inv_entry [OF assms(1) Some] assms by (simp add: entry_ok_def)
  have "coll_inv parse_addr now (c\<lparr>co_entries := AList.update ?i ?e (co_entries c)\<rparr>)"
    using assms(1) ok set_update_go [of ?i ?e "co_entries c"] update_present_keys [OF Some]
    unfolding coll_inv_def by (auto simp: list_all_iff)
  then have "coll_inv parse_addr now (c\<lparr>co_active := a, co_entries := AList.update ?i ?e (co_entries c)\<rparr>)" for a
    by (simp add: coll_inv_def)
  then show ?thesis using assms(1) Some by (simp add: collector_finish_def Let_def)
qed


section \<open>The snapshot of the running helper\<close>

lemma snapshot_vms_Some:
  assumes "\<And>i. i \<in> set ids \<Longrightarrow> \<exists>e. map_of (co_entries c) i = Some e"
  shows "snapshot_vms now c ids = Some (map (\<lambda>i. snapshot_vm now c i (the (map_of (co_entries c) i))) ids)"
  using assms by (induction ids) fastforce+

lemma snapshot_vm_ok:
  assumes "coll_inv parse_addr now c" and "map_of (co_entries c) i = Some e"
  shows "vm_ok parse_addr now (snapshot_vm now c i e)" and "vm_id (snapshot_vm now c i e) = i"
proof -
  have e: "config_ok parse_addr (ob_config e)" "vm_ok parse_addr now (ob_vm e)" "vm_id (ob_vm e) = i"
    using coll_inv_entry [OF assms] by (simp_all add: entry_ok_def)
  have "0 \<le> k" if "map_of (co_capacities c) i = Some k" for k
    using assms(1) map_of_SomeD [OF that] by (auto simp: coll_inv_def list_all_iff)
  then have cap: "pred_option (\<lambda>k. 0 \<le> k)
      (if time_sub now (co_metadata_at c) < 2 * minute then map_of (co_capacities c) i else None)"
    by (cases "map_of (co_capacities c) i") auto
  show "vm_ok parse_addr now (snapshot_vm now c i e)"
    unfolding snapshot_vm_def
    by (rule expire_vm_ok) (use e cap in \<open>simp add: vm_ok_def config_ok_def vm_counters_def\<close>)
  show "vm_id (snapshot_vm now c i e) = i" using e by (simp add: snapshot_vm_def)
qed

lemma snapshot_error_text: "coll_inv parse_addr now c \<Longrightarrow> snapshot_error_of now c = Some e \<Longrightarrow> error_text e \<noteq> ''''"
proof -
  have "error_text (unavailable_inventory @ '''') \<noteq> ''''"
    by (rule error_text_nonempty) (simp_all add: unavailable_inventory_def in_range_def)
  then show "coll_inv parse_addr now c \<Longrightarrow> snapshot_error_of now c = Some e \<Longrightarrow> error_text e \<noteq> ''''"
    by (auto simp: snapshot_error_of_def coll_inv_def split: if_splits)
qed

text \<open>The addresses in the files of the guests were checked when they were decoded.\<close>

definition reads_ok :: "addr_parser \<Rightarrow> (int \<Rightarrow> guest_state option) \<Rightarrow> bool" where
  "reads_ok parse_addr read \<longleftrightarrow> (\<forall>i st. read i = Some st \<longrightarrow> ips_ok parse_addr (gs_ips st))"

lemma snapshot_of_inv:
  assumes "coll_inv parse_addr now c" and "0 < now" and "host \<noteq> ''''" and "length host \<le> 255" and "reads_ok parse_addr read"
  shows "\<exists>s. collector_snapshot now host read c = Some s \<and> snapshot_ok parse_addr s"
proof -
  have err: "error_text e \<noteq> ''''" if "snapshot_error_of now c = Some e" for e
    by (rule snapshot_error_text [OF assms(1) that])
  note inv = assms(1) [unfolded coll_inv_def]
  show ?thesis
  proof (cases "co_order c")
    case None
    then have "is_zero_time (co_inventory_at c)" using inv by simp
    then show ?thesis
      using None assms err error_text_bound
      by (simp add: collector_snapshot_def Let_def snapshot_ok_def snapshot_error_of_def is_zero_time_def)
  next
    case (Some ids)
    then have ids: "co_ids c = ids" and at: "\<not> is_zero_time (co_inventory_at c)" using inv by (simp_all add: co_ids_def)
    define vms where "vms = map (\<lambda>i. snapshot_vm now c i (the (map_of (co_entries c) i))) ids"
    have found: "\<exists>e. map_of (co_entries c) i = Some e" if "i \<in> set ids" for i
      using coll_inv_lookup [OF assms(1)] that ids by simp
    have vms: "snapshot_vms now c ids = Some vms" unfolding vms_def by (rule snapshot_vms_Some) (rule found)
    have ok: "vm_ok parse_addr now v" if "v \<in> set vms" for v
      using that found snapshot_vm_ok(1) [OF assms(1)] unfolding vms_def by fastforce
    have attached: "vm_ok parse_addr now (attach_guest_ips read host now v)" if "v \<in> set vms" for v
      by (rule attach_guest_ips_ok [OF ok [OF that]]) (use assms(5) in \<open>simp add: reads_ok_def\<close>)
    have "map vm_id vms = ids"
      unfolding vms_def using found snapshot_vm_ok(2) [OF assms(1)] by (induction ids) fastforce+
    then have dist: "map vm_id (map (attach_guest_ips read host now) vms) = ids" by (simp add: comp_def)
    have "length vms \<le> 4096" using inv ids by (simp add: vms_def)
    then show ?thesis
      using Some vms assms err error_text_bound at attached dist inv ids
      by (auto simp: collector_snapshot_def Let_def snapshot_ok_def list_all_iff is_zero_time_def)
  qed
qed


section \<open>Pointers\<close>

definition refs_ok :: "(int, observation) gomap \<Rightarrow> nat \<Rightarrow> bool" where
  "refs_ok entries n \<longleftrightarrow>
     (\<forall>i e. map_of entries i = Some e \<longrightarrow> ob_ref e < n) \<and>
     (\<forall>i j e f. map_of entries i = Some e \<longrightarrow> map_of entries j = Some f \<longrightarrow> ob_ref e = ob_ref f \<longrightarrow> i = j)"

text \<open>An entry after a refresh is an old one, with its pointer and its due time, or newly allocated.\<close>

definition kept_or_fresh :: "(int, observation) gomap \<Rightarrow> nat \<Rightarrow> (int, observation) gomap \<Rightarrow> bool" where
  "kept_or_fresh old n entries \<longleftrightarrow>
     (\<forall>i e. map_of entries i = Some e \<longrightarrow>
        (\<exists>e0. map_of old i = Some e0 \<and> ob_ref e = ob_ref e0 \<and> ob_next e = ob_next e0) \<or> n \<le> ob_ref e)"

lemma refs_ok_update:
  assumes "refs_ok m n" and "n \<le> n'" and "ob_ref e < n'"
    and "\<And>j f. map_of m j = Some f \<Longrightarrow> ob_ref f = ob_ref e \<Longrightarrow> j = i"
  shows "refs_ok (AList.update i e m) n'"
  unfolding refs_ok_def map_of_update_go
proof (intro conjI allI impI)
  show "ob_ref x < n'" if "((map_of m)(i \<mapsto> e)) j = Some x" for j x
  proof (cases "j = i")
    case False
    then have "ob_ref x < n" using that assms(1) by (simp add: refs_ok_def)
    then show ?thesis using assms(2) by simp
  qed (use that assms(3) in simp)
  show "j = k" if "((map_of m)(i \<mapsto> e)) j = Some x" "((map_of m)(i \<mapsto> e)) k = Some y" "ob_ref x = ob_ref y" for j k x y
  proof (cases "j = i")
    case True
    then have "x = e" using that(1) by simp
    then have "k = i" if "k \<noteq> i"
      using assms(4) [of k y] that \<open>((map_of m)(i \<mapsto> e)) k = Some y\<close> \<open>ob_ref x = ob_ref y\<close> by (metis fun_upd_other)
    then show ?thesis using True by blast
  next
    case False
    then have x: "map_of m j = Some x" using that by simp
    show ?thesis
    proof (cases "k = i")
      case True
      then have "y = e" using that(2) by simp
      then show ?thesis using assms(4) [OF x] that(3) True by blast
    next
      case False
      then have "map_of m k = Some y" using that by simp
      then show ?thesis using x that(3) assms(1) unfolding refs_ok_def by blast
    qed
  qed
qed

lemma kept_or_fresh_update:
  assumes "kept_or_fresh old a m"
    and "(\<exists>e0. map_of old i = Some e0 \<and> ob_ref e = ob_ref e0 \<and> ob_next e = ob_next e0) \<or> a \<le> ob_ref e"
  shows "kept_or_fresh old a (AList.update i e m)"
  unfolding kept_or_fresh_def map_of_update_go
proof (intro allI impI)
  fix j x
  assume x: "((map_of m)(i \<mapsto> e)) j = Some x"
  show "(\<exists>e0. map_of old j = Some e0 \<and> ob_ref x = ob_ref e0 \<and> ob_next x = ob_next e0) \<or> a \<le> ob_ref x"
  proof (cases "j = i")
    case True
    then show ?thesis using x assms(2) by simp
  next
    case False
    then have "map_of m j = Some x" using x by simp
    then show ?thesis using assms(1) unfolding kept_or_fresh_def by blast
  qed
qed

lemma build_entries_refs:
  assumes "build_entries old configs entries order n = (entries', order', n')"
    and "refs_ok old a" and "a \<le> n" and "refs_ok entries n" and "kept_or_fresh old a entries"
  shows "a \<le> n' \<and> refs_ok entries' n' \<and> kept_or_fresh old a entries'"
  using assms
proof (induction old configs entries order n rule: build_entries.induct)
  case (2 old config configs entries order n)
  let ?i = "config_id config"
  let ?made = "case map_of old ?i of
             None \<Rightarrow> (\<lparr>ob_ref = n, ob_config = config, ob_vm = (vc_vm config)\<lparr>vm_status := ''unknown''\<rparr>,
                       ob_previous = no_process, ob_next = time_zero\<rparr>, n + 1)
           | Some e \<Rightarrow> (e\<lparr>ob_config := config\<rparr>, n)"
  obtain entry n1 where en: "?made = (entry, n1)" by fastforce
  have step: "build_entries old configs (AList.update ?i entry entries) (order @ [?i]) n1 = (entries', order', n')"
    using 2(2) en by (simp add: Let_def)
  have made: "n \<le> n1 \<and> ob_ref entry < n1 \<and> (\<forall>j f. map_of entries j = Some f \<longrightarrow> ob_ref f = ob_ref entry \<longrightarrow> j = ?i) \<and>
    ((\<exists>e0. map_of old ?i = Some e0 \<and> ob_ref entry = ob_ref e0 \<and> ob_next entry = ob_next e0) \<or> a \<le> ob_ref entry)"
  proof (cases "map_of old ?i")
    case None
    then have "ob_ref entry = n" "n1 = n + 1" using en by auto
    moreover have "ob_ref f < n" if "map_of entries j = Some f" for j f using 2(5) that by (simp add: refs_ok_def)
    ultimately show ?thesis using 2(4) by force
  next
    case (Some e0)
    then have entry: "ob_ref entry = ob_ref e0" "ob_next entry = ob_next e0" "n1 = n" using en by auto
    have "ob_ref e0 < a" using 2(3) Some by (auto simp: refs_ok_def)
    moreover have "j = ?i" if f: "map_of entries j = Some f" "ob_ref f = ob_ref e0" for j f
    proof -
      have "\<not> a \<le> ob_ref f" using f(2) \<open>ob_ref e0 < a\<close> by simp
      then obtain f0 where "map_of old j = Some f0" "ob_ref f = ob_ref f0"
        using 2(6) f(1) unfolding kept_or_fresh_def by blast
      then show ?thesis using 2(3) Some f(2) unfolding refs_ok_def by metis
    qed
    ultimately show ?thesis using entry Some 2(4) by auto
  qed
  have "refs_ok (AList.update ?i entry entries) n1"
    by (rule refs_ok_update [OF 2(5)]) (use made in blast)+
  moreover have "kept_or_fresh old a (AList.update ?i entry entries)"
    by (rule kept_or_fresh_update [OF 2(6)]) (use made in blast)
  moreover have "a \<le> n1" using made 2(4) by simp
  ultimately show ?case using 2(1) [OF refl en [symmetric] refl step 2(3)] by blast
qed simp

section \<open>The helper's invariant\<close>

fun spaced :: "(nat \<times> time) list \<Rightarrow> bool" where
  "spaced [] = True"
| "spaced ((r, t) # starts) = ((\<forall>(r', t') \<in> set starts. r' = r \<longrightarrow> time_add t' sample_interval \<le> t) \<and> spaced starts)"

abbreviation "job_id j \<equiv> config_id (qj_config j)"

definition jobs_inv :: "addr_parser \<Rightarrow> helper \<Rightarrow> bool" where
  "jobs_inv parse_addr s \<longleftrightarrow>
     0 < he_now s \<and> coll_inv parse_addr (he_now s) (he_coll s) \<and>
     co_active (he_coll s) = set (map job_id (he_jobs s)) \<and> distinct (map job_id (he_jobs s)) \<and>
     length (he_jobs s) \<le> 8 \<and> (\<forall>j \<in> set (he_jobs s). config_ok parse_addr (qj_config j))"

lemma start_jobs_inv: "0 < now \<Longrightarrow> jobs_inv parse_addr (start_helper now)"
  by (simp add: jobs_inv_def start_helper_def coll_inv_new) (simp add: new_collector_def)

lemma sample_in_helper:
  assumes "sample_ok parse_addr now config env" and "config_ok parse_addr config" and "0 \<le> now"
  shows "vm_ok parse_addr now (fst (sample_vm env config previous)) \<and>
    vm_id (fst (sample_vm env config previous)) = config_id config"
proof -
  obtain menv where menv: "monitor_env_ok menv" "sa_monitor env = (\<lambda>v. fst (collect_monitor menv v))"
    using assms(1) by (auto simp: sample_ok_def)
  have mon: "monitor_ok parse_addr now (sa_monitor env)" unfolding menv(2) by (rule collect_monitor_ok [OF menv(1)])
  obtain n where n: "vm_cpus (vc_vm config) = Some n" "1 \<le> n"
    using assms(2) by (auto simp: config_ok_def split: option.splits)
  have "vm_ok parse_addr now (vc_vm config)"
    using assms(2,3) vm_ok_mono [of parse_addr time_zero _ now] by (simp add: config_ok_def time_zero_def)
  then have body: "vm_body_ok parse_addr now (vc_vm config)" by (simp add: vm_ok_body)
  obtain v ps where s: "sample_vm env config previous = (v, ps)" by fastforce
  from sample_vm_ok [OF body n mon _ _ _ s] assms(1) show ?thesis by (simp add: s sample_ok_def)
qed


lemma step_jobs_inv: "helper_step parse_addr s t \<Longrightarrow> jobs_inv parse_addr s \<Longrightarrow> jobs_inv parse_addr t"
proof (induction rule: helper_step.induct)
  case (clock d s)
  then show ?case by (auto simp: jobs_inv_def intro: coll_inv_mono)
next
  case (stop s)
  then show ?case by (simp add: jobs_inv_def)
next
  case (refresh result s)
  have "co_active (refresh_inventory (he_now s) result (he_coll s)) = co_active (he_coll s)"
    by (auto simp: refresh_inventory_def co_notify_def split: sum.split prod.split)
  then show ?case using refresh refresh_inv [of parse_addr "he_now s" "he_coll s" result] by (simp add: jobs_inv_def)
next
  case (metadata s host answer)
  have "co_active (fst (collector_metadata (he_now s) host answer (he_coll s))) = co_active (he_coll s)"
    by (simp add: collector_metadata_def split: option.split)
  then show ?case using metadata metadata_inv by (simp add: jobs_inv_def)
next
  case (start s started c index j)
  from next_work [OF start(3)] obtain i e where w: "i \<in> set (co_ids (he_coll s))" "i \<notin> co_active (he_coll s)"
      "map_of (co_entries (he_coll s)) i = Some e"
      "j = \<lparr>qj_ref = ob_ref e, qj_config = ob_config e, qj_previous = ob_previous e, qj_started = started\<rparr>"
      "c = (he_coll s)\<lparr>co_active := insert i (co_active (he_coll s)), co_cursor := (index + 1) mod length (co_ids (he_coll s))\<rparr>"
    by blast
  have inv: "coll_inv parse_addr (he_now s) (he_coll s)" using start(4) by (simp add: jobs_inv_def)
  have "config_id (ob_config e) = i" "config_ok parse_addr (ob_config e)"
    using coll_inv_entry [OF inv w(3)] by (simp_all add: entry_ok_def)
  then show ?case using start(1,4) w by (simp add: jobs_inv_def)
next
  case (finish j s env)
  let ?result = "sample_vm env (qj_config j) (qj_previous j)"
  have inv: "0 \<le> he_now s" "coll_inv parse_addr (he_now s) (he_coll s)" "config_ok parse_addr (qj_config j)"
    using finish(1,3) by (simp_all add: jobs_inv_def)
  note sample = sample_in_helper [OF finish(2) inv(3,1), of "qj_previous j"]
  have act: "co_active (collector_finish j (he_stopped s) ?result (he_coll s)) = co_active (he_coll s) - {job_id j}"
    by (auto simp: collector_finish_def Let_def co_notify_def split: option.split)
  have "set (map job_id (remove1 j (he_jobs s))) = set (map job_id (he_jobs s)) - {job_id j} \<and>
      distinct (map job_id (remove1 j (he_jobs s)))" if "distinct (map job_id (he_jobs s))"
    using that finish(1) by (induction "he_jobs s") (auto simp: distinct_map inj_on_def)
  then show ?case
    using finish(1,3) finish_inv [OF inv(2,1), of ?result j] sample act
    by (auto simp: jobs_inv_def length_remove1 dest: notin_set_remove1)
qed

lemma jobs_inv_reachable: "(helper_step parse_addr)\<^sup>*\<^sup>* s t \<Longrightarrow> jobs_inv parse_addr s \<Longrightarrow> jobs_inv parse_addr t"
  by (induction rule: rtranclp_induct) (auto intro: step_jobs_inv)


section \<open>The log\<close>

text \<open>An entry without a query in flight is due no earlier than an interval after its last start.\<close>

definition idle_ok :: "query_job list \<Rightarrow> (nat \<times> time) list \<Rightarrow> observation \<Rightarrow> bool" where
  "idle_ok jobs starts e \<longleftrightarrow>
     ob_ref e \<in> qj_ref ` set jobs \<or>
     (\<forall>(r, t) \<in> set starts. r = ob_ref e \<longrightarrow> time_add t sample_interval \<le> ob_next e)"

definition job_ok :: "(int, observation) gomap \<Rightarrow> nat \<Rightarrow> query_job \<Rightarrow> bool" where
  "job_ok entries n j \<longleftrightarrow>
     qj_ref j < n \<and> (\<forall>i e. map_of entries i = Some e \<longrightarrow> ob_ref e = qj_ref j \<longrightarrow> i = job_id j)"

definition job_started_ok :: "(nat \<times> time) list \<Rightarrow> query_job \<Rightarrow> bool" where
  "job_started_ok starts j \<longleftrightarrow> (\<forall>(r, t) \<in> set starts. r = qj_ref j \<longrightarrow> t \<le> qj_started j)"

definition log_inv :: "helper \<Rightarrow> bool" where
  "log_inv s \<longleftrightarrow>
     refs_ok (co_entries (he_coll s)) (co_alloc (he_coll s)) \<and>
     (\<forall>j \<in> set (he_jobs s). job_ok (co_entries (he_coll s)) (co_alloc (he_coll s)) j) \<and>
     (\<forall>rt \<in> set (he_log s). fst rt < co_alloc (he_coll s)) \<and>
     (\<not> he_stopped s \<longrightarrow>
        spaced (he_log s) \<and> (\<forall>j \<in> set (he_jobs s). job_started_ok (he_log s) j) \<and>
        (\<forall>i e. map_of (co_entries (he_coll s)) i = Some e \<longrightarrow> idle_ok (he_jobs s) (he_log s) e))"

lemma start_log_inv: "log_inv (start_helper now)"
  by (simp add: log_inv_def start_helper_def new_collector_def refs_ok_def)

lemma refresh_log_inv:
  assumes "log_inv s"
  shows "log_inv (s\<lparr>he_coll := refresh_inventory now result (he_coll s)\<rparr>)"
proof (cases result)
  case (Inl err)
  then show ?thesis using assms by (simp add: log_inv_def refresh_inventory_def)
next
  case (Inr configs)
  let ?c = "he_coll s"
  obtain entries order n where b: "build_entries (co_entries ?c) configs [] [] (co_alloc ?c) = (entries, order, n)"
    by (cases "build_entries (co_entries ?c) configs [] [] (co_alloc ?c)") auto
  note old = assms [unfolded log_inv_def]
  have bounds: "co_alloc ?c \<le> n \<and> refs_ok entries n \<and> kept_or_fresh (co_entries ?c) (co_alloc ?c) entries"
    by (rule build_entries_refs [OF b]) (use old in \<open>simp_all add: refs_ok_def kept_or_fresh_def\<close>)
  have job: "job_ok entries n j" if j: "j \<in> set (he_jobs s)" for j
    unfolding job_ok_def
  proof (intro conjI allI impI)
    have ref: "qj_ref j < co_alloc ?c" using old j by (simp add: job_ok_def)
    then show "qj_ref j < n" using bounds by simp
    fix i e
    assume "map_of entries i = Some e" "ob_ref e = qj_ref j"
    then obtain e0 where "map_of (co_entries ?c) i = Some e0" "ob_ref e0 = qj_ref j"
      using bounds ref unfolding kept_or_fresh_def by (metis leD)
    then show "i = job_id j" using old j unfolding job_ok_def by blast
  qed
  have idle: "idle_ok (he_jobs s) (he_log s) e"
    if "map_of entries i = Some e" "\<not> he_stopped s" for i e
  proof -
    have "(\<exists>e0. map_of (co_entries ?c) i = Some e0 \<and> ob_ref e = ob_ref e0 \<and> ob_next e = ob_next e0) \<or>
        co_alloc ?c \<le> ob_ref e"
      using that(1) bounds unfolding kept_or_fresh_def by blast
    then consider e0 where "map_of (co_entries ?c) i = Some e0" "ob_ref e = ob_ref e0" "ob_next e = ob_next e0"
      | "co_alloc ?c \<le> ob_ref e"
      by blast
    then show ?thesis
    proof cases
      case 1
      then have "idle_ok (he_jobs s) (he_log s) e0" using old that(2) by blast
      then show ?thesis using 1 by (simp add: idle_ok_def)
    next
      case 2
      have "fst rt < co_alloc ?c" if "rt \<in> set (he_log s)" for rt using old that by blast
      then show ?thesis using 2 unfolding idle_ok_def by force
    qed
  qed
  have c': "refresh_inventory now result ?c =
      co_notify (?c\<lparr>co_inventory_err := None, co_entries := entries, co_order := Some order, co_inventory_at := now, co_alloc := n\<rparr>)"
    by (simp add: refresh_inventory_def Inr b)
  show ?thesis
    unfolding log_inv_def c' using old bounds job idle by (auto simp: co_notify_def)
qed

lemma start_step_log_inv:
  assumes "log_inv s" and "jobs_inv parse_addr s" and "collector_next started (he_coll s) = (c, NextWork index j)"
  shows "log_inv (s\<lparr>he_coll := c, he_jobs := j # he_jobs s, he_log := (qj_ref j, started) # he_log s\<rparr>)"
proof -
  let ?c = "he_coll s"
  from next_work [OF assms(3)] obtain i e where w: "i \<notin> co_active ?c" "map_of (co_entries ?c) i = Some e"
      "ob_next e \<le> started"
      "j = \<lparr>qj_ref = ob_ref e, qj_config = ob_config e, qj_previous = ob_previous e, qj_started = started\<rparr>"
      "c = ?c\<lparr>co_active := insert i (co_active ?c), co_cursor := (index + 1) mod length (co_ids ?c)\<rparr>"
    by blast
  note old = assms(1) [unfolded log_inv_def]
  have i: "job_id j = i"
    using coll_inv_entry [OF _ w(2), of parse_addr "he_now s"] assms(2) w(4) by (simp add: jobs_inv_def entry_ok_def)
  have refs: "refs_ok (co_entries ?c) (co_alloc ?c)" using old by blast
  have new_job: "job_ok (co_entries ?c) (co_alloc ?c) j"
    unfolding job_ok_def i
  proof (intro conjI allI impI)
    show "qj_ref j < co_alloc ?c" using refs w(2,4) unfolding refs_ok_def by auto
    show "i' = i" if "map_of (co_entries ?c) i' = Some e'" "ob_ref e' = qj_ref j" for i' e'
      using refs w(2,4) that unfolding refs_ok_def by auto
  qed
  have other: "qj_ref k \<noteq> ob_ref e" if "k \<in> set (he_jobs s)" for k
  proof
    assume "qj_ref k = ob_ref e"
    then have "i = job_id k" using old that w(2) unfolding job_ok_def by metis
    then show False using that w(1) assms(2) by (auto simp: jobs_inv_def)
  qed
  have past: "time_add t sample_interval \<le> started" if "(ob_ref e, t) \<in> set (he_log s)" "\<not> he_stopped s" for t
  proof -
    have "idle_ok (he_jobs s) (he_log s) e" using old w(2) that(2) by blast
    moreover have "ob_ref e \<notin> qj_ref ` set (he_jobs s)" using other by force
    ultimately have "time_add t sample_interval \<le> ob_next e" using that(1) by (auto simp: idle_ok_def)
    then show ?thesis using w(3) by simp
  qed
  have later: "t \<le> time_add t sample_interval" for t by (simp add: time_add_def sample_interval_def second_def)
  have "job_started_ok ((qj_ref j, started) # he_log s) k" if "k \<in> set (j # he_jobs s)" "\<not> he_stopped s" for k
  proof (cases "k = j")
    case True
    have "t \<le> started" if "(ob_ref e, t) \<in> set (he_log s)" for t using past [OF that \<open>\<not> he_stopped s\<close>] later [of t] by linarith
    then show ?thesis using True w(4) by (auto simp: job_started_ok_def)
  next
    case False
    then have "job_started_ok (he_log s) k" "qj_ref k \<noteq> ob_ref e" using old that other by auto
    then show ?thesis using w(4) by (simp add: job_started_ok_def)
  qed
  moreover have "idle_ok (j # he_jobs s) ((qj_ref j, started) # he_log s) e'"
    if e': "map_of (co_entries ?c) i' = Some e'" "\<not> he_stopped s" for i' e'
  proof (cases "i' = i")
    case True
    then show ?thesis using w(2,4) e'(1) by (simp add: idle_ok_def)
  next
    case False
    then have "ob_ref e' \<noteq> ob_ref e" using refs e'(1) w(2) unfolding refs_ok_def by blast
    moreover have "idle_ok (he_jobs s) (he_log s) e'" using old e' by blast
    ultimately show ?thesis using w(4,5) by (auto simp: idle_ok_def)
  qed
  moreover have "spaced ((qj_ref j, started) # he_log s)" if "\<not> he_stopped s"
    using old past w(4) that by auto
  ultimately show ?thesis
    unfolding log_inv_def using old new_job w(5) by (auto simp: job_ok_def)
qed


lemma refs_ok_subset:
  assumes "refs_ok m n" and "\<And>i e. map_of m' i = Some e \<Longrightarrow> \<exists>e0. map_of m i = Some e0 \<and> ob_ref e0 = ob_ref e"
  shows "refs_ok m' n"
  unfolding refs_ok_def
proof (intro conjI allI impI)
  show "ob_ref e < n" if "map_of m' i = Some e" for i e
    using assms(1) assms(2) [OF that] unfolding refs_ok_def by metis
  fix i j e f
  assume "map_of m' i = Some e" "map_of m' j = Some f" and eq: "ob_ref e = ob_ref f"
  then obtain e0 f0 where "map_of m i = Some e0" "ob_ref e0 = ob_ref e" "map_of m j = Some f0" "ob_ref f0 = ob_ref f"
    using assms(2) by meson
  then show "i = j" using assms(1) eq unfolding refs_ok_def by metis
qed

lemma finish_step_log_inv:
  assumes "log_inv s" and "j \<in> set (he_jobs s)"
  shows "log_inv (s\<lparr>he_coll := collector_finish j (he_stopped s) result (he_coll s), he_jobs := remove1 j (he_jobs s)\<rparr>)"
proof -
  let ?c = "he_coll s" and ?i = "job_id j"
  let ?c' = "collector_finish j (he_stopped s) result ?c"
  note old = assms(1) [unfolded log_inv_def]
  have alloc: "co_alloc ?c' = co_alloc ?c" by (simp add: collector_finish_def Let_def co_notify_def split: option.split)
  have jobs: "set (remove1 j (he_jobs s)) \<subseteq> set (he_jobs s)" by (rule set_remove1_subset)
  have entry: "\<exists>e0. map_of (co_entries ?c) i = Some e0 \<and> ob_ref e = ob_ref e0 \<and>
      (if ob_ref e = qj_ref j \<and> \<not> he_stopped s then ob_next e = time_add (qj_started j) sample_interval
       else ob_next e = ob_next e0)" if "map_of (co_entries ?c') i = Some e" for i e
  proof (cases "map_of (co_entries ?c) ?i")
    case None
    then have c': "co_entries ?c' = co_entries ?c" by (simp add: collector_finish_def Let_def co_notify_def)
    have "ob_ref e \<noteq> qj_ref j"
      using old assms(2) that None unfolding job_ok_def c' by fastforce
    then show ?thesis using that c' by simp
  next
    case (Some e1)
    let ?e1 = "e1\<lparr>ob_vm := fst result, ob_previous := snd result, ob_next := time_add (qj_started j) sample_interval\<rparr>"
    have c': "co_entries ?c' =
        (if ob_ref e1 = qj_ref j \<and> \<not> he_stopped s then AList.update ?i ?e1 (co_entries ?c) else co_entries ?c)"
      using Some by (simp add: collector_finish_def Let_def co_notify_def)
    have same: "i' = ?i" if "map_of (co_entries ?c) i' = Some e'" "ob_ref e' = qj_ref j" for i' e'
      using old assms(2) that unfolding job_ok_def by blast
    show ?thesis
    proof (cases "i = ?i")
      case True
      then show ?thesis using that Some unfolding c' by (auto split: if_splits)
    next
      case False
      then have "map_of (co_entries ?c) i = Some e" using that unfolding c' by (auto split: if_splits)
      then show ?thesis using same False by auto
    qed
  qed
  have before: "\<exists>e0. map_of (co_entries ?c) i = Some e0 \<and> ob_ref e0 = ob_ref e"
    if "map_of (co_entries ?c') i = Some e" for i e
    using entry [OF that] by auto
  have "refs_ok (co_entries ?c') (co_alloc ?c)"
    by (rule refs_ok_subset [OF _ before]) (use old in blast)
  moreover have "job_ok (co_entries ?c') (co_alloc ?c) k" if "k \<in> set (remove1 j (he_jobs s))" for k
  proof -
    have "job_ok (co_entries ?c) (co_alloc ?c) k" using old jobs that by blast
    then show ?thesis using before unfolding job_ok_def by fastforce
  qed
  moreover have "idle_ok (remove1 j (he_jobs s)) (he_log s) e"
    if live: "\<not> he_stopped s" and here: "map_of (co_entries ?c') i = Some e" for i e
  proof (cases "ob_ref e = qj_ref j")
    case True
    then have "ob_next e = time_add (qj_started j) sample_interval" using entry [OF here] live by auto
    moreover have "job_started_ok (he_log s) j" using old assms(2) live by blast
    ultimately show ?thesis using True by (auto simp: idle_ok_def job_started_ok_def time_add_def)
  next
    case False
    then obtain e0 where "map_of (co_entries ?c) i = Some e0" "ob_ref e = ob_ref e0" "ob_next e = ob_next e0"
      using entry [OF here] by auto
    moreover from this have "idle_ok (he_jobs s) (he_log s) e0" using old live by blast
    moreover have "ob_ref e \<in> qj_ref ` set (remove1 j (he_jobs s))" if member: "ob_ref e \<in> qj_ref ` set (he_jobs s)"
    proof -
      obtain k where "k \<in> set (he_jobs s)" "qj_ref k = ob_ref e" using member by (metis imageE)
      moreover from this have "k \<noteq> j" using False by auto
      ultimately show ?thesis by (metis image_iff in_set_remove1)
    qed
    ultimately show ?thesis by (auto simp: idle_ok_def)
  qed
  ultimately show ?thesis
    unfolding log_inv_def using old alloc jobs by auto
qed

lemma step_log_inv: "helper_step parse_addr s t \<Longrightarrow> jobs_inv parse_addr s \<Longrightarrow> log_inv s \<Longrightarrow> log_inv t"
proof (induction rule: helper_step.induct)
  case (metadata s host answer)
  have "co_entries (fst (collector_metadata (he_now s) host answer (he_coll s))) = co_entries (he_coll s)"
    "co_alloc (fst (collector_metadata (he_now s) host answer (he_coll s))) = co_alloc (he_coll s)"
    by (simp_all add: collector_metadata_def split: option.split)
  then show ?case using metadata by (simp add: log_inv_def)
next
  case (refresh result s)
  then show ?case using refresh_log_inv by blast
next
  case (start s started c index j)
  then show ?case using start_step_log_inv by blast
next
  case (finish j s env)
  then show ?case using finish_step_log_inv by blast
qed (simp_all add: log_inv_def)

lemma helper_reachable:
  assumes "(helper_step parse_addr)\<^sup>*\<^sup>* (start_helper now) s" and "0 < now"
  shows "jobs_inv parse_addr s" and "log_inv s"
proof -
  have "jobs_inv parse_addr s \<and> log_inv s"
    using assms
    by (induction rule: rtranclp_induct)
      (auto simp: start_jobs_inv start_log_inv intro: step_jobs_inv step_log_inv)
  then show "jobs_inv parse_addr s" "log_inv s" by simp_all
qed

section \<open>The properties\<close>

text \<open>C6. However refreshes, workers, failures and the clock interleave, at most eight queries run at once
  and never two of the same VM, and a worker that looks for work never meets an entry that is gone.\<close>

theorem one_query_per_vm:
  assumes "(helper_step parse_addr)\<^sup>*\<^sup>* (start_helper now) s" and "0 < now"
  shows "distinct (map job_id (he_jobs s)) \<and> length (he_jobs s) \<le> 8 \<and>
    snd (collector_next t (he_coll s)) \<noteq> NextPanic"
  using helper_reachable(1) [OF assms] next_no_panic by (auto simp: jobs_inv_def)

text \<open>C25. While the helper runs, two queries of one observation start at least three seconds apart, even
  when its VM disappears from the inventory and comes back meanwhile.\<close>

theorem queries_are_spaced:
  assumes "(helper_step parse_addr)\<^sup>*\<^sup>* (start_helper now) s" and "0 < now" and "\<not> he_stopped s"
  shows "spaced (he_log s)"
  using helper_reachable(2) [OF assms(1,2)] assms(3) by (simp add: log_inv_def)

text \<open>A worker waits only when every VM without a query in flight is not due, for at most three seconds and
  never past the time at which the first of them is due.\<close>

theorem workers_are_work_conserving:
  assumes "collector_next now c = (c', NextWait w)"
  shows "c' = c \<and> 0 < w \<and> w \<le> sample_interval \<and>
    (\<forall>i \<in> set (co_ids c). i \<notin> co_active c \<longrightarrow>
       (\<exists>e. map_of (co_entries c) i = Some e \<and> now < ob_next e \<and> w \<le> time_sub (ob_next e) now))"
  by (rule next_wait [OF assms])

text \<open>C3. As long as the wall clock of the helper does not step back, every inventory that is read names each VM
  once, with a name of at most 255 bytes, and at most 4096 of them, the monitors answer with a status of
  at most 64 bytes and sizes that are not negative, the byte counters do not overflow and the files of the
  guests hold addresses that were checked when they were decoded, the snapshot served at any moment of a run passes the validation that the node applies to it: whatever the order of
  refreshes, queries and failures, and whether the inventory failed, expired or never came.\<close>

theorem served_snapshot_valid:
  assumes "(helper_step parse_addr)\<^sup>*\<^sup>* (start_helper now) s" and "0 < now"
    and "host \<noteq> ''''" and "length host \<le> 255" and "reads_ok parse_addr read"
  shows "\<exists>snap. collector_snapshot (he_now s) host read (he_coll s) = Some snap \<and> validate_snapshot parse_addr snap = Inr ()"
  using helper_reachable(1) [OF assms(1,2)] snapshot_of_inv [OF _ _ assms(3-5)]
  by (auto simp: jobs_inv_def validate_snapshot_iff)

section \<open>Which inventories can be published\<close>

text \<open>What an inventory read from the files of the configuration directory contains: the number of a file is
  positive, so all of a configuration can be published but, possibly, its name.\<close>

lemma conf_id_pos: "conf_id name = Some i \<Longrightarrow> 1 \<le> i"
  by (auto simp: conf_id_def split: if_splits option.splits)

lemma parsed_config_ok':
  assumes "parse_config parse_float mbps i raw cpus = Inr c" and "1 \<le> i" and "1 \<le> cpus" and "scales_rates mbps"
  shows "length (vm_name (vc_vm c)) \<le> 255 \<Longrightarrow> config_ok parse_addr c"
proof -
  obtain n memory rates where "1 \<le> n" and
    c: "vc_vm c = empty_vm\<lparr>vm_id := i, vm_name := vm_name (vc_vm c), vm_status := ''stopped'',
      vm_template := vm_template (vc_vm c), vm_cpus := Some n, vm_memory_limit := Some memory, vm_rates := rates\<rparr>"
    using parsed_config_shape [OF assms(1,3,4)] by blast
  moreover have "vm_cpus (vc_vm c) = Some n" by (subst c) simp
  ultimately show "length (vm_name (vc_vm c)) \<le> 255 \<Longrightarrow> config_ok parse_addr c"
    using parsed_config_ok [OF assms] by (simp add: config_ok_def)
qed

lemma inventory_configs_ok:
  assumes "inventory_configs (\<lambda>i raw. parse_config parse_float mbps i raw cpus) files = Inr configs"
    and "1 \<le> cpus" and "scales_rates mbps" and "c \<in> set configs" and "length (vm_name (vc_vm c)) \<le> 255"
  shows "config_ok parse_addr c"
  using assms(1,4)
proof (induction files arbitrary: configs)
  case (Cons f files)
  obtain name content where f: "f = (name, content)" by fastforce
  show ?case
    using Cons parsed_config_ok' [OF _ conf_id_pos assms(2,3,5)] unfolding f
    by (auto split: option.splits file_read.splits sum.splits if_splits)
qed simp

lemma inventory_config_ok:
  assumes "inventory (\<lambda>i raw. parse_config parse_float mbps i raw cpus) (Some cpus) (Some files) = Inr configs"
    and "scales_rates mbps" and "c \<in> set configs" and "length (vm_name (vc_vm c)) \<le> 255"
  shows "config_ok parse_addr c"
  using assms inventory_configs_ok [of parse_float mbps cpus files _ c parse_addr]
  by (auto simp: inventory_def split: if_splits sum.splits)

text \<open>A refresh by any list of configurations, also one that names a VM twice.\<close>

lemma build_entries_Cons:
  "\<exists>entry n1. build_entries old (config # configs) entries order n =
      build_entries old configs (AList.update (config_id config) entry entries) (order @ [config_id config]) n1 \<and>
    ob_config entry = config \<and>
    ((\<forall>i e. map_of old i = Some e \<longrightarrow> vm_id (ob_vm e) = i) \<longrightarrow> vm_id (ob_vm entry) = config_id config)"
  by (cases "map_of old (config_id config)") (force simp: Let_def)+

lemma build_entries_order:
  "build_entries old configs entries order n = (entries', order', n') \<Longrightarrow>
   order' = order @ map config_id configs \<and> dom (map_of entries') = dom (map_of entries) \<union> config_id ` set configs"
proof (induction configs arbitrary: entries order n)
  case (Cons config configs)
  obtain entry n1 where "build_entries old configs (AList.update (config_id config) entry entries) (order @ [config_id config]) n1 =
      (entries', order', n')"
    using build_entries_Cons [of old config configs entries order n] Cons.prems by metis
  from Cons.IH [OF this] show ?case by (auto simp: update_conv')
qed simp

lemma build_entries_other:
  "build_entries old configs entries order n = (entries', order', n') \<Longrightarrow> i \<notin> config_id ` set configs \<Longrightarrow>
   map_of entries' i = map_of entries i"
proof (induction configs arbitrary: entries order n)
  case (Cons config configs)
  obtain entry n1 where "build_entries old configs (AList.update (config_id config) entry entries) (order @ [config_id config]) n1 =
      (entries', order', n')"
    using build_entries_Cons [of old config configs entries order n] Cons.prems(1) by metis
  from Cons.IH [OF this] Cons.prems(2) show ?case by (auto simp: update_conv')
qed simp

lemma build_entries_config:
  "build_entries old configs entries order n = (entries', order', n') \<Longrightarrow> distinct (map config_id configs) \<Longrightarrow>
   c \<in> set configs \<Longrightarrow> \<exists>e. map_of entries' (config_id c) = Some e \<and> ob_config e = c"
proof (induction configs arbitrary: entries order n)
  case (Cons config configs)
  obtain entry n1 where step: "build_entries old configs (AList.update (config_id config) entry entries)
      (order @ [config_id config]) n1 = (entries', order', n')" and entry: "ob_config entry = config"
    using build_entries_Cons [of old config configs entries order n] Cons.prems(1) by metis
  show ?case
  proof (cases "c = config")
    case True
    then have "map_of entries' (config_id c) = Some entry"
      using build_entries_other [OF step, of "config_id c"] Cons.prems(2) by (simp add: update_conv')
    then show ?thesis using True entry by simp
  next
    case False
    then show ?thesis using Cons.IH [OF step] Cons.prems(2,3) by simp
  qed
qed simp

lemma build_entries_ids:
  assumes "build_entries old configs entries order n = (entries', order', n')"
    and "\<forall>i e. map_of old i = Some e \<longrightarrow> vm_id (ob_vm e) = i"
    and "\<forall>i e. map_of entries i = Some e \<longrightarrow> vm_id (ob_vm e) = i"
  shows "\<forall>i e. map_of entries' i = Some e \<longrightarrow> vm_id (ob_vm e) = i"
  using assms(1,3)
proof (induction configs arbitrary: entries order n)
  case (Cons config configs)
  obtain entry n1 where step: "build_entries old configs (AList.update (config_id config) entry entries)
      (order @ [config_id config]) n1 = (entries', order', n')" and entry: "vm_id (ob_vm entry) = config_id config"
    using build_entries_Cons [of old config configs entries order n] Cons.prems(1) assms(2) by metis
  show ?case by (rule Cons.IH [OF step]) (use Cons.prems(2) entry in \<open>auto simp: update_conv'\<close>)
qed simp

text \<open>The VMs of the snapshot after such a refresh.\<close>

lemma refreshed_vms:
  assumes "coll_inv parse_addr now c" and c': "c' = refresh_inventory now (Inr configs) c"
  shows "co_order c' = Some (map config_id configs)" and "co_inventory_at c' = now"
    and "\<exists>vms. snapshot_vms t c' (map config_id configs) = Some vms \<and> map vm_id vms = map config_id configs \<and>
      (distinct (map config_id configs) \<longrightarrow> map vm_name vms = map (\<lambda>c. vm_name (vc_vm c)) configs)"
proof -
  obtain entries order n where b: "build_entries (co_entries c) configs [] [] (co_alloc c) = (entries, order, n)"
    by (cases "build_entries (co_entries c) configs [] [] (co_alloc c)") auto
  note order = build_entries_order [OF b]
  have c'_is: "co_entries c' = entries" "co_order c' = Some (map config_id configs)" "co_inventory_at c' = now"
    using b order by (simp_all add: c' refresh_inventory_def co_notify_def)
  then show "co_order c' = Some (map config_id configs)" "co_inventory_at c' = now" by simp_all
  have old: "vm_id (ob_vm e) = i" if "map_of (co_entries c) i = Some e" for i e
    using coll_inv_entry [OF assms(1) that] by (simp add: entry_ok_def)
  have found: "\<exists>e. map_of (co_entries c') i = Some e" if "i \<in> set (map config_id configs)" for i
    using order that by (force simp: c'_is)
  have ids: "vm_id (ob_vm e) = i" if "map_of (co_entries c') i = Some e" for i e
    using build_entries_ids [OF b] old that by (simp add: c'_is)
  let ?vms = "map (\<lambda>i. snapshot_vm t c' i (the (map_of (co_entries c') i))) (map config_id configs)"
  have "snapshot_vms t c' (map config_id configs) = Some ?vms" by (rule snapshot_vms_Some) (rule found)
  moreover have "map vm_id ?vms = map config_id configs"
  proof -
    have "vm_id (snapshot_vm t c' i (the (map_of (co_entries c') i))) = i" if "i \<in> set (map config_id configs)" for i
      using found [OF that] ids by (fastforce simp: snapshot_vm_def)
    then show ?thesis by simp
  qed
  moreover have "map vm_name ?vms = map (\<lambda>c. vm_name (vc_vm c)) configs" if "distinct (map config_id configs)"
  proof -
    have "vm_name (snapshot_vm t c' (config_id x) (the (map_of (co_entries c') (config_id x)))) = vm_name (vc_vm x)"
      if "x \<in> set configs" for x
      using build_entries_config [OF b \<open>distinct _\<close> that] c'_is by (auto simp: snapshot_vm_def expire_vm_def)
    then show ?thesis by simp
  qed
  ultimately show "\<exists>vms. snapshot_vms t c' (map config_id configs) = Some vms \<and> map vm_id vms = map config_id configs \<and>
      (distinct (map config_id configs) \<longrightarrow> map vm_name vms = map (\<lambda>c. vm_name (vc_vm c)) configs)"
    by blast
qed

lemma refreshed_snapshot_strict:
  assumes "coll_inv parse_addr now c" and "0 < now"
    and "collector_snapshot t host read (refresh_inventory now (Inr configs) c) = Some snap" and "snapshot_ok parse_addr snap"
  shows "now \<le> t \<and> distinct (map config_id configs) \<and> length configs \<le> 4096 \<and>
    (\<forall>c \<in> set configs. length (vm_name (vc_vm c)) \<le> 255)"
proof -
  let ?c = "refresh_inventory now (Inr configs) c"
  obtain vms where vms: "snapshot_vms t ?c (map config_id configs) = Some vms" "map vm_id vms = map config_id configs"
    "distinct (map config_id configs) \<longrightarrow> map vm_name vms = map (\<lambda>c. vm_name (vc_vm c)) configs"
    using refreshed_vms(3) [OF assms(1) refl] by blast
  have snap: "sn_vm_list snap = map (attach_guest_ips read host t) vms" "sn_success snap = Some now" "sn_collected snap = t"
    using assms(2,3) vms(1) refreshed_vms(1,2) [OF assms(1) refl, of configs]
    by (auto simp: collector_snapshot_def Let_def is_zero_time_def)
  have ok: "now \<le> t" "distinct (map vm_id vms)" "length vms \<le> 4096" "\<forall>v \<in> set vms. vm_ok parse_addr t (attach_guest_ips read host t v)"
    using assms(4) by (simp_all add: snapshot_ok_def snap list_all_iff comp_def)
  have name: "vm_name (attach_guest_ips read host t v) = vm_name v" for v
    by (auto simp: attach_guest_ips_def Let_def split: option.splits)
  have "\<forall>v \<in> set vms. length (vm_name v) \<le> 255"
    using ok(4) name by (auto simp: vm_ok_def)
  then have "\<forall>n \<in> set (map vm_name vms). length n \<le> 255" by simp
  moreover have "length vms = length configs" using arg_cong [OF vms(2), of length] by simp
  ultimately show ?thesis using ok vms(2,3) by (metis length_map list.set_map image_eqI)
qed


section \<open>Concrete instances\<close>

text \<open>One VM is found, and a worker starts to observe it.\<close>

definition demo_found :: helper where
  "demo_found = (start_helper 7)\<lparr>he_coll := refresh_inventory 7 (Inr [demo_config]) new_collector\<rparr>"

definition demo_job :: query_job where
  "demo_job = \<lparr>qj_ref = 0, qj_config = demo_config, qj_previous = no_process, qj_started = 7\<rparr>"

definition demo_busy :: helper where
  "demo_busy = demo_found\<lparr>he_coll := (he_coll demo_found)\<lparr>co_active := {100}, co_cursor := 0\<rparr>,
     he_jobs := [demo_job], he_log := [(0, 7)]\<rparr>"

lemma demo_config_ok: "config_ok parse_addr demo_config"
  by (simp add: config_ok_def demo_config_def demo_vm_def vm_ok_def fresh_ok_def ips_ok_def vm_counters_def)

lemma demo_found_step: "helper_step parse_addr (start_helper 7) demo_found"
  using helper_step.refresh [of parse_addr "Inr [demo_config]" "start_helper 7"] demo_config_ok
  by (simp add: demo_found_def inventory_ok_def start_helper_def)

lemma demo_next:
  "collector_next 7 (he_coll demo_found) =
     ((he_coll demo_found)\<lparr>co_active := {100}, co_cursor := 0\<rparr>, NextWork 0 demo_job)"
  by (simp add: demo_found_def start_helper_def refresh_inventory_def new_collector_def co_notify_def demo_job_def
      collector_next_def scan_order_def demo_config_def demo_vm_def time_zero_def co_ids_def)

lemma demo_busy_reached: "(helper_step parse_addr)\<^sup>*\<^sup>* (start_helper 7) demo_busy"
proof -
  have "he_now demo_found = 7" "he_jobs demo_found = []" "he_log demo_found = []"
    by (simp_all add: demo_found_def start_helper_def)
  then have "helper_step parse_addr demo_found demo_busy"
    using helper_step.start [of demo_found 7 _ _ _ parse_addr, OF _ _ demo_next] by (simp add: demo_busy_def demo_job_def)
  then show ?thesis using demo_found_step by (meson converse_rtranclp_into_rtranclp r_into_rtranclp)
qed

theorem one_query_per_vm_witness:
  "map job_id (he_jobs demo_busy) = [100] \<and> snd (collector_next 8 (he_coll demo_busy)) \<noteq> NextPanic"
  using one_query_per_vm [OF demo_busy_reached, of 8]
  by (simp add: demo_busy_def demo_job_def demo_config_def demo_vm_def)

theorem queries_are_spaced_witness: "spaced (he_log demo_busy) \<and> he_log demo_busy = [(0, 7)]"
  using queries_are_spaced [OF demo_busy_reached] by (simp add: demo_busy_def demo_found_def start_helper_def)

lemma demo_wait: "collector_next 8 (he_coll demo_busy) = (he_coll demo_busy, NextWait sample_interval)"
  by (simp add: demo_busy_def demo_found_def start_helper_def refresh_inventory_def new_collector_def co_notify_def
      collector_next_def scan_order_def demo_config_def demo_vm_def co_ids_def)

theorem workers_are_work_conserving_witness: "0 < sample_interval \<and> co_active (he_coll demo_busy) = {100}"
  using workers_are_work_conserving [OF demo_wait] by (simp add: demo_busy_def)

theorem served_snapshot_valid_witness:
  "\<exists>snap. collector_snapshot (he_now demo_busy) ''pve'' (\<lambda>_. None) (he_coll demo_busy) = Some snap \<and>
     validate_snapshot (\<lambda>_. None) snap = Inr ()"
  by (rule served_snapshot_valid [OF demo_busy_reached]) (simp_all add: reads_ok_def)

text \<open>Two files of the same VM.\<close>

definition demo_twice :: "(string \<times> file_read) list" where
  "demo_twice = [(''7.conf'', FileText demo_conf), (''07.conf'', FileText demo_conf)]"


end
