(* ===== verification/PveHistory.thy ===== *)
theory PveHistory
  imports PveCollector
begin

text \<open>
  History queries in the PVE helper (\<open>internal/pve/history.go\<close>): the cache that lets concurrent
  requests share one lookup, bounds the work and the memory, and expires results; one execution of a
  lookup; and the decoding of the samples.  Each critical section of the cache's lock is one
  function; requests, lookups and the clock interleave in a step relation.
\<close>

section \<open>The cache\<close>

datatype hist_error = HistBusy | HistSource | HistVmNotFound | HistCanceled | HistDeadline | HistOther

text \<open>A call; \<open>hc_cancelled\<close> says that its context was cancelled, \<open>hc_done\<close> that its channel is closed.\<close>

record history_call =
  hc_waiters :: int
  hc_raw :: string
  hc_err :: "hist_error option"
  hc_expires :: time
  hc_cancelled :: bool
  hc_done :: bool

definition new_call :: history_call where
  "new_call = \<lparr>hc_waiters = 0, hc_raw = '''', hc_err = None, hc_expires = time_zero, hc_cancelled = False, hc_done = False\<rparr>"

text \<open>The map holds pointers: requests keep a call that was evicted.  \<open>hi_heap\<close> is what they point to.\<close>

record history_cache =
  hi_calls :: "(history_query, nat) gomap"
  hi_heap :: "nat \<Rightarrow> history_call"
  hi_failures :: "(int, time) gomap"
  hi_active :: int
  hi_bytes :: int
  hi_alloc :: nat

definition new_history_cache :: history_cache where
  "new_history_cache = \<lparr>hi_calls = [], hi_heap = (\<lambda>_. new_call), hi_failures = [], hi_active = 0, hi_bytes = 0, hi_alloc = 0\<rparr>"

abbreviation "raw_len h r \<equiv> int (length (hc_raw (hi_heap h r)))"

section \<open>Eviction\<close>

text \<open>\<open>evictOldest\<close>: the completed call that expires first; \<open>None\<close> when there is none, where the code
  dereferences nil.\<close>

fun oldest_call ::
  "(nat \<Rightarrow> history_call) \<Rightarrow> (history_query \<times> nat) list \<Rightarrow> (history_query \<times> nat) option \<Rightarrow> (history_query \<times> nat) option" where
  "oldest_call heap [] best = best"
| "oldest_call heap ((q, r) # calls) best =
     oldest_call heap calls
       (if \<not> is_zero_time (hc_expires (heap r)) \<and>
           (case best of None \<Rightarrow> True | Some (_, b) \<Rightarrow> hc_expires (heap r) < hc_expires (heap b))
        then Some (q, r) else best)"

definition evict_oldest :: "history_cache \<Rightarrow> history_cache option" where
  "evict_oldest h =
     (case oldest_call (hi_heap h) (hi_calls h) None of
        None \<Rightarrow> None
      | Some (q, r) \<Rightarrow> Some (h\<lparr>hi_bytes := hi_bytes h - raw_len h r, hi_calls := AList.delete q (hi_calls h)\<rparr>))"

definition max_history_bytes :: int where "max_history_bytes = 16 * 2 ^ 20"

lemma oldest_call_in:
  "oldest_call heap calls best = Some (q, r) \<Longrightarrow>
     best = Some (q, r) \<or> (q, r) \<in> set calls \<and> \<not> is_zero_time (hc_expires (heap r))"
  by (induction heap calls best rule: oldest_call.induct) (auto split: if_splits)

lemma evict_oldest_length: "evict_oldest h = Some h' \<Longrightarrow> length (hi_calls h') < length (hi_calls h)"
proof -
  assume "evict_oldest h = Some h'"
  then obtain q r where "oldest_call (hi_heap h) (hi_calls h) None = Some (q, r)"
      and h': "hi_calls h' = AList.delete q (hi_calls h)"
    by (auto simp: evict_oldest_def split: option.splits)
  then have "(q, r) \<in> set (hi_calls h)" using oldest_call_in by fastforce
  then show ?thesis unfolding h' AList.delete_eq by (intro length_filter_less) auto
qed

text \<open>The loop at the end of \<open>run\<close>.\<close>

function evict_loop :: "history_cache \<Rightarrow> history_cache option" where
  "evict_loop h =
     (if hi_bytes h \<le> max_history_bytes then Some h
      else case evict_oldest h of None \<Rightarrow> None | Some h' \<Rightarrow> evict_loop h')"
  by pat_completeness auto
termination by (relation "measure (\<lambda>h. length (hi_calls h))") (auto dest: evict_oldest_length)

declare evict_loop.simps [simp del]

section \<open>Requests\<close>

definition call_expired :: "time \<Rightarrow> history_call \<Rightarrow> bool" where
  "call_expired now c \<longleftrightarrow> \<not> is_zero_time (hc_expires c) \<and> \<not> now < hc_expires c"

text \<open>The two loops at the start of \<open>get\<close>.\<close>

definition purge :: "time \<Rightarrow> history_cache \<Rightarrow> history_cache" where
  "purge now h =
     h\<lparr>hi_failures := filter (\<lambda>(i, until). now < until) (hi_failures h),
       hi_bytes := hi_bytes h - sum_list (map (\<lambda>(q, r). raw_len h r) (filter (\<lambda>(q, r). call_expired now (hi_heap h r)) (hi_calls h))),
       hi_calls := filter (\<lambda>(q, r). \<not> call_expired now (hi_heap h r)) (hi_calls h)\<rparr>"

definition add_waiter :: "nat \<Rightarrow> history_cache \<Rightarrow> history_cache" where
  "add_waiter r h = h\<lparr>hi_heap := (hi_heap h)(r := (hi_heap h r)\<lparr>hc_waiters := hc_waiters (hi_heap h r) + 1\<rparr>)\<rparr>"

text \<open>The critical section of \<open>get\<close>: the call to wait for and whether it was started.\<close>

datatype admission = AdmitBusy | AdmitCall nat bool | AdmitPanic

definition new_history_call :: "history_query \<Rightarrow> history_cache \<Rightarrow> history_cache \<times> admission" where
  "new_history_call q h =
     (let r = hi_alloc h in
      (add_waiter r (h\<lparr>hi_heap := (hi_heap h)(r := new_call), hi_calls := AList.update q r (hi_calls h),
         hi_active := hi_active h + 1, hi_alloc := r + 1\<rparr>), AdmitCall r True))"

definition history_admit :: "time \<Rightarrow> history_query \<Rightarrow> history_cache \<Rightarrow> history_cache \<times> admission" where
  "history_admit now q h0 =
     (let h = purge now h0 in
      case map_of (hi_calls h) q of
        Some r \<Rightarrow> (add_waiter r h, AdmitCall r False)
      | None \<Rightarrow>
          if 32 \<le> hi_active h then (h, AdmitBusy)
          else if 128 \<le> length (hi_calls h)
          then (case evict_oldest h of None \<Rightarrow> (h, AdmitPanic) | Some h' \<Rightarrow> new_history_call q h')
          else new_history_call q h)"

text \<open>The deferred function of \<open>get\<close>, when a request leaves.\<close>

definition history_leave :: "nat \<Rightarrow> history_cache \<Rightarrow> history_cache" where
  "history_leave r h =
     (let c = (hi_heap h r)\<lparr>hc_waiters := hc_waiters (hi_heap h r) - 1\<rparr> in
      h\<lparr>hi_heap := (hi_heap h)(r := (if hc_waiters c = 0 \<and> is_zero_time (hc_expires c) then c\<lparr>hc_cancelled := True\<rparr> else c))\<rparr>)"

text \<open>What \<open>get\<close> returns: the request's own context may end first.\<close>

definition history_answer :: "hist_error option \<Rightarrow> history_call \<Rightarrow> (hist_error + string) option" where
  "history_answer ctx c =
     (case ctx of
        Some e \<Rightarrow> Some (Inl e)
      | None \<Rightarrow>
          if \<not> hc_done c then None
          else Some (case hc_err c of Some e \<Rightarrow> Inl e | None \<Rightarrow> Inr (hc_raw c)))"

section \<open>Lookups\<close>

definition history_ttl :: "hist_error option \<Rightarrow> duration" where
  "history_ttl err = (if err = None then 30 * second else 10 * second)"

text \<open>The critical section of \<open>run\<close>, with the result of the execution.\<close>

definition store_result :: "time \<Rightarrow> nat \<Rightarrow> string \<Rightarrow> hist_error option \<Rightarrow> history_cache \<Rightarrow> history_cache" where
  "store_result now r raw err h =
     h\<lparr>hi_heap := (hi_heap h)(r := (hi_heap h r)\<lparr>hc_raw := raw, hc_err := err,
         hc_expires := time_add now (history_ttl err)\<rparr>),
       hi_active := hi_active h - 1, hi_bytes := hi_bytes h + int (length raw)\<rparr>"

definition history_finish ::
  "time \<Rightarrow> history_query \<Rightarrow> nat \<Rightarrow> string \<Rightarrow> hist_error option \<Rightarrow> history_cache \<Rightarrow> history_cache option" where
  "history_finish now q r raw err h =
     (let h1 = store_result now r raw err h;
          h2 = (if err = Some HistCanceled
                then h1\<lparr>hi_bytes := hi_bytes h1 - int (length raw), hi_calls := AList.delete q (hi_calls h1)\<rparr> else h1)
      in map_option (\<lambda>h3. h3\<lparr>hi_heap := (hi_heap h3)(r := (hi_heap h3 r)\<lparr>hc_done := True\<rparr>)\<rparr>) (evict_loop h2))"

text \<open>\<open>execute\<close>, by what it meets: whether a slot came before the end of the context, the context then,
  the inventory, the lock of the VM (\<open>None\<close> when another process holds it) and the lookup.\<close>

record history_env =
  hv_slot :: "hist_error option"
  hv_ctx :: "hist_error option"
  hv_inventory :: "hist_error option"
  hv_lock :: "hist_error + unit option"
  hv_cool_now :: time
  hv_lookup :: "string \<times> hist_error option"
  hv_fail_now :: time

definition cooling :: "history_env \<Rightarrow> history_query \<Rightarrow> history_cache \<Rightarrow> bool" where
  "cooling env q h =
     (case map_of (hi_failures h) (hq_vmid q) of None \<Rightarrow> False | Some until \<Rightarrow> hv_cool_now env < until)"

definition bounded_lookup :: "string \<times> hist_error option \<Rightarrow> string \<times> hist_error option" where
  "bounded_lookup result = (if history_max_bytes < length (fst result) then ('''', Some HistOther) else result)"

definition history_execute ::
  "history_env \<Rightarrow> history_query \<Rightarrow> history_cache \<Rightarrow> history_cache \<times> string \<times> hist_error option" where
  "history_execute env q h =
     (case hv_slot env of Some e \<Rightarrow> (h, '''', Some e) | None \<Rightarrow>
      (case hv_ctx env of Some e \<Rightarrow> (h, '''', Some e) | None \<Rightarrow>
       (case hv_inventory env of Some e \<Rightarrow> (h, '''', Some e) | None \<Rightarrow>
        (case hv_lock env of
           Inl e \<Rightarrow> (h, '''', Some e)
         | Inr None \<Rightarrow> (h, '''', Some HistBusy)
         | Inr (Some _) \<Rightarrow>
             if cooling env q h then (h, '''', Some HistSource)
             else
               (let (raw, err) = bounded_lookup (hv_lookup env) in
                (if err \<noteq> None \<and> err \<noteq> Some HistCanceled
                 then h\<lparr>hi_failures := AList.update (hq_vmid q) (time_add (hv_fail_now env) (10 * second)) (hi_failures h)\<rparr>
                 else h, raw, err))))))"


section \<open>The samples\<close>

text \<open>A JSON number is finite; the metrics of a sample are in the order in which the code checks them.\<close>

record rrd_sample =
  rs_time :: rat
  rs_metrics :: "rat option list"

record history_point =
  hp_time :: time
  hp_metrics :: "rat option list"

record vm_history =
  vh_source :: string
  vh_query :: history_query
  vh_collected :: time
  vh_points :: "history_point list"

text \<open>\<open>t.Unix()\<close> and \<open>time.Unix(s, 0)\<close>: the Unix epoch is 62135596800 seconds after Go's zero time.\<close>

definition unix_seconds :: "time \<Rightarrow> int" where "unix_seconds t = t div second - 62135596800"
definition from_unix :: "int \<Rightarrow> time" where "from_unix s = (s + 62135596800) * second"

fun history_points :: "time \<Rightarrow> rrd_sample list \<Rightarrow> history_point list option" where
  "history_points now [] = Some []"
| "history_points now (s # samples) =
     (if rs_time s \<le> 0 \<or> of_int (unix_seconds (time_add now (5 * minute))) < rs_time s then None
      else if list_ex (\<lambda>v. case v of None \<Rightarrow> False | Some x \<Rightarrow> x < 0) (rs_metrics s) then None
      else map_option ((#) \<lparr>hp_time = from_unix \<lfloor>rs_time s\<rfloor>, hp_metrics = rs_metrics s\<rparr>) (history_points now samples))"

definition decode_history ::
  "(string \<Rightarrow> rrd_sample list option option) \<Rightarrow> (vm_history \<Rightarrow> string option) \<Rightarrow> string \<Rightarrow> history_query \<Rightarrow> time \<Rightarrow>
   string option" where
  "decode_history decode encode raw q now =
     (case decode raw of
        None \<Rightarrow> None
      | Some None \<Rightarrow> None
      | Some (Some samples) \<Rightarrow>
          if 4096 < length samples then None
          else case history_points now samples of
            None \<Rightarrow> None
          | Some points \<Rightarrow>
              encode \<lparr>vh_source = ''pve_rrd'', vh_query = q, vh_collected = now, vh_points = points\<rparr>)"

section \<open>Requests and lookups interleaved\<close>

text \<open>Requests that wait, lookups that run, and the log of the finished lookups: the call, its query, the result
  and the time.\<close>

record history_sys =
  hs_now :: time
  hs_cache :: history_cache
  hs_waiting :: "(nat \<times> history_query) list"
  hs_running :: "(nat \<times> history_query) list"
  hs_log :: "(nat \<times> history_query \<times> string \<times> hist_error option \<times> time) list"

inductive history_step :: "history_sys \<Rightarrow> history_sys \<Rightarrow> bool" where
  history_clock: "0 \<le> d \<Longrightarrow> history_step s (s\<lparr>hs_now := hs_now s + d\<rparr>)"
| history_refused: "history_admit (hs_now s) q (hs_cache s) = (h, AdmitBusy) \<Longrightarrow> history_step s (s\<lparr>hs_cache := h\<rparr>)"
| history_asked: "history_admit (hs_now s) q (hs_cache s) = (h, AdmitCall r fresh) \<Longrightarrow>
     history_step s (s\<lparr>hs_cache := h, hs_waiting := (r, q) # hs_waiting s,
       hs_running := (if fresh then (r, q) # hs_running s else hs_running s)\<rparr>)"
| history_left: "(r, q) \<in> set (hs_waiting s) \<Longrightarrow>
     history_answer ctx (hi_heap (hs_cache s) r) = Some answer \<Longrightarrow>
     history_step s (s\<lparr>hs_cache := history_leave r (hs_cache s), hs_waiting := remove1 (r, q) (hs_waiting s)\<rparr>)"
| history_failure: "history_step s (s\<lparr>hs_cache := (hs_cache s)\<lparr>hi_failures := failures\<rparr>\<rparr>)"
| history_done: "(r, q) \<in> set (hs_running s) \<Longrightarrow> history_finish (hs_now s) q r raw err (hs_cache s) = Some h \<Longrightarrow>
     history_step s (s\<lparr>hs_cache := h, hs_running := remove1 (r, q) (hs_running s),
       hs_log := (r, q, raw, err, hs_now s) # hs_log s\<rparr>)"

definition start_history :: "time \<Rightarrow> history_sys" where
  "start_history now = \<lparr>hs_now = now, hs_cache = new_history_cache, hs_waiting = [], hs_running = [], hs_log = []\<rparr>"


section \<open>The cache's invariant\<close>

abbreviation "is_active h r \<equiv> is_zero_time (hc_expires (hi_heap h r))"

text \<open>The calls against the lookups that run.\<close>

definition cache_ok :: "history_cache \<Rightarrow> (nat \<times> history_query) list \<Rightarrow> bool" where
  "cache_ok h running \<longleftrightarrow>
     distinct (map fst (hi_calls h)) \<and> distinct (map snd (hi_calls h)) \<and> distinct (map fst running) \<and>
     (\<forall>qr \<in> set (hi_calls h). snd qr < hi_alloc h) \<and> hi_active h = int (length running) \<and>
     (\<forall>(r, q) \<in> set running. (q, r) \<in> set (hi_calls h) \<and> is_active h r \<and> raw_len h r = 0 \<and> \<not> hc_done (hi_heap h r)) \<and>
     (\<forall>(q, r) \<in> set (hi_calls h). is_active h r \<longrightarrow> (r, q) \<in> set running) \<and>
     hi_bytes h = sum_list (map (\<lambda>(q, r). raw_len h r) (hi_calls h))"

lemma cache_ok_heap:
  assumes "\<And>r. hc_raw (heap' r) = hc_raw (hi_heap h r) \<and> hc_expires (heap' r) = hc_expires (hi_heap h r) \<and>
      hc_done (heap' r) = hc_done (hi_heap h r)"
  shows "cache_ok (h\<lparr>hi_heap := heap'\<rparr>) running = cache_ok h running"
  using assms by (simp add: cache_ok_def)

lemma cache_ok_failures [simp]: "cache_ok (h\<lparr>hi_failures := f\<rparr>) running = cache_ok h running"
  by (simp add: cache_ok_def)

lemma oldest_call_best: "best \<noteq> None \<Longrightarrow> oldest_call heap calls best \<noteq> None"
  by (induction heap calls best rule: oldest_call.induct) auto

lemma oldest_call_None: "oldest_call heap calls None = None \<Longrightarrow> (q, r) \<in> set calls \<Longrightarrow> is_zero_time (hc_expires (heap r))"
proof (induction calls)
  case (Cons qr calls)
  obtain q' r' where qr: "qr = (q', r')" by fastforce
  show ?case
  proof (cases "is_zero_time (hc_expires (heap r'))")
    case True
    then show ?thesis using Cons qr by auto
  next
    case False
    then have "oldest_call heap calls (Some (q', r')) = None" using Cons.prems(1) qr by simp
    then show ?thesis using oldest_call_best by blast
  qed
qed simp

lemma evict_oldest_Some:
  assumes "evict_oldest h = Some h'"
  obtains q r where "(q, r) \<in> set (hi_calls h)" and "\<not> is_active h r"
    and "h' = h\<lparr>hi_bytes := hi_bytes h - raw_len h r, hi_calls := AList.delete q (hi_calls h)\<rparr>"
proof -
  obtain q r where o: "oldest_call (hi_heap h) (hi_calls h) None = Some (q, r)"
      and h': "h' = h\<lparr>hi_bytes := hi_bytes h - raw_len h r, hi_calls := AList.delete q (hi_calls h)\<rparr>"
    using assms by (auto simp: evict_oldest_def split: option.splits)
  have "(q, r) \<in> set (hi_calls h) \<and> \<not> is_active h r" using oldest_call_in [OF o] by simp
  then show thesis using that h' by blast
qed

lemma delete_sum:
  "distinct (map fst m) \<Longrightarrow> (q, r) \<in> set m \<Longrightarrow>
     sum_list (map f (AList.delete q m)) = sum_list (map f m) - (f (q, r) :: int)"
proof (induction m)
  case (Cons qr m)
  obtain q' r' where qr: "qr = (q', r')" by fastforce
  show ?case
  proof (cases "q' = q")
    case True
    then have "q \<notin> set (map fst m)" "r' = r" using Cons.prems qr by (auto simp: rev_image_eqI)
    then have "AList.delete q m = m" by (metis delete_fresh dom_keys)
    then show ?thesis using True \<open>r' = r\<close> qr by simp
  next
    case False
    then show ?thesis using Cons qr by auto
  qed
qed simp

lemma delete_set: "distinct (map fst m) \<Longrightarrow> (q, r) \<in> set m \<Longrightarrow> set (AList.delete q m) = set m - {(q, r)}"
  by (auto simp: AList.delete_eq) (metis map_of_eq_Some_iff option.inject)

lemma delete_distinct:
  "distinct (map fst m) \<Longrightarrow> distinct (map fst (AList.delete q m))"
  "distinct (map snd m) \<Longrightarrow> distinct (map snd (AList.delete q m))"
  by (auto simp: AList.delete_eq distinct_map_filter)

text \<open>Dropping a completed call.\<close>

lemma cache_ok_delete:
  assumes "cache_ok h running" and "(q, r) \<in> set (hi_calls h)" and "\<not> is_active h r"
  shows "cache_ok (h\<lparr>hi_bytes := hi_bytes h - raw_len h r, hi_calls := AList.delete q (hi_calls h)\<rparr>) running"
proof -
  have dist: "distinct (map fst (hi_calls h))" "distinct (map snd (hi_calls h))" using assms(1) by (simp_all add: cache_ok_def)
  show ?thesis
    using assms delete_sum [OF dist(1) assms(2), of "\<lambda>(q, r). raw_len h r"] delete_distinct(1) [OF dist(1)]
      delete_distinct(2) [OF dist(2)]
    unfolding cache_ok_def by (auto simp: delete_set [OF dist(1) assms(2)])
qed

lemma evict_oldest_ok:
  assumes "cache_ok h running" and "evict_oldest h = Some h'"
  shows "cache_ok h' running \<and> hi_heap h' = hi_heap h \<and> hi_active h' = hi_active h \<and> hi_alloc h' = hi_alloc h \<and>
    set (hi_calls h') \<subseteq> set (hi_calls h) \<and> hi_bytes h' \<le> hi_bytes h"
proof -
  obtain q r where e: "(q, r) \<in> set (hi_calls h)" "\<not> is_active h r"
      "h' = h\<lparr>hi_bytes := hi_bytes h - raw_len h r, hi_calls := AList.delete q (hi_calls h)\<rparr>"
    by (rule evict_oldest_Some [OF assms(2)])
  have "set (AList.delete q (hi_calls h)) \<subseteq> set (hi_calls h)" by (auto simp: AList.delete_eq)
  then show ?thesis using cache_ok_delete [OF assms(1) e(1,2)] e(3) by simp
qed

lemma evict_oldest_exists:
  assumes "(q, r) \<in> set (hi_calls h)" and "\<not> is_active h r"
  shows "evict_oldest h \<noteq> None"
  using oldest_call_None [of "hi_heap h" "hi_calls h" q r] assms
  by (cases "oldest_call (hi_heap h) (hi_calls h) None") (auto simp: evict_oldest_def)

text \<open>With more calls than running lookups there is a completed one, and likewise with any byte stored.\<close>

lemma completed_exists:
  assumes "cache_ok h running" and "length running < length (hi_calls h)"
  shows "\<exists>(q, r) \<in> set (hi_calls h). \<not> is_active h r"
proof (rule ccontr)
  assume none: "\<not> ?thesis"
  have dist: "distinct (map fst (hi_calls h))" using assms(1) by (simp add: cache_ok_def)
  have "(\<lambda>(q, r). (r, q)) ` set (hi_calls h) \<subseteq> set running"
    using none assms(1) by (auto simp: cache_ok_def)
  then have "card ((\<lambda>(q, r). (r, q)) ` set (hi_calls h)) \<le> card (set running)" by (rule card_mono [rotated]) simp
  moreover have "card ((\<lambda>(q, r). (r, q)) ` set (hi_calls h)) = card (set (hi_calls h))"
    by (rule card_image) (auto simp: inj_on_def)
  moreover have "card (set (hi_calls h)) = length (hi_calls h)"
    using dist by (simp add: distinct_map distinct_card)
  ultimately show False using assms(2) card_length [of running] by linarith
qed

lemma stored_exists:
  assumes "cache_ok h running" and "0 < hi_bytes h"
  shows "\<exists>(q, r) \<in> set (hi_calls h). \<not> is_active h r"
proof (rule ccontr)
  assume "\<not> ?thesis"
  then have "\<forall>(q, r) \<in> set (hi_calls h). raw_len h r = 0" using assms(1) by (fastforce simp: cache_ok_def)
  then have "map (\<lambda>(q, r). raw_len h r) (hi_calls h) = map (\<lambda>_. 0) (hi_calls h)" by auto
  then have "sum_list (map (\<lambda>(q, r). raw_len h r) (hi_calls h)) = 0"
    by (metis sum_list_0)
  then show False using assms by (simp add: cache_ok_def)
qed

lemma evict_loop_ok:
  assumes "cache_ok h running"
  shows "\<exists>h'. evict_loop h = Some h' \<and> cache_ok h' running \<and> hi_heap h' = hi_heap h \<and> hi_active h' = hi_active h \<and>
    hi_alloc h' = hi_alloc h \<and> set (hi_calls h') \<subseteq> set (hi_calls h) \<and> hi_bytes h' \<le> max_history_bytes"
  using assms
proof (induction h rule: evict_loop.induct)
  case (1 h)
  show ?case
  proof (cases "hi_bytes h \<le> max_history_bytes")
    case True
    then show ?thesis using 1(2) by (subst evict_loop.simps) auto
  next
    case False
    then have "0 < hi_bytes h" by (simp add: max_history_bytes_def)
    then obtain q r where "(q, r) \<in> set (hi_calls h)" "\<not> is_active h r" using stored_exists [OF 1(2)] by blast
    then obtain h1 where h1: "evict_oldest h = Some h1" using evict_oldest_exists by blast
    note ok = evict_oldest_ok [OF 1(2) h1]
    obtain h' where h': "evict_loop h1 = Some h'" "cache_ok h' running" "hi_heap h' = hi_heap h1" "hi_active h' = hi_active h1"
        "hi_alloc h' = hi_alloc h1" "set (hi_calls h') \<subseteq> set (hi_calls h1)" "hi_bytes h' \<le> max_history_bytes"
      using 1(1) [OF False h1] ok by blast
    have "evict_loop h = evict_loop h1" using False h1 by (subst evict_loop.simps) simp
    then show ?thesis using h' ok by auto
  qed
qed


section \<open>The critical sections keep the invariant\<close>

lemma filter_sum:
  "sum_list (map f (filter P m)) = sum_list (map f m) - (sum_list (map f (filter (\<lambda>x. \<not> P x) m)) :: int)"
  by (induction m) auto

lemma purge_ok:
  assumes "cache_ok h running"
  shows "cache_ok (purge now h) running"
proof -
  let ?live = "\<lambda>(q, r). \<not> call_expired now (hi_heap h r)"
  have sum: "sum_list (map (\<lambda>(q, r). raw_len h r) (filter ?live (hi_calls h))) =
      sum_list (map (\<lambda>(q, r). raw_len h r) (hi_calls h)) -
      sum_list (map (\<lambda>(q, r). raw_len h r) (filter (\<lambda>(q, r). call_expired now (hi_heap h r)) (hi_calls h)))"
    using filter_sum [of "\<lambda>(q, r). raw_len h r" ?live "hi_calls h"] by (simp add: case_prod_beta')
  have live: "?live (q, r)" if "(r, q) \<in> set running" for r q
    using assms that by (auto simp: cache_ok_def call_expired_def)
  show ?thesis
    using assms sum live unfolding purge_def cache_ok_def by (auto simp: distinct_map_filter)
qed

lemma purge_simps [simp]:
  "hi_heap (purge now h) = hi_heap h" "hi_active (purge now h) = hi_active h" "hi_alloc (purge now h) = hi_alloc h"
  "set (hi_calls (purge now h)) = {(q, r) \<in> set (hi_calls h). \<not> call_expired now (hi_heap h r)}"
  "length (hi_calls (purge now h)) \<le> length (hi_calls h)"
  by (auto simp: purge_def)

lemma sum_raw_nonneg: "0 \<le> sum_list (map (\<lambda>(q, r). raw_len h r) m)"
  by (induction m) auto

lemma purge_bytes: "hi_bytes (purge now h) \<le> hi_bytes h"
  unfolding purge_def using sum_raw_nonneg by simp

lemma add_waiter_ok [simp]: "cache_ok (add_waiter r h) running = cache_ok h running"
  unfolding add_waiter_def by (rule cache_ok_heap) simp

lemma add_waiter_simps [simp]:
  "hi_calls (add_waiter r h) = hi_calls h" "hi_active (add_waiter r h) = hi_active h" "hi_alloc (add_waiter r h) = hi_alloc h"
  "hi_bytes (add_waiter r h) = hi_bytes h"
  "hc_raw (hi_heap (add_waiter r h) r') = hc_raw (hi_heap h r')" "hc_err (hi_heap (add_waiter r h) r') = hc_err (hi_heap h r')"
  "hc_expires (hi_heap (add_waiter r h) r') = hc_expires (hi_heap h r')"
  "hc_done (hi_heap (add_waiter r h) r') = hc_done (hi_heap h r')"
  by (simp_all add: add_waiter_def)

lemma leave_ok [simp]: "cache_ok (history_leave r h) running = cache_ok h running"
  unfolding history_leave_def Let_def by (rule cache_ok_heap) simp

lemma leave_simps [simp]:
  "hi_calls (history_leave r h) = hi_calls h" "hi_active (history_leave r h) = hi_active h" "hi_alloc (history_leave r h) = hi_alloc h"
  "hi_bytes (history_leave r h) = hi_bytes h"
  "hc_raw (hi_heap (history_leave r h) r') = hc_raw (hi_heap h r')" "hc_err (hi_heap (history_leave r h) r') = hc_err (hi_heap h r')"
  "hc_expires (hi_heap (history_leave r h) r') = hc_expires (hi_heap h r')"
  "hc_done (hi_heap (history_leave r h) r') = hc_done (hi_heap h r')"
  by (simp_all add: history_leave_def Let_def)

text \<open>A new call.\<close>

lemma new_call_ok:
  assumes "cache_ok h running" and "map_of (hi_calls h) q = None"
  shows "cache_ok (fst (new_history_call q h)) ((hi_alloc h, q) # running)"
proof -
  let ?r = "hi_alloc h" and ?h = "h\<lparr>hi_heap := (hi_heap h)(hi_alloc h := new_call),
    hi_calls := AList.update q (hi_alloc h) (hi_calls h), hi_active := hi_active h + 1, hi_alloc := hi_alloc h + 1\<rparr>"
  have q: "q \<notin> set (map fst (hi_calls h))" using assms(2) by (metis dom_keys)
  have r: "?r \<notin> set (map snd (hi_calls h))" using assms(1) by (auto simp: cache_ok_def)
  have sum: "sum_list (map (\<lambda>(q, r). int (length (hc_raw (((hi_heap h)(?r := new_call)) r)))) (hi_calls h)) =
      sum_list (map (\<lambda>(q, r). raw_len h r) (hi_calls h))"
    using r by (intro arg_cong [of _ _ sum_list] map_cong) force+
  have run: "?r \<notin> set (map fst running)" using assms(1) r by (force simp: cache_ok_def)
  have old: "r' \<noteq> ?r" if "(q', r') \<in> set (hi_calls h)" for q' r' using that r by force
  have old_run: "r' \<noteq> ?r" if "(r', q') \<in> set running" for q' r' using that run by force
  have "cache_ok ?h ((?r, q) # running)"
    using assms(1) q r run sum
    by (auto dest: old old_run split: if_splits simp: cache_ok_def update_fresh [OF assms(2)] new_call_def is_zero_time_def time_zero_def less_Suc_eq)
  then show ?thesis by (simp add: new_history_call_def Let_def)
qed

lemma new_call_simps [simp]:
  "snd (new_history_call q h) = AdmitCall (hi_alloc h) True"
  "hi_bytes (fst (new_history_call q h)) = hi_bytes h" "hi_alloc (fst (new_history_call q h)) = hi_alloc h + 1"
  "r \<noteq> hi_alloc h \<Longrightarrow> hi_heap (fst (new_history_call q h)) r = hi_heap h r"
  "hi_calls (fst (new_history_call q h)) = AList.update q (hi_alloc h) (hi_calls h)"
  by (simp_all add: new_history_call_def Let_def add_waiter_def)

text \<open>The three outcomes of a request.\<close>

lemma admit_cases:
  assumes "cache_ok h0 running" and "length running \<le> 32" and "length (hi_calls h0) \<le> 128"
    and "hi_bytes h0 \<le> max_history_bytes" and "history_admit now q h0 = (h, r)"
  obtains (busy) "h = purge now h0" and "r = AdmitBusy"
  | (join) i where "r = AdmitCall i False" and "h = add_waiter i (purge now h0)" and "(q, i) \<in> set (hi_calls h0)"
      and "\<not> call_expired now (hi_heap h0 i)"
  | (fresh) h1 where "r = AdmitCall (hi_alloc h0) True" and "h = fst (new_history_call q h1)" and "cache_ok h1 running"
      and "map_of (hi_calls h1) q = None" and "hi_heap h1 = hi_heap h0" and "hi_alloc h1 = hi_alloc h0"
      and "set (hi_calls h1) \<subseteq> set (hi_calls h0)" and "hi_bytes h1 \<le> max_history_bytes"
      and "length (hi_calls h1) < 128" and "length running < 32"
proof (cases "map_of (hi_calls (purge now h0)) q")
  case (Some i)
  then have "(q, i) \<in> set (hi_calls (purge now h0))" by (rule map_of_SomeD)
  then show thesis
    using that(2) [of i] assms(5) Some by (auto simp: history_admit_def Let_def)
next
  case None
  let ?h = "purge now h0"
  have ok: "cache_ok ?h running" by (rule purge_ok [OF assms(1)])
  have bytes: "hi_bytes ?h \<le> max_history_bytes" using purge_bytes [of now h0] assms(4) by linarith
  show thesis
  proof (cases "32 \<le> hi_active ?h")
    case True
    then show thesis using that(1) assms(5) None by (simp add: history_admit_def Let_def)
  next
    case False
    then have run: "length running < 32" using ok by (simp add: cache_ok_def)
    show thesis
    proof (cases "128 \<le> length (hi_calls ?h)")
      case full: True
      then obtain q' r' where "(q', r') \<in> set (hi_calls ?h)" "\<not> is_active ?h r'"
        using completed_exists [OF ok] run by force
      then obtain h1 where h1: "evict_oldest ?h = Some h1" using evict_oldest_exists by blast
      note e = evict_oldest_ok [OF ok h1]
      have "map_of (hi_calls h1) q = None"
        using None e by (metis dom_keys image_mono list.set_map subset_iff)
      moreover have "length (hi_calls h1) < 128"
        using evict_oldest_length [OF h1] full purge_simps(5) [of now h0] assms(3) by linarith
      ultimately show thesis
        using that(3) [of h1] e h1 None False full run bytes assms(5)
        by (auto simp: history_admit_def Let_def prod_eq_iff)
    next
      case False
      then show thesis
        using that(3) [of ?h] ok None \<open>\<not> 32 \<le> hi_active ?h\<close> run bytes assms(5)
        by (auto simp: history_admit_def Let_def prod_eq_iff)
    qed
  qed
qed


text \<open>The end of a lookup.\<close>

lemma calls_heap_update:
  assumes "distinct (map snd m)" and "(q, r) \<in> set m"
  shows "sum_list (map (\<lambda>(q', r'). if r' = r then n else f r') m) = sum_list (map (\<lambda>(q', r'). f r') m) - f r + (n :: int)"
  using assms
proof (induction m)
  case (Cons qr m)
  obtain q' r' where qr: "qr = (q', r')" by fastforce
  show ?case
  proof (cases "r' = r")
    case True
    then have "r \<notin> set (map snd m)" using Cons.prems qr by simp
    then have "sum_list (map (\<lambda>(q', r'). if r' = r then n else f r') m) = sum_list (map (\<lambda>(q', r'). f r') m)"
      by (intro arg_cong [of _ _ sum_list] map_cong) force+
    then show ?thesis using True qr by simp
  next
    case False
    then show ?thesis using Cons qr by auto
  qed
qed simp

lemma cache_ok_done:
  assumes "cache_ok h running" and "r \<notin> set (map fst running)"
  shows "cache_ok (h\<lparr>hi_heap := (hi_heap h)(r := (hi_heap h r)\<lparr>hc_done := True\<rparr>)\<rparr>) running"
proof -
  define heap where "heap = (hi_heap h)(r := (hi_heap h r)\<lparr>hc_done := True\<rparr>)"
  have same: "hc_raw (heap r') = hc_raw (hi_heap h r')" "hc_expires (heap r') = hc_expires (hi_heap h r')" for r'
    by (auto simp: heap_def)
  have keep: "heap r' = hi_heap h r'" if "(r', q') \<in> set running" for r' q'
    using assms(2) that by (force simp: heap_def)
  have run: "\<forall>(r', q') \<in> set running. (q', r') \<in> set (hi_calls h) \<and> is_active h r' \<and> raw_len h r' = 0 \<and> \<not> hc_done (heap r')"
    using assms(1) keep unfolding cache_ok_def by fastforce
  show ?thesis
    unfolding heap_def [symmetric] using assms(1) run unfolding cache_ok_def by (simp add: same)
qed

lemma remove_running:
  assumes "distinct (map fst running)" and "(r, q) \<in> set running"
  shows "set (remove1 (r, q) running) = set running - {(r, q)}" and "r \<notin> set (map fst (remove1 (r, q) running))"
    and "distinct (map fst (remove1 (r, q) running))"
proof -
  show rest: "set (remove1 (r, q) running) = set running - {(r, q)}" using assms(1) by (simp add: distinct_map)
  have "q' = q" if "(r, q') \<in> set running" for q'
    using assms that by (metis eq_key_imp_eq_value)
  then show "r \<notin> set (map fst (remove1 (r, q) running))" unfolding set_map rest by auto
  show "distinct (map fst (remove1 (r, q) running))"
    using assms(1) by (simp add: distinct_map inj_on_def)
qed

lemma store_result_ok:
  assumes "cache_ok h running" and "(r, q) \<in> set running" and "0 \<le> now"
  shows "cache_ok (store_result now r raw err h) (remove1 (r, q) running)"
proof -
  have run: "(q, r) \<in> set (hi_calls h)" "is_active h r" "raw_len h r = 0" using assms(1,2) by (auto simp: cache_ok_def)
  have dist: "distinct (map snd (hi_calls h))" "distinct (map fst running)" using assms(1) by (simp_all add: cache_ok_def)
  have live: "time_add now (history_ttl err) \<noteq> 0" using assms(3) by (simp add: time_add_def history_ttl_def second_def)
  note rest = remove_running [OF dist(2) assms(2)]
  have other: "r' \<noteq> r" if "(r', q') \<in> set (remove1 (r, q) running)" for r' q' using that rest(2) by force
  have len: "hi_active h - 1 = int (length (remove1 (r, q) running))"
  proof -
    have "length (remove1 (r, q) running) = length running - 1" using assms(2) by (simp add: length_remove1)
    moreover have "hi_active h = int (length running)" using assms(1) by (simp add: cache_ok_def)
    moreover have "0 < length running" using assms(2) by (rule length_pos_if_in_set)
    ultimately show ?thesis by linarith
  qed
  have sum: "sum_list (map (\<lambda>(q', r'). if r' = r then int (length raw) else raw_len h r') (hi_calls h)) =
      hi_bytes h + int (length raw)"
    using calls_heap_update [OF dist(1) run(1), of "int (length raw)" "\<lambda>r. raw_len h r"] run(3) assms(1)
    by (simp add: cache_ok_def)
  have sum': "sum_list (map (\<lambda>(q', r'). int (length (hc_raw (((hi_heap h)(r := (hi_heap h r)\<lparr>hc_raw := raw, hc_err := err,
         hc_expires := time_add now (history_ttl err)\<rparr>)) r')))) (hi_calls h)) = hi_bytes h + int (length raw)"
    unfolding sum [symmetric] by (intro arg_cong [of _ _ sum_list] map_cong) auto
  let ?h' = "store_result now r raw err h"
  have simps: "hi_calls ?h' = hi_calls h" "hi_alloc ?h' = hi_alloc h" "hi_active ?h' = hi_active h - 1"
    "hi_bytes ?h' = hi_bytes h + int (length raw)" "\<not> is_active ?h' r" "r' \<noteq> r \<Longrightarrow> hi_heap ?h' r' = hi_heap h r'" for r'
    using live by (simp_all add: store_result_def is_zero_time_def)
  have "(q', r') \<in> set (hi_calls h) \<and> is_active h r' \<and> raw_len h r' = 0 \<and> \<not> hc_done (hi_heap h r')"
    if "(r', q') \<in> set running" for r' q'
    using assms(1) that unfolding cache_ok_def by blast
  then have running: "(q', r') \<in> set (hi_calls ?h') \<and> is_active ?h' r' \<and> raw_len ?h' r' = 0 \<and> \<not> hc_done (hi_heap ?h' r')"
    if "(r', q') \<in> set (remove1 (r, q) running)" for r' q'
    using that rest(1) simps(1,6) other [OF that] by simp
  have calls: "(r', q') \<in> set (remove1 (r, q) running)" if "(q', r') \<in> set (hi_calls h)" "is_active ?h' r'" for r' q'
  proof -
    have "r' \<noteq> r" using that(2) simps(5) by blast
    moreover from this have "is_active h r'" using that(2) simps(6) by simp
    ultimately show ?thesis using assms(1) that(1) rest(1) unfolding cache_ok_def by blast
  qed
  have sum'': "hi_bytes ?h' = sum_list (map (\<lambda>(q, r). raw_len ?h' r) (hi_calls ?h'))"
    unfolding simps(4) sum' [symmetric] by (simp add: store_result_def)
  show ?thesis
    unfolding cache_ok_def
    using assms(1) running calls sum'' simps(1-3) len rest(3) unfolding cache_ok_def by auto
qed

lemma finish_ok:
  assumes "cache_ok h running" and "(r, q) \<in> set running" and "0 \<le> now"
  shows "\<exists>h'. history_finish now q r raw err h = Some h' \<and> cache_ok h' (remove1 (r, q) running) \<and>
    hi_bytes h' \<le> max_history_bytes \<and> set (hi_calls h') \<subseteq> set (hi_calls h) \<and> hi_alloc h' = hi_alloc h \<and>
    (\<forall>r'. r' \<noteq> r \<longrightarrow> hi_heap h' r' = hi_heap h r') \<and>
    hc_raw (hi_heap h' r) = raw \<and> hc_err (hi_heap h' r) = err \<and> hc_done (hi_heap h' r) \<and>
    hc_expires (hi_heap h' r) = time_add now (history_ttl err)"
proof -
  let ?h1 = "store_result now r raw err h" and ?run = "remove1 (r, q) running"
  let ?h2 = "if err = Some HistCanceled
     then ?h1\<lparr>hi_bytes := hi_bytes ?h1 - int (length raw), hi_calls := AList.delete q (hi_calls ?h1)\<rparr> else ?h1"
  have ok1: "cache_ok ?h1 ?run" by (rule store_result_ok [OF assms])
  have in1: "(q, r) \<in> set (hi_calls ?h1)" "raw_len ?h1 r = int (length raw)" "\<not> is_active ?h1 r"
    using assms by (auto simp: cache_ok_def store_result_def is_zero_time_def time_add_def history_ttl_def second_def)
  have ok2: "cache_ok ?h2 ?run"
    using ok1 cache_ok_delete [OF ok1 in1(1,3), unfolded in1(2)] by (cases "err = Some HistCanceled") (simp_all only: if_True if_False refl)
  obtain h3 where h3: "evict_loop ?h2 = Some h3" "cache_ok h3 ?run" "hi_heap h3 = hi_heap ?h2" "hi_alloc h3 = hi_alloc ?h2"
      "set (hi_calls h3) \<subseteq> set (hi_calls ?h2)" "hi_bytes h3 \<le> max_history_bytes"
    using evict_loop_ok [OF ok2] by blast
  let ?h4 = "h3\<lparr>hi_heap := (hi_heap h3)(r := (hi_heap h3 r)\<lparr>hc_done := True\<rparr>)\<rparr>"
  have fin: "history_finish now q r raw err h = Some ?h4" using h3(1) by (simp add: history_finish_def Let_def)
  have "r \<notin> set (map fst ?run)"
    by (rule remove_running(2)) (use assms(1,2) in \<open>simp_all add: cache_ok_def\<close>)
  then have "cache_ok ?h4 ?run" by (rule cache_ok_done [OF h3(2)])
  moreover have "set (hi_calls ?h2) \<subseteq> set (hi_calls h)" by (auto simp: AList.delete_eq store_result_def)
  moreover have "hi_heap ?h2 = hi_heap ?h1" "hi_alloc ?h2 = hi_alloc h" by (simp_all add: store_result_def)
  ultimately show ?thesis
    using fin h3 by (intro exI [of _ ?h4]) (simp add: store_result_def)
qed


section \<open>The system's invariant\<close>

text \<open>The call holds the logged result of a lookup of its query.\<close>

definition settled ::
  "(nat \<times> history_query \<times> string \<times> hist_error option \<times> time) list \<Rightarrow> history_cache \<Rightarrow> nat \<Rightarrow> history_query \<Rightarrow> bool" where
  "settled results h r q \<longleftrightarrow>
     (\<exists>t. (r, q, hc_raw (hi_heap h r), hc_err (hi_heap h r), t) \<in> set results \<and>
        hc_expires (hi_heap h r) = time_add t (history_ttl (hc_err (hi_heap h r))) \<and> hc_done (hi_heap h r))"

lemma settled_mono: "settled results h r q \<Longrightarrow> settled (x # results) h r q"
  by (auto simp: settled_def)

lemma settled_cong:
  assumes "hc_raw (hi_heap h' r) = hc_raw (hi_heap h r)" and "hc_err (hi_heap h' r) = hc_err (hi_heap h r)"
    and "hc_expires (hi_heap h' r) = hc_expires (hi_heap h r)" and "hc_done (hi_heap h' r) = hc_done (hi_heap h r)"
  shows "settled results h' r q = settled results h r q"
  using assms by (simp add: settled_def)

lemma settled_simps [simp]:
  "settled results (purge now h) r q = settled results h r q"
  "settled results (add_waiter i h) r q = settled results h r q"
  "settled results (history_leave i h) r q = settled results h r q"
  "settled results (h\<lparr>hi_failures := f\<rparr>) r q = settled results h r q"
  by (rule settled_cong; simp)+

definition history_inv :: "history_sys \<Rightarrow> bool" where
  "history_inv s \<longleftrightarrow>
     0 \<le> hs_now s \<and> cache_ok (hs_cache s) (hs_running s) \<and> length (hs_running s) \<le> 32 \<and>
     length (hi_calls (hs_cache s)) \<le> 128 \<and> hi_bytes (hs_cache s) \<le> max_history_bytes \<and>
     (\<forall>(r, q) \<in> set (hs_waiting s). r < hi_alloc (hs_cache s) \<and>
        ((r, q) \<in> set (hs_running s) \<or> settled (hs_log s) (hs_cache s) r q)) \<and>
     (\<forall>(q, r) \<in> set (hi_calls (hs_cache s)). \<not> is_active (hs_cache s) r \<longrightarrow> settled (hs_log s) (hs_cache s) r q)"

lemma start_history_inv: "0 \<le> now \<Longrightarrow> history_inv (start_history now)"
  by (simp add: history_inv_def start_history_def new_history_cache_def cache_ok_def max_history_bytes_def)

lemma asked_inv:
  assumes "history_inv s" and "history_admit (hs_now s) q (hs_cache s) = (h, AdmitCall r fresh)"
  shows "history_inv (s\<lparr>hs_cache := h, hs_waiting := (r, q) # hs_waiting s,
    hs_running := (if fresh then (r, q) # hs_running s else hs_running s)\<rparr>)"
proof -
  let ?h = "hs_cache s"
  have ok: "cache_ok ?h (hs_running s)" "length (hs_running s) \<le> 32" "length (hi_calls ?h) \<le> 128"
      "hi_bytes ?h \<le> max_history_bytes"
    using assms(1) by (simp_all add: history_inv_def)
  show ?thesis
  proof (cases rule: admit_cases [OF ok assms(2), case_names busy join fresh])
    case busy
    then show ?thesis by simp
  next
    case (join i)
    have here: "(r, q) \<in> set (hs_running s) \<or> settled (hs_log s) ?h r q" "r < hi_alloc ?h"
      using join assms(1) unfolding history_inv_def cache_ok_def by fastforce+
    have ok': "cache_ok h (hs_running s)" using join purge_ok [OF ok(1)] by simp
    have sets: "set (hi_calls h) \<subseteq> set (hi_calls ?h)" "length (hi_calls h) \<le> 128" "hi_bytes h \<le> max_history_bytes"
      "hi_alloc h = hi_alloc ?h" "\<And>r. is_active h r = is_active ?h r"
      using join ok purge_bytes [of "hs_now s" ?h] purge_simps(5) [of "hs_now s" ?h] by (auto simp del: purge_simps(5))
    have sett: "settled (hs_log s) h r' q' = settled (hs_log s) ?h r' q'" for r' q' using join by simp
    show ?thesis
      using assms(1) ok' sets here join(1) unfolding history_inv_def by (auto simp: sett)
  next
    case (fresh h1)
    note new = new_call_ok [OF fresh(3,4)]
    have heap: "hi_heap h r' = hi_heap ?h r'" if "r' < hi_alloc ?h" for r' using that fresh by simp
    have old: "r' < hi_alloc ?h" if "(q', r') \<in> set (hi_calls ?h)" for q' r' using ok(1) that by (force simp: cache_ok_def)
    have sett: "settled (hs_log s) h r' q' = settled (hs_log s) ?h r' q'" if "r' < hi_alloc ?h" for r' q'
      by (rule settled_cong) (simp_all add: heap [OF that])
    have calls: "hi_calls h = hi_calls h1 @ [(q, hi_alloc ?h)]" using fresh update_fresh [OF fresh(4)] by simp
    have "is_active h (hi_alloc ?h)" using new fresh by (auto simp: cache_ok_def)
    then have inactive: "settled (hs_log s) h r' q'" if "(q', r') \<in> set (hi_calls h)" "\<not> is_active h r'" for q' r'
    proof -
      have "(q', r') \<in> set (hi_calls ?h)" using that calls fresh(7) \<open>is_active h (hi_alloc ?h)\<close> by auto
      then show ?thesis using that(2) assms(1) old heap sett unfolding history_inv_def by fastforce
    qed
    have waiting: "(r', q') \<in> set (hs_running s) \<or> settled (hs_log s) h r' q'" "r' < hi_alloc ?h"
      if "(r', q') \<in> set (hs_waiting s)" for r' q'
      using that assms(1) sett unfolding history_inv_def by fastforce+
    have rf: "r = hi_alloc ?h" "fresh" using fresh(1) by simp_all
    have bound: "hi_bytes h \<le> max_history_bytes" "hi_alloc h = hi_alloc ?h + 1" "length (hi_calls h) \<le> 128"
      "cache_ok h ((r, q) # hs_running s)" "length ((r, q) # hs_running s) \<le> 32" "0 \<le> hs_now s"
      using fresh new calls rf assms(1) by (simp_all add: history_inv_def)
    show ?thesis
      unfolding history_inv_def using bound inactive waiting rf by (auto simp: less_Suc_eq)
  qed
qed

lemma done_inv:
  assumes "history_inv s" and "(r, q) \<in> set (hs_running s)"
    and "history_finish (hs_now s) q r raw err (hs_cache s) = Some h"
  shows "history_inv (s\<lparr>hs_cache := h, hs_running := remove1 (r, q) (hs_running s),
    hs_log := (r, q, raw, err, hs_now s) # hs_log s\<rparr>)"
proof -
  let ?h = "hs_cache s" and ?log = "(r, q, raw, err, hs_now s) # hs_log s"
  have ok: "cache_ok ?h (hs_running s)" "0 \<le> hs_now s" using assms(1) by (simp_all add: history_inv_def)
  have dist: "distinct (map fst (hs_running s))" using ok(1) by (simp add: cache_ok_def)
  have f: "cache_ok h (remove1 (r, q) (hs_running s))" "hi_bytes h \<le> max_history_bytes"
      "set (hi_calls h) \<subseteq> set (hi_calls ?h)" "hi_alloc h = hi_alloc ?h" "\<And>r'. r' \<noteq> r \<Longrightarrow> hi_heap h r' = hi_heap ?h r'"
      "hc_raw (hi_heap h r) = raw" "hc_err (hi_heap h r) = err" "hc_done (hi_heap h r)"
      "hc_expires (hi_heap h r) = time_add (hs_now s) (history_ttl err)"
    using finish_ok [OF ok(1) assms(2) ok(2), of raw err] assms(3) by auto
  have here: "settled ?log h r q" using f(6-9) by (auto simp: settled_def)
  have other: "settled ?log h r' q'" if "settled (hs_log s) ?h r' q'" "r' \<noteq> r" for r' q'
    using settled_mono [OF that(1)] settled_cong [of h r' ?h] f(5) [OF that(2)] by simp
  have not_settled: "\<not> settled (hs_log s) ?h r q'" for q'
    using ok(1) assms(2) by (auto simp: cache_ok_def settled_def)
  have unique: "q' = q" if "(r, q') \<in> set (hs_running s)" for q'
    using dist that assms(2) by (metis eq_key_imp_eq_value)
  have waiting: "r' < hi_alloc h \<and> ((r', q') \<in> set (remove1 (r, q) (hs_running s)) \<or> settled ?log h r' q')"
    if w: "(r', q') \<in> set (hs_waiting s)" for r' q'
  proof -
    have old: "r' < hi_alloc ?h" "(r', q') \<in> set (hs_running s) \<or> settled (hs_log s) ?h r' q'"
      using assms(1) w unfolding history_inv_def by blast+
    show ?thesis
    proof (cases "r' = r")
      case True
      then have "q' = q" using old(2) not_settled unique by blast
      then show ?thesis using True here old(1) f(4) by simp
    next
      case False
      then show ?thesis using old other f(4) by auto
    qed
  qed
  have calls: "settled ?log h r' q'" if c: "(q', r') \<in> set (hi_calls h)" "\<not> is_active h r'" for q' r'
  proof (cases "r' = r")
    case True
    have "(q, r) \<in> set (hi_calls ?h)" "(q', r) \<in> set (hi_calls ?h)" "distinct (map snd (hi_calls ?h))"
      using ok(1) assms(2) c f(3) True unfolding cache_ok_def by blast+
    then have "q' = q" by (metis distinct_map inj_onD prod.inject snd_conv)
    then show ?thesis using True here by simp
  next
    case False
    then have "settled (hs_log s) ?h r' q'"
      using c f(3,5) assms(1) unfolding history_inv_def by auto
    then show ?thesis using other False by blast
  qed
  have "length (hi_calls h) \<le> length (hi_calls ?h)"
  proof -
    have "distinct (hi_calls h)" "distinct (hi_calls ?h)" using f(1) ok(1) by (auto simp: cache_ok_def distinct_map)
    then show ?thesis using f(3) by (metis card_mono distinct_card finite_set)
  qed
  moreover have "length (remove1 (r, q) (hs_running s)) \<le> length (hs_running s)" by (simp add: length_remove1)
  ultimately show ?thesis
    using assms(1) f(1,2) waiting calls unfolding history_inv_def by auto
qed

lemma step_history_inv: "history_step s t \<Longrightarrow> history_inv s \<Longrightarrow> history_inv t"
proof (induction rule: history_step.induct)
  case (history_refused s q h)
  have ok: "cache_ok (hs_cache s) (hs_running s)" "length (hs_running s) \<le> 32" "length (hi_calls (hs_cache s)) \<le> 128"
      "hi_bytes (hs_cache s) \<le> max_history_bytes"
    using history_refused(2) by (simp_all add: history_inv_def)
  have "h = purge (hs_now s) (hs_cache s)"
    by (rule admit_cases [OF ok history_refused(1)]) simp_all
  then show ?case
    using history_refused(2) purge_ok [OF ok(1)] purge_bytes [of "hs_now s" "hs_cache s"]
      purge_simps(5) [of "hs_now s" "hs_cache s"]
    unfolding history_inv_def by (auto simp del: purge_simps(5))
next
  case (history_asked s q h r fresh)
  then show ?case using asked_inv by blast
next
  case (history_left r q s ctx answer)
  have "set (remove1 (r, q) (hs_waiting s)) \<subseteq> set (hs_waiting s)" by (rule set_remove1_subset)
  then show ?case using history_left(3) unfolding history_inv_def by auto
next
  case (history_done r q s raw err h)
  then show ?case using done_inv by blast
qed (auto simp: history_inv_def)

lemma history_reachable: "history_step\<^sup>*\<^sup>* (start_history now) s \<Longrightarrow> 0 \<le> now \<Longrightarrow> history_inv s"
  by (induction rule: rtranclp_induct) (auto simp: start_history_inv intro: step_history_inv)


section \<open>The properties\<close>

text \<open>C11. However requests, cancellations and lookups interleave, at most 32 lookups run, never two of one query,
  at most 128 calls and 16 MiB of results are kept, and an eviction always finds a completed call, so
  that the code never dereferences the nil pointer of an empty search.\<close>

theorem history_cache_bounded:
  assumes "history_step\<^sup>*\<^sup>* (start_history now) s" and "0 \<le> now"
  shows "hi_active (hs_cache s) \<le> 32 \<and> length (hi_calls (hs_cache s)) \<le> 128 \<and>
    hi_bytes (hs_cache s) \<le> max_history_bytes \<and> distinct (map snd (hs_running s)) \<and>
    snd (history_admit t q (hs_cache s)) \<noteq> AdmitPanic \<and>
    list_all (\<lambda>(r, q'). history_finish (hs_now s) q' r raw err (hs_cache s) \<noteq> None) (hs_running s)"
proof -
  note inv = history_reachable [OF assms, unfolded history_inv_def]
  have ok: "cache_ok (hs_cache s) (hs_running s)" "length (hs_running s) \<le> 32" "length (hi_calls (hs_cache s)) \<le> 128"
      "hi_bytes (hs_cache s) \<le> max_history_bytes" "0 \<le> hs_now s"
    using inv by simp_all
  obtain h r where hr: "history_admit t q (hs_cache s) = (h, r)" by fastforce
  have "r \<noteq> AdmitPanic" by (rule admit_cases [OF ok(1-4) hr]) simp_all
  moreover have "history_finish (hs_now s) q' r' raw err (hs_cache s) \<noteq> None" if "(r', q') \<in> set (hs_running s)" for r' q'
    using finish_ok [OF ok(1) that ok(5), of raw err] by auto
  moreover have "distinct (map snd (hs_running s))"
  proof -
    have "(q', r') \<in> set (hi_calls (hs_cache s))" if "(r', q') \<in> set (hs_running s)" for r' q'
      using ok(1) that by (auto simp: cache_ok_def)
    moreover have "distinct (map fst (hi_calls (hs_cache s)))" "distinct (map fst (hs_running s))"
      using ok(1) by (simp_all add: cache_ok_def)
    ultimately show ?thesis
      by (auto simp: distinct_map inj_on_def) (metis eq_key_imp_eq_value distinct_map inj_on_def fst_conv snd_conv prod.collapse)
  qed
  ultimately show ?thesis using ok hr by (auto simp: list_all_iff cache_ok_def)
qed

text \<open>C13. A request whose own context lives is answered with the result of a lookup of its own query, however
  many other requests share the call and even when the call was evicted meanwhile.\<close>

theorem history_answers_match:
  assumes "history_step\<^sup>*\<^sup>* (start_history now) s" and "0 \<le> now" and "(r, q) \<in> set (hs_waiting s)"
    and "history_answer None (hi_heap (hs_cache s) r) = Some answer"
  shows "\<exists>raw err t. (r, q, raw, err, t) \<in> set (hs_log s) \<and>
    answer = (case err of Some e \<Rightarrow> Inl e | None \<Rightarrow> Inr raw)"
proof -
  note inv = history_reachable [OF assms(1,2)]
  have d: "hc_done (hi_heap (hs_cache s) r)" using assms(4) by (auto simp: history_answer_def split: if_splits)
  have "(r, q) \<notin> set (hs_running s)" using inv d by (auto simp: history_inv_def cache_ok_def)
  then have "settled (hs_log s) (hs_cache s) r q" using inv assms(3) by (auto simp: history_inv_def)
  then show ?thesis using assms(4) d by (auto simp: settled_def history_answer_def)
qed

text \<open>A request that meets a finished call reuses its result only within 30 seconds of the lookup, or 10 seconds of
  a failed one.\<close>

theorem history_reuse_is_fresh:
  assumes "history_step\<^sup>*\<^sup>* (start_history now) s" and "0 \<le> now"
    and "history_admit t q (hs_cache s) = (h, AdmitCall r False)" and "hc_done (hi_heap (hs_cache s) r)"
  shows "\<exists>raw err u. (r, q, raw, err, u) \<in> set (hs_log s) \<and> t < time_add u (history_ttl err)"
proof -
  note inv = history_reachable [OF assms(1,2), unfolded history_inv_def]
  have ok: "cache_ok (hs_cache s) (hs_running s)" "length (hs_running s) \<le> 32" "length (hi_calls (hs_cache s)) \<le> 128"
      "hi_bytes (hs_cache s) \<le> max_history_bytes"
    using inv by simp_all
  show ?thesis
  proof (cases rule: admit_cases [OF ok assms(3), case_names busy join fresh])
    case (join i)
    then have i: "(q, r) \<in> set (hi_calls (hs_cache s))" "\<not> call_expired t (hi_heap (hs_cache s) r)" by simp_all
    have "\<not> is_active (hs_cache s) r" using i(1) ok(1) assms(4) by (auto simp: cache_ok_def)
    then have "settled (hs_log s) (hs_cache s) r q" using inv i(1) by auto
    then obtain u where "(r, q, hc_raw (hi_heap (hs_cache s) r), hc_err (hi_heap (hs_cache s) r), u) \<in> set (hs_log s)"
        "hc_expires (hi_heap (hs_cache s) r) = time_add u (history_ttl (hc_err (hi_heap (hs_cache s) r)))"
      by (auto simp: settled_def)
    moreover have "t < hc_expires (hi_heap (hs_cache s) r)"
      using i(2) \<open>\<not> is_active (hs_cache s) r\<close> by (simp add: call_expired_def)
    ultimately show ?thesis by metis
  qed simp_all
qed

lemma history_points_ok:
  "history_points now samples = Some points \<Longrightarrow>
     length points = length samples \<and>
     list_all (\<lambda>p. from_unix 0 \<le> hp_time p \<and> hp_time p \<le> time_add now (5 * minute) \<and>
       list_all (pred_option (\<lambda>x. 0 \<le> x)) (hp_metrics p)) points"
proof (induction now samples arbitrary: points rule: history_points.induct)
  case (2 now s samples)
  let ?u = "unix_seconds (time_add now (5 * minute))"
  have t: "0 < rs_time s" "rs_time s \<le> of_int ?u"
    and m: "\<not> list_ex (\<lambda>v. case v of None \<Rightarrow> False | Some x \<Rightarrow> x < 0) (rs_metrics s)"
    using 2(2) by (auto split: if_splits)
  obtain rest where rest: "history_points now samples = Some rest"
      "points = \<lparr>hp_time = from_unix \<lfloor>rs_time s\<rfloor>, hp_metrics = rs_metrics s\<rparr> # rest"
    using 2(2) t m by (auto split: if_splits)
  have "0 \<le> \<lfloor>rs_time s\<rfloor>" "\<lfloor>rs_time s\<rfloor> \<le> ?u" using t by (simp_all add: floor_le_iff)
  moreover have "from_unix (unix_seconds x) \<le> x" for x
    by (simp add: from_unix_def unix_seconds_def second_def minus_mod_eq_mult_div [symmetric] mult.commute)
  moreover have "from_unix a \<le> from_unix b" if "a \<le> b" for a b using that by (simp add: from_unix_def second_def)
  ultimately have "from_unix 0 \<le> from_unix \<lfloor>rs_time s\<rfloor>" "from_unix \<lfloor>rs_time s\<rfloor> \<le> time_add now (5 * minute)"
    by (blast intro: order_trans)+
  moreover have "list_all (pred_option (\<lambda>x. 0 \<le> x)) (rs_metrics s)"
    using m by (auto simp: list_all_iff list_ex_iff pred_option_def split: option.splits)
  ultimately show ?case using 2(1) t m rest by auto
qed simp

text \<open>A decoded history holds the answered query and at most 4096 points, each with a time after the Unix epoch and
  at most five minutes in the future and without a negative metric.\<close>

theorem decoded_history_valid:
  assumes "decode_history decode encode raw q now = Some out"
  shows "\<exists>h. encode h = Some out \<and> vh_query h = q \<and> vh_collected h = now \<and> length (vh_points h) \<le> 4096 \<and>
    list_all (\<lambda>p. from_unix 0 \<le> hp_time p \<and> hp_time p \<le> time_add now (5 * minute) \<and>
      list_all (pred_option (\<lambda>x. 0 \<le> x)) (hp_metrics p)) (vh_points h)"
proof -
  obtain samples points where "\<not> 4096 < length samples" and p: "history_points now samples = Some points"
      and e: "encode \<lparr>vh_source = ''pve_rrd'', vh_query = q, vh_collected = now, vh_points = points\<rparr> = Some out"
    using assms by (auto simp: decode_history_def split: option.splits if_splits)
  then have s: "length samples \<le> 4096" by simp
  from history_points_ok [OF p] s e show ?thesis
    by (intro exI [of _ "\<lparr>vh_source = ''pve_rrd'', vh_query = q, vh_collected = now, vh_points = points\<rparr>"]) simp
qed

section \<open>Concrete instances\<close>

definition demo_hq :: history_query where
  "demo_hq = \<lparr>hq_vmid = 100, hq_timeframe = ''hour'', hq_consolidation = ''MAX''\<rparr>"

text \<open>A request at time 1, and its answer at the same time.\<close>

definition demo_cache1 :: history_cache where
  "demo_cache1 = fst (history_admit 1 demo_hq new_history_cache)"

definition demo_cache2 :: history_cache where
  "demo_cache2 = the (history_finish 1 demo_hq 0 ''ok'' None demo_cache1)"

lemma demo_history_admit: "history_admit 1 demo_hq new_history_cache = (demo_cache1, AdmitCall 0 True)"
  unfolding demo_cache1_def
  by (simp add: prod_eq_iff) (simp add: history_admit_def purge_def new_history_cache_def Let_def new_history_call_def)

definition demo_asked :: history_sys where
  "demo_asked = \<lparr>hs_now = 1, hs_cache = demo_cache1, hs_waiting = [(0, demo_hq)], hs_running = [(0, demo_hq)], hs_log = []\<rparr>"

definition demo_answered :: history_sys where
  "demo_answered = \<lparr>hs_now = 1, hs_cache = demo_cache2, hs_waiting = [(0, demo_hq)], hs_running = [],
     hs_log = [(0, demo_hq, ''ok'', None, 1)]\<rparr>"

lemma demo_asked_reached: "history_step\<^sup>*\<^sup>* (start_history 1) demo_asked"
  using history_step.history_asked [of "start_history 1" demo_hq demo_cache1 0 True]
  by (intro r_into_rtranclp) (simp add: demo_asked_def start_history_def demo_history_admit)

lemma demo_history_finish: "history_finish 1 demo_hq 0 ''ok'' None demo_cache1 = Some demo_cache2"
proof -
  have "history_finish 1 demo_hq 0 ''ok'' None demo_cache1 \<noteq> None"
    by (simp add: history_finish_def Let_def store_result_def demo_cache1_def history_admit_def purge_def
        new_history_cache_def new_history_call_def add_waiter_def evict_loop.simps max_history_bytes_def)
  then show ?thesis by (auto simp: demo_cache2_def)
qed

lemma demo_answered_reached: "history_step\<^sup>*\<^sup>* (start_history 1) demo_answered"
  using demo_asked_reached history_step.history_done [of 0 demo_hq demo_asked "''ok''" None demo_cache2] demo_history_finish
  by (simp add: demo_asked_def demo_answered_def rtranclp.rtrancl_into_rtrancl)

lemma demo_cache2_call: "hi_heap demo_cache2 0 = \<lparr>hc_waiters = 1, hc_raw = ''ok'', hc_err = None,
    hc_expires = 30000000001, hc_cancelled = False, hc_done = True\<rparr>" and demo_cache2_calls: "hi_calls demo_cache2 = [(demo_hq, 0)]"
  by (simp_all add: demo_cache2_def demo_cache1_def history_finish_def Let_def store_result_def history_admit_def purge_def
      new_history_cache_def new_history_call_def add_waiter_def evict_loop.simps max_history_bytes_def new_call_def
      history_ttl_def second_def time_add_def)

theorem history_cache_bounded_witness:
  "hi_active (hs_cache demo_asked) \<le> 32 \<and> snd (history_admit 2 demo_hq (hs_cache demo_asked)) \<noteq> AdmitPanic"
  using history_cache_bounded [OF demo_asked_reached, of 2 demo_hq] by simp

theorem history_answers_match_witness:
  "\<exists>raw err t. (0, demo_hq, raw, err, t) \<in> set (hs_log demo_answered) \<and> Inr ''ok'' = (case err of Some e \<Rightarrow> Inl e | None \<Rightarrow> Inr raw)"
  by (rule history_answers_match [OF demo_answered_reached])
    (simp_all add: demo_answered_def history_answer_def demo_cache2_call)

theorem history_reuse_is_fresh_witness:
  "\<exists>raw err u. (0, demo_hq, raw, err, u) \<in> set (hs_log demo_answered) \<and> 2 < time_add u (history_ttl err)"
proof -
  have "snd (history_admit 2 demo_hq demo_cache2) = AdmitCall 0 False"
    by (simp add: history_admit_def purge_def Let_def demo_cache2_calls call_expired_def demo_cache2_call is_zero_time_def)
  then obtain h where "history_admit 2 demo_hq (hs_cache demo_answered) = (h, AdmitCall 0 False)"
    by (auto simp: demo_answered_def prod_eq_iff)
  from history_reuse_is_fresh [OF demo_answered_reached _ this] show ?thesis
    by (simp add: demo_answered_def demo_cache2_call)
qed

theorem decoded_history_valid_witness:
  "\<exists>h :: vm_history. vh_query h = demo_hq \<and> length (vh_points h) = 1 \<and> length (vh_points h) \<le> 4096"
proof -
  let ?decode = "\<lambda>raw. Some (Some [\<lparr>rs_time = 60, rs_metrics = [Some 1, None]\<rparr>])"
  let ?encode = "\<lambda>h :: vm_history. if length (vh_points h) = 1 \<and> vh_query h = demo_hq then Some ''h'' else None"
  have "decode_history ?decode ?encode ''x'' demo_hq (from_unix 100) = Some ''h''"
    by (simp add: decode_history_def from_unix_def unix_seconds_def second_def minute_def time_add_def)
  from decoded_history_valid [OF this] obtain h where h: "?encode h = Some ''h''" "length (vh_points h) \<le> 4096" by blast
  then have "length (vh_points h) = 1 \<and> vh_query h = demo_hq" by (metis option.distinct(1))
  then show ?thesis using h(2) by blast
qed

end
