(* ===== verification/PveServe.thy ===== *)
theory PveServe
  imports PveHistory
begin

text \<open>
  The HTTP side of the PVE helper (\<open>internal/pve/serve.go\<close>): which peers are let in, the handlers of
  the socket and the pace of the helper's loops; and what the node's client makes of the responses.
  JSON codecs are arguments; a response is its status and body.
\<close>

section \<open>Peers\<close>

type_synonym uint32 = "32 word"

text \<open>The credentials of the peer of a Unix connection, if they can be read: user and group.\<close>

definition allowed_peer :: "(uint32 \<times> uint32) option \<Rightarrow> int \<Rightarrow> bool" where
  "allowed_peer credential gid =
     (case credential of None \<Rightarrow> False | Some (uid, peer_gid) \<Rightarrow> uid = 0 \<or> peer_gid = word_of_int gid)"

type_synonym response = "int \<times> string"

definition http_error :: "int \<Rightarrow> string \<Rightarrow> response" where
  "http_error status text = (status, text @ [newline])"

definition guarded :: "bool \<Rightarrow> response \<Rightarrow> response" where
  "guarded allowed r = (if allowed then r else http_error 403 ''forbidden'')"

section \<open>The handlers\<close>

definition serve_snapshot :: "addr_parser \<Rightarrow> (snapshot \<Rightarrow> string option) \<Rightarrow> snapshot \<Rightarrow> response" where
  "serve_snapshot parse_addr encode s =
     (case validate_snapshot parse_addr s of
        Inl _ \<Rightarrow> http_error 503 ''invalid_snapshot''
      | Inr _ \<Rightarrow>
          (case encode s of
             None \<Rightarrow> http_error 503 ''snapshot_too_large''
           | Some raw \<Rightarrow> if max_bytes < length raw then http_error 503 ''snapshot_too_large'' else (200, raw)))"

definition serve_capabilities :: "(capabilities \<Rightarrow> string) \<Rightarrow> string \<Rightarrow> response" where
  "serve_capabilities encode version = (200, encode \<lparr>cap_version = version, cap_history = True\<rparr> @ [newline])"

text \<open>\<open>http.StatusText\<close> of the statuses used.\<close>

definition history_status :: "hist_error \<Rightarrow> response" where
  "history_status e =
     (case e of
        HistBusy \<Rightarrow> http_error 429 ''Too Many Requests''
      | HistVmNotFound \<Rightarrow> http_error 404 ''Not Found''
      | HistDeadline \<Rightarrow> http_error 504 ''Gateway Timeout''
      | HistCanceled \<Rightarrow> (200, '''')
      | _ \<Rightarrow> http_error 502 ''Bad Gateway'')"

text \<open>A handler that returns without writing sends status 200 with an empty body; that is the case
  of \<open>HistCanceled\<close>.  The decoder reads at most 4096 bytes and finds one JSON value (\<open>Some\<close>), followed
  by nothing or not; \<open>result\<close> is what \<open>get\<close> returns.\<close>

definition serve_history :: "(history_query \<times> bool) option \<Rightarrow> hist_error + string \<Rightarrow> response" where
  "serve_history body result =
     (case body of
        None \<Rightarrow> http_error 400 ''invalid_query''
      | Some (q, trailing) \<Rightarrow>
          if \<not> validate_query q \<or> trailing then http_error 400 ''invalid_query''
          else case result of Inl e \<Rightarrow> history_status e | Inr raw \<Rightarrow> (200, raw))"

text \<open>\<open>get\<close> starts with the inventory.\<close>

definition history_refusal :: "time \<Rightarrow> history_query \<Rightarrow> collector \<Rightarrow> hist_error option" where
  "history_refusal now q c =
     map_option (\<lambda>e. case e of LookupSource \<Rightarrow> HistSource | LookupNotFound \<Rightarrow> HistVmNotFound)
       (collector_contains now (hq_vmid q) c)"

section \<open>The helper's loops\<close>

text \<open>The starts of \<open>repeat\<close>, for a run that takes the given times; a timer fires late by the second
  component.\<close>

fun repeat_starts :: "time \<Rightarrow> duration \<Rightarrow> duration \<Rightarrow> (duration \<times> duration) list \<Rightarrow> time list" where
  "repeat_starts now delay interval [] = []"
| "repeat_starts now delay interval ((late, took) # runs) =
     (let started = now + delay + late
      in started # repeat_starts (started + took) (max 0 (interval - took)) interval runs)"

section \<open>Across the socket\<close>

abbreviation received :: "response \<Rightarrow> helper_response" where
  "received r \<equiv> Inr (fst r, snd r, None)"

definition client_error_of :: "hist_error \<Rightarrow> client_error" where
  "client_error_of e =
     (case e of HistBusy \<Rightarrow> CeBusy | HistVmNotFound \<Rightarrow> CeVmNotFound | HistDeadline \<Rightarrow> CeDeadline | _ \<Rightarrow> CeSource)"

text \<open>The class of a history error survives the socket, but for a cancelled call: the node's client takes the empty
  response for a successful history without content.\<close>

theorem history_errors_across_socket:
  assumes "validate_query q"
  shows "client_history q (received (serve_history (Some (q, False)) (Inl e))) =
    (if e = HistCanceled then Inr '''' else Inl (client_error_of e))"
  using assms
  by (cases e) (simp_all add: serve_history_def history_status_def http_error_def client_history_def helper_call_def
      client_error_of_def)

section \<open>Concrete instances\<close>

text \<open>The only request gives up, another one comes, and the cancelled call ends.\<close>

definition demo_left :: history_cache where "demo_left = history_leave 0 demo_cache1"
definition demo_joined :: history_cache where "demo_joined = fst (history_admit 1 demo_hq demo_left)"
definition demo_ended :: history_cache where
  "demo_ended = the (history_finish 1 demo_hq 0 '''' (Some HistCanceled) demo_joined)"

lemmas demo_cache_defs = demo_cache1_def history_admit_def purge_def new_history_cache_def new_history_call_def add_waiter_def
  history_leave_def Let_def new_call_def time_zero_def is_zero_time_def

lemma demo_join: "history_admit 1 demo_hq demo_left = (demo_joined, AdmitCall 0 False)"
  unfolding demo_joined_def
  by (simp add: prod_eq_iff) (simp add: demo_left_def demo_cache_defs call_expired_def)

lemma demo_end: "history_finish 1 demo_hq 0 '''' (Some HistCanceled) demo_joined = Some demo_ended"
proof -
  have "history_finish 1 demo_hq 0 '''' (Some HistCanceled) demo_joined \<noteq> None"
    by (simp add: history_finish_def store_result_def demo_joined_def demo_left_def demo_cache_defs call_expired_def
        evict_loop.simps max_history_bytes_def)
  then show ?thesis by (auto simp: demo_ended_def)
qed

lemma demo_left_cancelled: "hc_cancelled (hi_heap demo_left 0)"
  by (simp add: demo_left_def demo_cache_defs)

lemma demo_ended_answer: "history_answer None (hi_heap demo_ended 0) = Some (Inl HistCanceled)"
  by (simp add: history_answer_def demo_ended_def history_finish_def store_result_def demo_joined_def demo_left_def
      demo_cache_defs call_expired_def evict_loop.simps max_history_bytes_def)

text \<open>C37. A request can be answered by an empty success although it was never cancelled: it joins the call that the
  last other request has just given up, the call ends as cancelled, and the node takes the response
  for a successful history without content.\<close>

theorem joined_call_is_cancelled:
  "\<exists>s t. history_step\<^sup>*\<^sup>* (start_history 1) s \<and> hs_waiting s = [] \<and> hc_cancelled (hi_heap (hs_cache s) 0) \<and>
     history_step\<^sup>*\<^sup>* s t \<and> hs_waiting t = [(0, demo_hq)] \<and>
     history_answer None (hi_heap (hs_cache t) 0) = Some (Inl HistCanceled) \<and>
     client_history demo_hq (received (serve_history (Some (demo_hq, False)) (Inl HistCanceled))) = Inr ''''"
proof -
  let ?s = "demo_asked\<lparr>hs_cache := demo_left, hs_waiting := []\<rparr>"
  let ?j = "?s\<lparr>hs_cache := demo_joined, hs_waiting := [(0, demo_hq)]\<rparr>"
  let ?t = "?j\<lparr>hs_cache := demo_ended, hs_running := [], hs_log := [(0, demo_hq, '''', Some HistCanceled, 1)]\<rparr>"
  have left: "history_step demo_asked ?s"
    using history_step.history_left [of 0 demo_hq demo_asked "Some HistCanceled"]
    by (simp add: demo_asked_def history_answer_def demo_left_def)
  have join: "history_step ?s ?j"
    using history_step.history_asked [of ?s demo_hq demo_joined 0 False] demo_join by (simp add: demo_asked_def)
  have ended: "history_step ?j ?t"
    using history_step.history_done [of 0 demo_hq ?j "''''" "Some HistCanceled" demo_ended] demo_end
    by (simp add: demo_asked_def)
  have "history_step\<^sup>*\<^sup>* (start_history 1) ?s" using demo_asked_reached left by (rule rtranclp.rtrancl_into_rtrancl)
  moreover have "history_step\<^sup>*\<^sup>* ?s ?t" using join ended by (meson r_into_rtranclp rtranclp_trans)
  moreover have "client_history demo_hq (received (serve_history (Some (demo_hq, False)) (Inl HistCanceled))) = Inr ''''"
    by (simp add: serve_history_def history_status_def client_history_def helper_call_def demo_hq_def validate_query_def)
  ultimately show ?thesis
    using demo_left_cancelled demo_ended_answer by (intro exI [of _ ?s] exI [of _ ?t]) simp
qed

theorem history_errors_across_socket_witness:
  "client_history demo_hq (received (serve_history (Some (demo_hq, False)) (Inl HistBusy))) = Inl CeBusy"
  using history_errors_across_socket [of demo_hq HistBusy] by (simp add: client_error_of_def demo_hq_def validate_query_def)

end
