(* ===== verification/GoRound.thy ===== *)
theory GoRound
  imports GoFloat "HOL-Library.Log_Nat"
begin

text \<open>
  The arithmetic of \<open>float64\<close> with its rounding: a result is computed exactly and rounded to the nearest
  multiple of a power of two with 53 significant bits, ties to even, with the subnormal range at the
  bottom and infinity at the top.  The two zeros of IEEE 754 are one value here; the code divides by
  none of them.
\<close>

section \<open>Rounding\<close>

definition round_half_even :: "rat \<Rightarrow> int" where
  "round_half_even q =
     (let f = \<lfloor>q\<rfloor>; d = q - of_int f
      in if d < 1 / 2 \<or> (d = 1 / 2 \<and> even f) then f else f + 1)"

text \<open>The exponent of the last place of a positive number.\<close>

definition top_exp :: "rat \<Rightarrow> int" where
  "top_exp q =
     (case quotient_of q of (a, b) \<Rightarrow>
        let e = bitlen a - bitlen b - 53 in if 2 powi (e + 53) \<le> q then e + 1 else e)"

definition last_place :: "rat \<Rightarrow> int" where
  "last_place q = max (top_exp q) (- 1074)"

definition round_pos :: "rat \<Rightarrow> rat" where
  "round_pos q = of_int (round_half_even (q / 2 powi last_place q)) * 2 powi last_place q"

definition float_limit :: rat where "float_limit = 2 ^ 1024"

lemma float_limit_code [code]:
  "float_limit = 179769313486231590772930519078902473361797697894230657273430081157732675805500963132708477322407536021120113879871393357658789768814416622492847430639474124377767893424865485276302219601246094119453082952085005768838150682342462881473913110540827237163350510684586298239947245938479716304835356329624224137216"
  by (simp add: float_limit_def)

definition round64 :: "rat \<Rightarrow> float64" where
  "round64 q =
     (if q = 0 then Fin 0
      else let r = round_pos \<bar>q\<bar>
           in if float_limit \<le> r then (if q < 0 then NInf else PInf) else Fin (sgn q * r))"

section \<open>Operations\<close>

fun float_le :: "float64 \<Rightarrow> float64 \<Rightarrow> bool" where
  "float_le NaN y = False"
| "float_le x NaN = False"
| "float_le NInf y = True"
| "float_le x PInf = True"
| "float_le (Fin a) (Fin b) = (a \<le> b)"
| "float_le _ _ = False"

fun float_neg :: "float64 \<Rightarrow> float64" where
  "float_neg (Fin a) = Fin (- a)"
| "float_neg PInf = NInf"
| "float_neg NInf = PInf"
| "float_neg NaN = NaN"

fun float_add :: "float64 \<Rightarrow> float64 \<Rightarrow> float64" where
  "float_add NaN y = NaN"
| "float_add x NaN = NaN"
| "float_add (Fin a) (Fin b) = round64 (a + b)"
| "float_add (Fin a) y = y"
| "float_add x (Fin b) = x"
| "float_add x y = (if x = y then x else NaN)"

definition float_sub :: "float64 \<Rightarrow> float64 \<Rightarrow> float64" where
  "float_sub x y = float_add x (float_neg y)"

text \<open>The sign of an infinity times or over a finite number.\<close>

definition signed_inf :: "bool \<Rightarrow> float64" where
  "signed_inf negative = (if negative then NInf else PInf)"

fun float_mul :: "float64 \<Rightarrow> float64 \<Rightarrow> float64" where
  "float_mul NaN y = NaN"
| "float_mul x NaN = NaN"
| "float_mul (Fin a) (Fin b) = round64 (a * b)"
| "float_mul (Fin a) y = (if a = 0 then NaN else signed_inf ((a < 0) \<noteq> (y = NInf)))"
| "float_mul x (Fin b) = (if b = 0 then NaN else signed_inf ((b < 0) \<noteq> (x = NInf)))"
| "float_mul x y = signed_inf (x \<noteq> y)"

fun float_div :: "float64 \<Rightarrow> float64 \<Rightarrow> float64" where
  "float_div NaN y = NaN"
| "float_div x NaN = NaN"
| "float_div (Fin a) (Fin b) =
     (if b \<noteq> 0 then round64 (a / b) else if a = 0 then NaN else signed_inf (a < 0))"
| "float_div (Fin a) y = Fin 0"
| "float_div x (Fin b) = signed_inf ((b < 0) \<noteq> (x = NInf))"
| "float_div x y = NaN"

text \<open>The conversion \<open>float64(n)\<close> of an integer, \<open>math.Ceil\<close> and the built-in \<open>min\<close>.\<close>

definition float_of_int :: "int \<Rightarrow> float64" where
  "float_of_int n = round64 (of_int n)"

fun float_ceil :: "float64 \<Rightarrow> float64" where
  "float_ceil (Fin a) = Fin (of_int \<lceil>a\<rceil>)"
| "float_ceil x = x"

definition float_min :: "float64 \<Rightarrow> float64 \<Rightarrow> float64" where
  "float_min x y = (if x = NaN \<or> y = NaN then NaN else if float_le x y then x else y)"

section \<open>How far rounding moves a number\<close>

lemma round_half_even_bounds: "q - 1 / 2 \<le> of_int (round_half_even q) \<and> of_int (round_half_even q) \<le> q + 1 / 2"
  unfolding round_half_even_def Let_def by (auto; linarith)

lemma round_half_even_le: "q \<le> of_int n \<Longrightarrow> round_half_even q \<le> n"
proof -
  assume q: "q \<le> of_int n"
  have "of_int (round_half_even q) \<le> q + 1 / 2" using round_half_even_bounds by blast
  with q have "of_int (round_half_even q) < (of_int (n + 1) :: rat)" by simp
  then show ?thesis by (simp del: of_int_add)
qed

lemma round_half_even_nonneg: "0 \<le> q \<Longrightarrow> 0 \<le> round_half_even q"
proof -
  assume q: "0 \<le> q"
  have "q - 1 / 2 \<le> of_int (round_half_even q)" using round_half_even_bounds by blast
  with q have "(of_int (- 1) :: rat) < of_int (round_half_even q)" by simp
  then show ?thesis by (simp del: of_int_minus)
qed

lemma bitlen_rat:
  assumes "0 < a"
  shows "2 powi (bitlen a - 1) \<le> (of_int a :: rat) \<and> (of_int a :: rat) < 2 powi bitlen a"
proof -
  have pos: "0 < bitlen a"
    using assms bitlen_eq_zero_iff [of a] bitlen_nonneg [of a] by linarith
  have "2 ^ nat (bitlen a - 1) \<le> a \<and> a < 2 ^ nat (bitlen a)"
    using assms bitlen_bounds by blast
  then have "(of_int (2 ^ nat (bitlen a - 1)) :: rat) \<le> of_int a \<and> (of_int a :: rat) < of_int (2 ^ nat (bitlen a))"
    by linarith
  then show ?thesis
    using pos by (simp add: power_int_def)
qed

lemma top_exp_le:
  assumes "0 < q"
  shows "2 powi (top_exp q + 52) \<le> q"
proof -
  obtain a b where ab: "quotient_of q = (a, b)" by force
  then have q: "q = of_int a / of_int b" and b: "0 < b"
    by (auto intro: quotient_of_div quotient_of_denom_pos)
  with assms have a: "0 < a" by (simp add: zero_less_divide_iff)
  have "(2 :: rat) powi (bitlen a - bitlen b - 1) = 2 powi (bitlen a - 1) / 2 powi bitlen b"
    by (simp add: power_int_diff)
  also have "\<dots> \<le> of_int a / of_int b"
    using bitlen_rat [OF a] bitlen_rat [OF b] a b by (intro frac_le) auto
  finally have "(2 :: rat) powi (bitlen a - bitlen b - 53 + 52) \<le> q"
    using q by (simp add: algebra_simps)
  then show ?thesis
    unfolding top_exp_def ab by (simp add: Let_def algebra_simps)
qed

lemma round_pos_nonneg: "0 \<le> q \<Longrightarrow> 0 \<le> round_pos q"
  unfolding round_pos_def by (intro mult_nonneg_nonneg) (simp_all add: round_half_even_nonneg)

lemma round_pos_upper:
  assumes "0 < q"
  shows "round_pos q \<le> 2 * q + 1"
proof -
  define p where "p = (2 :: rat) powi last_place q"
  have p: "0 < p" by (simp add: p_def)
  have half: "p \<le> q \<or> p \<le> 1"
  proof (cases "top_exp q \<le> - 1074")
    case True
    then have "last_place q = - 1074" by (simp add: last_place_def)
    then have "p = (1 / 2) ^ 1074" by (simp add: p_def power_int_def)
    then show ?thesis by (simp only: power_le_one_iff) simp
  next
    case False
    then have "p = 2 powi top_exp q" by (simp add: p_def last_place_def)
    also have "\<dots> \<le> 2 powi (top_exp q + 52)" by (intro power_int_increasing) auto
    also have "\<dots> \<le> q" by (rule top_exp_le [OF assms])
    finally show ?thesis ..
  qed
  have "of_int (round_half_even (q / p)) \<le> q / p + 1 / 2" using round_half_even_bounds by blast
  then have "of_int (round_half_even (q / p)) * p \<le> (q / p + 1 / 2) * p" using p by simp
  also have "\<dots> = q + p / 2" using p by (simp add: algebra_simps)
  finally have "round_pos q \<le> q + p / 2" by (simp add: round_pos_def p_def)
  with half assms show ?thesis by auto
qed

text \<open>Below \<open>2 ^ 53\<close> the last place is at most one, so rounding never passes an integer.\<close>

lemma round_pos_le_int:
  assumes "0 < q" and "q \<le> of_int n" and "n < 2 ^ 52"
  shows "round_pos q \<le> of_int n"
proof -
  have le0: "last_place q \<le> 0"
  proof (rule ccontr)
    assume "\<not> last_place q \<le> 0"
    then have "0 < top_exp q" by (simp add: last_place_def split: if_splits)
    then have "(2 :: rat) powi 52 \<le> 2 powi (top_exp q + 52)" by (intro power_int_increasing) auto
    also have "\<dots> \<le> q" by (rule top_exp_le [OF assms(1)])
    also have "\<dots> \<le> of_int n" by (rule assms(2))
    also have "\<dots> < 2 ^ 52" using assms(3) by (metis of_int_less_iff of_int_numeral of_int_power)
    finally show False by (simp add: power_int_def)
  qed
  define k where "k = nat (- last_place q)"
  have pw: "(2 :: rat) powi last_place q = 1 / 2 ^ k"
  proof -
    have "last_place q = - int k" using le0 by (simp add: k_def)
    then show ?thesis by (simp add: power_int_minus inverse_eq_divide)
  qed
  have "q / 2 powi last_place q \<le> of_int (n * 2 ^ k)"
    using assms(2) by (simp add: pw)
  then have "round_half_even (q / 2 powi last_place q) \<le> n * 2 ^ k"
    by (rule round_half_even_le)
  then have "(of_int (round_half_even (q / 2 powi last_place q)) :: rat) \<le> of_int (n * 2 ^ k)"
    by (simp only: of_int_le_iff)
  then show ?thesis
    unfolding round_pos_def pw by (simp add: field_simps)
qed

lemma float_limit_large: "2 ^ 200 \<le> float_limit / 4"
proof -
  have "(2 :: rat) ^ 202 \<le> 2 ^ 1024" by (rule power_increasing) simp_all
  moreover have "(2 :: rat) ^ 202 = 4 * 2 ^ 200" by simp
  ultimately have "(2 :: rat) ^ 200 \<le> 2 ^ 1024 / 4" by linarith
  then show ?thesis by (simp only: float_limit_def)
qed

lemma round64_pos:
  assumes "0 \<le> q" and "q \<le> float_limit / 4"
  shows "\<exists>r. round64 q = Fin r \<and> 0 \<le> r \<and> r \<le> 2 * q + 1"
proof (cases "q = 0")
  case False
  with assms have q: "0 < q" by simp
  have up: "round_pos q \<le> 2 * q + 1" by (rule round_pos_upper [OF q])
  also have "\<dots> \<le> float_limit / 2 + 1" using assms(2) by simp
  also have "\<dots> < float_limit" using float_limit_large by simp
  finally show ?thesis
    using q up round_pos_nonneg [OF assms(1)] by (auto simp: round64_def Let_def)
qed (simp add: round64_def)

lemma round64_unit:
  assumes "0 \<le> q" and "q \<le> 1"
  shows "\<exists>r. round64 q = Fin r \<and> 0 \<le> r \<and> r \<le> 1"
proof (cases "q = 0")
  case False
  with assms have q: "0 < q" by simp
  have up: "round_pos q \<le> 1" using round_pos_le_int [OF q, of 1] assms(2) by simp
  then have "round_pos q < float_limit" using float_limit_large by simp
  then show ?thesis
    using q up round_pos_nonneg [OF assms(1)] by (auto simp: round64_def Let_def)
qed (simp add: round64_def)

section \<open>Finite results\<close>

text \<open>A finite value between 0 and a bound.\<close>

definition fin_le :: "rat \<Rightarrow> float64 \<Rightarrow> bool" where
  "fin_le b x \<longleftrightarrow> (case x of Fin r \<Rightarrow> 0 \<le> r \<and> r \<le> b | _ \<Rightarrow> False)"

lemma fin_le_Fin [simp]: "fin_le b (Fin r) \<longleftrightarrow> 0 \<le> r \<and> r \<le> b"
  by (simp add: fin_le_def)

lemma fin_leE:
  assumes "fin_le b x"
  obtains r where "x = Fin r" and "0 \<le> r" and "r \<le> b"
  using assms by (cases x) (auto simp: fin_le_def)

lemma fin_le_mono: "fin_le a x \<Longrightarrow> a \<le> b \<Longrightarrow> fin_le b x"
  by (auto elim!: fin_leE)

lemma fin_le_finite: "fin_le b x \<Longrightarrow> finite_nonneg x"
  by (auto elim!: fin_leE)

lemma round64_fin_le: "0 \<le> q \<Longrightarrow> q \<le> float_limit / 4 \<Longrightarrow> fin_le (2 * q + 1) (round64 q)"
  using round64_pos by fastforce

lemma round_pos_lower:
  assumes "1 / 2 ^ 200 \<le> q"
  shows "q / 2 \<le> round_pos q"
proof -
  have q: "0 < q" using assms by (rule less_le_trans [rotated]) simp
  define p where "p = (2 :: rat) powi last_place q"
  have p: "0 < p" by (simp add: p_def)
  have "p \<le> q"
  proof (cases "top_exp q \<le> - 1074")
    case True
    then have "last_place q = - 1074" by (simp add: last_place_def)
    then have "p = (1 / 2) ^ 1074" by (simp add: p_def power_int_def)
    also have "\<dots> \<le> (1 / 2) ^ 200" by (rule power_decreasing) simp_all
    also have "\<dots> = 1 / 2 ^ 200" by (rule power_one_over)
    finally show ?thesis using assms by (rule order_trans)
  next
    case False
    then have "p = 2 powi top_exp q" by (simp add: p_def last_place_def)
    also have "\<dots> \<le> 2 powi (top_exp q + 52)" by (intro power_int_increasing) auto
    also have "\<dots> \<le> q" by (rule top_exp_le [OF q])
    finally show ?thesis .
  qed
  have "q / p - 1 / 2 \<le> of_int (round_half_even (q / p))" using round_half_even_bounds by blast
  then have "(q / p - 1 / 2) * p \<le> of_int (round_half_even (q / p)) * p"
    by (rule mult_right_mono) (simp add: p_def)
  moreover have "(q / p - 1 / 2) * p = q - p / 2" using p by (simp add: algebra_simps)
  moreover have "round_pos q = of_int (round_half_even (q / p)) * p" by (simp add: round_pos_def p_def)
  ultimately show ?thesis using \<open>p \<le> q\<close> by linarith
qed

lemma round64_lower:
  assumes "1 / 2 ^ 200 \<le> q" and "q \<le> float_limit / 4"
  obtains r where "round64 q = Fin r" and "q / 2 \<le> r" and "r \<le> 2 * q + 1"
proof -
  have q: "0 < q" using assms(1) by (rule less_le_trans [rotated]) simp
  obtain r where r: "round64 q = Fin r" "r \<le> 2 * q + 1" using round64_pos [of q] q assms(2) by auto
  then have "r = round_pos q" using q by (auto simp: round64_def Let_def split: if_splits)
  with r that round_pos_lower [OF assms(1)] show thesis by simp
qed

lemma small_below_limit: "q \<le> 2 ^ 200 \<Longrightarrow> q \<le> float_limit / 4"
  using float_limit_large by (rule order_trans [rotated])

lemma float_of_int_fin_le:
  assumes "0 \<le> n" and "n < 2 ^ 64"
  shows "fin_le (2 ^ 66) (float_of_int n)"
proof -
  have le: "(of_int n :: rat) \<le> 2 ^ 64"
    using assms(2) by (metis le_less of_int_le_iff of_int_numeral of_int_power order_less_imp_le)
  have "(2 :: rat) ^ 64 \<le> 2 ^ 200" by (rule power_increasing) simp_all
  with le have "(of_int n :: rat) \<le> float_limit / 4" using small_below_limit order_trans by blast
  then have "fin_le (2 * of_int n + 1) (float_of_int n)"
    unfolding float_of_int_def using assms(1) by (intro round64_fin_le) simp_all
  then show ?thesis by (rule fin_le_mono) (use le in simp)
qed

lemma float_of_int_lower:
  assumes "1 \<le> n" and "n < 2 ^ 64"
  obtains r where "float_of_int n = Fin r" and "1 / 2 \<le> r"
proof -
  have one: "(1 :: rat) \<le> of_int n" using assms(1) by simp
  have le: "(of_int n :: rat) \<le> 2 ^ 64"
    using assms(2) by (metis le_less of_int_le_iff of_int_numeral of_int_power order_less_imp_le)
  have "(2 :: rat) ^ 64 \<le> 2 ^ 200" by (rule power_increasing) simp_all
  with le have up: "(of_int n :: rat) \<le> float_limit / 4" using small_below_limit order_trans by blast
  have "(1 :: rat) / 2 ^ 200 \<le> 1" by simp
  with one have "(1 :: rat) / 2 ^ 200 \<le> of_int n" by (rule order_trans [rotated])
  then obtain r where "round64 (of_int n) = Fin r" "of_int n / 2 \<le> r" using up by (rule round64_lower)
  with one that show thesis by (auto simp: float_of_int_def)
qed

lemma float_div_fin_le:
  assumes "fin_le a x" and "0 < c" and "c \<le> d" and "a / c \<le> 2 ^ 200"
  shows "fin_le (2 * (a / c) + 1) (float_div x (Fin d))"
proof -
  obtain r where r: "x = Fin r" "0 \<le> r" "r \<le> a" using assms(1) by (rule fin_leE)
  have le: "r / d \<le> a / c" using r assms(2,3) by (intro frac_le) auto
  then have "r / d \<le> float_limit / 4" using assms(4) small_below_limit order_trans by blast
  then have "fin_le (2 * (r / d) + 1) (round64 (r / d))"
    using r assms(2,3) by (intro round64_fin_le) auto
  then show ?thesis using r assms(2,3) le by (auto intro: fin_le_mono)
qed

lemma float_ceil_fin_le: "fin_le b x \<Longrightarrow> fin_le (b + 1) (float_ceil x)"
proof -
  assume "fin_le b x"
  then obtain r where r: "x = Fin r" "0 \<le> r" "r \<le> b" by (rule fin_leE)
  have "(of_int \<lceil>r\<rceil> :: rat) \<le> r + 1" using of_int_ceiling_le_add_one by blast
  with r(3) have "(of_int \<lceil>r\<rceil> :: rat) \<le> b + 1" by linarith
  with r show ?thesis by simp
qed

lemma float_mul_fin_le:
  assumes "fin_le a x" and "0 \<le> c" and "a * c \<le> 2 ^ 200"
  shows "fin_le (2 * (a * c) + 1) (float_mul x (Fin c))"
proof -
  obtain r where r: "x = Fin r" "0 \<le> r" "r \<le> a" using assms(1) by (rule fin_leE)
  have le: "r * c \<le> a * c" using r assms(2) by (intro mult_right_mono)
  then have "r * c \<le> float_limit / 4" using assms(3) small_below_limit order_trans by blast
  then have "fin_le (2 * (r * c) + 1) (round64 (r * c))" using r assms(2) by (intro round64_fin_le) auto
  then show ?thesis using r le by (auto intro: fin_le_mono)
qed

end
