(* ===== verification/DiskUsage.thy ===== *)
theory DiskUsage
  imports GoRound "HOL-Library.Multiset"
begin

text \<open>
  \<open>internal/collect/disk_usage.go\<close>: \<open>fsUsageReader\<close>, which asks the operating system for the usage
  of a mount point in a goroutine of its own because the call may hang (a dead NFS server).  A reader
  waits at most \<open>timeout\<close>; a path whose probe outlived a wait is stuck and is answered from the cache,
  or with an error, until that probe ends.  The step relation interleaves readers and probes freely.
\<close>

type_synonym u64 = "64 word"

section \<open>Data\<close>

text \<open>\<open>disk.UsageStat\<close> and \<open>disk.PartitionStat\<close> of gopsutil, as far as the code reads them.\<close>

record usage_stat =
  us_path :: string
  us_total :: u64
  us_used :: u64
  us_free :: u64
  us_used_percent :: float64
  us_inodes_total :: u64
  us_inodes_used :: u64
  us_inodes_free :: u64
  us_inodes_percent :: float64

record partition =
  pt_device :: string
  pt_mount :: string
  pt_fstype :: string

text \<open>\<open>metrics.DiskUsage\<close>.\<close>

record disk_usage =
  du_path :: string
  du_device :: string
  du_mount :: string
  du_fstype :: string
  du_total :: u64
  du_used :: u64
  du_free :: u64
  du_used_ratio :: float64
  du_inodes_total :: u64
  du_inodes_used :: u64
  du_inodes_free :: u64
  du_inodes_ratio :: float64

text \<open>\<open>percentToRatio\<close> of \<open>collect/utils.go\<close>.\<close>

definition percent_to_ratio :: "float64 \<Rightarrow> float64" where
  "percent_to_ratio p =
     (if float_le p (Fin 0) then Fin 0
      else if float_le (Fin 100) p then Fin 1
      else float_div p (Fin 100))"

definition build_usage :: "partition \<Rightarrow> usage_stat \<Rightarrow> disk_usage" where
  "build_usage pt u =
     (let inodes = us_inodes_total u > 0
      in \<lparr>du_path = us_path u, du_device = pt_device pt, du_mount = pt_mount pt, du_fstype = pt_fstype pt,
          du_total = us_total u, du_used = us_used u, du_free = us_free u,
          du_used_ratio = percent_to_ratio (us_used_percent u),
          du_inodes_total = (if inodes then us_inodes_total u else 0),
          du_inodes_used = (if inodes then us_inodes_used u else 0),
          du_inodes_free = (if inodes then us_inodes_free u else 0),
          du_inodes_ratio = (if inodes then percent_to_ratio (us_inodes_percent u) else Fin 0)\<rparr>)"

definition pseudo_fs_types :: "string list" where
  "pseudo_fs_types =
     [''proc'', ''sysfs'', ''devtmpfs'', ''devpts'', ''tmpfs'', ''cgroup'', ''cgroup2'',
      ''pstore'', ''bpf'', ''tracefs'', ''debugfs'', ''securityfs'', ''hugetlbfs'',
      ''configfs'', ''fusectl'', ''mqueue'', ''autofs'', ''rpc_pipefs'',
      ''binfmt_misc'', ''overlay'', ''aufs'', ''fuse.lxcfs'',
      ''squashfs'', ''efivarfs'', ''nsfs'', ''ramfs'']"

definition is_pseudo_fs_type :: "string \<Rightarrow> bool" where
  "is_pseudo_fs_type ft \<longleftrightarrow> ft \<in> set pseudo_fs_types"

section \<open>The reader\<close>

text \<open>A probe is a heap cell; an entry points to the probe that runs for its path.\<close>

record usage_entry =
  ue_cached :: "usage_stat option"
  ue_probe :: "nat option"
  ue_stuck :: bool

record usage_probe =
  up_done :: bool
  up_usage :: "usage_stat option"
  up_err :: "string option"

record usage_reader =
  ur_entries :: "(string, usage_entry) gomap"
  ur_probes :: "usage_probe list"

datatype usage_error = DeadlineExceeded | ProbeError string

type_synonym usage_answer = "usage_error + usage_stat"

datatype usage_reply = Answered usage_answer | WaitFor nat "usage_stat option" bool

definition new_usage_entry :: usage_entry where
  "new_usage_entry = \<lparr>ue_cached = None, ue_probe = None, ue_stuck = False\<rparr>"

definition new_usage_reader :: usage_reader where
  "new_usage_reader = \<lparr>ur_entries = [], ur_probes = []\<rparr>"

definition or_deadline :: "usage_stat option \<Rightarrow> usage_answer" where
  "or_deadline cached = (case cached of Some u \<Rightarrow> Inr u | None \<Rightarrow> Inl DeadlineExceeded)"

definition usage_entry_of :: "string \<Rightarrow> usage_reader \<Rightarrow> usage_entry" where
  "usage_entry_of path r = (case map_of (ur_entries r) path of Some e \<Rightarrow> e | None \<Rightarrow> new_usage_entry)"

definition put_usage_entry :: "string \<Rightarrow> usage_entry \<Rightarrow> usage_reader \<Rightarrow> usage_reader" where
  "put_usage_entry path e r = r\<lparr>ur_entries := AList.update path e (ur_entries r)\<rparr>"

text \<open>\<open>read\<close> up to the wait: an answer, or the probe to wait for, what was cached, and whether the
  reader started the probe.\<close>

definition usage_read :: "string \<Rightarrow> usage_reader \<Rightarrow> usage_reader \<times> usage_reply" where
  "usage_read path r =
     (let e = usage_entry_of path r; cached = ue_cached e
      in if ue_stuck e then (put_usage_entry path e r, Answered (or_deadline cached))
         else case ue_probe e of
           Some p \<Rightarrow> (put_usage_entry path e r,
             (case cached of Some u \<Rightarrow> Answered (Inr u) | None \<Rightarrow> WaitFor p cached False))
         | None \<Rightarrow>
             (let p = length (ur_probes r)
              in ((put_usage_entry path (e\<lparr>ue_probe := Some p\<rparr>) r)
                    \<lparr>ur_probes := ur_probes r @ [\<lparr>up_done = False, up_usage = None, up_err = None\<rparr>]\<rparr>,
                  WaitFor p cached True)))"

text \<open>\<open>runProbe\<close> after its system call returned \<open>usage\<close> and \<open>err\<close>.\<close>

definition run_probe :: "string \<Rightarrow> nat \<Rightarrow> usage_stat option \<Rightarrow> string option \<Rightarrow> usage_reader \<Rightarrow> usage_reader" where
  "run_probe path p usage err r =
     (let e = usage_entry_of path r;
          e1 = (if err = None \<and> usage \<noteq> None then e\<lparr>ue_cached := usage\<rparr> else e)
      in (put_usage_entry path (e1\<lparr>ue_probe := None, ue_stuck := False\<rparr>) r)
           \<lparr>ur_probes := (ur_probes r)[p := \<lparr>up_done = True, up_usage = usage, up_err = err\<rparr>]\<rparr>)"

text \<open>\<open>waitProbe\<close>: the branch of a probe that is done, and that of the timer.\<close>

definition wait_done :: "usage_probe \<Rightarrow> usage_stat option \<Rightarrow> usage_answer" where
  "wait_done p cached =
     (case up_err p of
        Some err \<Rightarrow> Inl (ProbeError err)
      | None \<Rightarrow> (case up_usage p of Some u \<Rightarrow> Inr u | None \<Rightarrow> or_deadline cached))"

definition wait_timeout :: "string \<Rightarrow> nat \<Rightarrow> usage_stat option \<Rightarrow> usage_reader \<Rightarrow> usage_reader \<times> usage_answer" where
  "wait_timeout path p cached r =
     (let e = usage_entry_of path r
      in (if ue_probe e = Some p then put_usage_entry path (e\<lparr>ue_stuck := True\<rparr>) r else r,
          or_deadline cached))"

section \<open>Readers and probes running together\<close>

text \<open>
  The probes that run and the readers that wait, with the path of each; \<open>uw_seen\<close> records what
  probes returned for a path and \<open>uw_answers\<close> what readers of a path were told.
\<close>

record usage_world =
  uw_reader :: usage_reader
  uw_running :: "(string \<times> nat) list"
  uw_waiting :: "(string \<times> nat \<times> usage_stat option) list"
  uw_seen :: "(string \<times> usage_stat) list"
  uw_answers :: "(string \<times> usage_answer) list"

definition new_usage_world :: usage_world where
  "new_usage_world = \<lparr>uw_reader = new_usage_reader, uw_running = [], uw_waiting = [], uw_seen = [], uw_answers = []\<rparr>"

inductive usage_step :: "usage_world \<Rightarrow> usage_world \<Rightarrow> bool" where
  answered: "usage_read path (uw_reader w) = (r, Answered a) \<Longrightarrow>
    usage_step w (w\<lparr>uw_reader := r, uw_answers := (path, a) # uw_answers w\<rparr>)"
| waiting: "usage_read path (uw_reader w) = (r, WaitFor p cached started) \<Longrightarrow>
    usage_step w (w\<lparr>uw_reader := r, uw_waiting := (path, p, cached) # uw_waiting w,
      uw_running := (if started then (path, p) # uw_running w else uw_running w)\<rparr>)"
| probed: "(path, p) \<in> set (uw_running w) \<Longrightarrow>
    usage_step w (w\<lparr>uw_reader := run_probe path p usage err (uw_reader w),
      uw_running := remove1 (path, p) (uw_running w),
      uw_seen := (case (usage, err) of (Some u, None) \<Rightarrow> (path, u) # uw_seen w | _ \<Rightarrow> uw_seen w)\<rparr>)"
| woken: "(path, p, cached) \<in> set (uw_waiting w) \<Longrightarrow> up_done (ur_probes (uw_reader w) ! p) \<Longrightarrow>
    usage_step w (w\<lparr>uw_waiting := remove1 (path, p, cached) (uw_waiting w),
      uw_answers := (path, wait_done (ur_probes (uw_reader w) ! p) cached) # uw_answers w\<rparr>)"
| timed_out: "(path, p, cached) \<in> set (uw_waiting w) \<Longrightarrow> wait_timeout path p cached (uw_reader w) = (r, a) \<Longrightarrow>
    usage_step w (w\<lparr>uw_reader := r, uw_waiting := remove1 (path, p, cached) (uw_waiting w),
      uw_answers := (path, a) # uw_answers w\<rparr>)"

inductive_cases usage_stepE: "usage_step w w'"

section \<open>Collecting all partitions\<close>

text \<open>The jobs of \<open>collect\<close>: every mount point once, its white space trimmed.\<close>

fun usage_jobs :: "bool \<Rightarrow> string list \<Rightarrow> partition list \<Rightarrow> partition list" where
  "usage_jobs skip_pseudo seen [] = []"
| "usage_jobs skip_pseudo seen (p # ps) =
     (let mp = trim_space (pt_mount p)
      in if mp = [] \<or> mp \<in> set seen then usage_jobs skip_pseudo seen ps
         else if skip_pseudo \<and> is_pseudo_fs_type (pt_fstype p) then usage_jobs skip_pseudo (mp # seen) ps
         else p\<lparr>pt_mount := mp\<rparr> # usage_jobs skip_pseudo (mp # seen) ps)"

text \<open>What the workers send for a job, and what \<open>collect\<close> makes of the results it received.\<close>

fun usage_result :: "partition \<Rightarrow> usage_answer \<Rightarrow> disk_usage option" where
  "usage_result job (Inr u) = Some (build_usage job u)"
| "usage_result job (Inl e) = None"

definition collect_usage :: "disk_usage list \<Rightarrow> disk_usage list" where
  "collect_usage arrived = sort_key du_mount arrived"

section \<open>Facts about the reader\<close>

lemma usage_entry_put [simp]:
  "usage_entry_of q (put_usage_entry path e r) = (if q = path then e else usage_entry_of q r)"
  by (simp add: usage_entry_of_def put_usage_entry_def)

lemma usage_entry_probes [simp]: "usage_entry_of q (r\<lparr>ur_probes := ps\<rparr>) = usage_entry_of q r"
  by (simp add: usage_entry_of_def)

lemma put_usage_probes [simp]: "ur_probes (put_usage_entry path e r) = ur_probes r"
  by (simp add: put_usage_entry_def)

lemma new_usage_entry_simps [simp]:
  "ue_probe new_usage_entry = None" "ue_cached new_usage_entry = None" "\<not> ue_stuck new_usage_entry"
  by (simp_all add: new_usage_entry_def)

lemma usage_entry_new [simp]: "usage_entry_of path new_usage_reader = new_usage_entry"
  by (simp add: usage_entry_of_def new_usage_reader_def)

lemma new_usage_world_simps [simp]:
  "uw_reader new_usage_world = new_usage_reader" "uw_running new_usage_world = []" "uw_waiting new_usage_world = []"
  "uw_seen new_usage_world = []" "uw_answers new_usage_world = []"
  by (simp_all add: new_usage_world_def)

text \<open>What a call of \<open>read\<close> can be: an answer that changes nothing, or a wait.\<close>

lemma usage_read_cases:
  assumes "usage_read path r = (r', reply)"
  obtains (answer) a where "reply = Answered a" "r' = put_usage_entry path (usage_entry_of path r) r"
      "a = or_deadline (ue_cached (usage_entry_of path r))" "ue_probe (usage_entry_of path r) \<noteq> None \<or> ue_stuck (usage_entry_of path r)"
  | (join) p where "reply = WaitFor p None False" "r' = put_usage_entry path (usage_entry_of path r) r"
      "ue_probe (usage_entry_of path r) = Some p" "ue_cached (usage_entry_of path r) = None"
  | (start) "reply = WaitFor (length (ur_probes r)) (ue_cached (usage_entry_of path r)) True"
      "ue_probe (usage_entry_of path r) = None" "\<not> ue_stuck (usage_entry_of path r)"
      "r' = (put_usage_entry path ((usage_entry_of path r)\<lparr>ue_probe := Some (length (ur_probes r))\<rparr>) r)
         \<lparr>ur_probes := ur_probes r @ [\<lparr>up_done = False, up_usage = None, up_err = None\<rparr>]\<rparr>"
proof -
  define e where "e = usage_entry_of path r"
  show thesis
  proof (cases "ue_stuck e")
    case True
    then show thesis using assms answer by (auto simp: usage_read_def e_def Let_def)
  next
    case stuck: False
    show thesis
    proof (cases "ue_probe e")
      case None
      then show thesis using assms stuck start by (auto simp: usage_read_def e_def Let_def)
    next
      case (Some p)
      then show thesis
        using assms stuck answer join by (cases "ue_cached e") (auto simp: usage_read_def e_def Let_def or_deadline_def)
    qed
  qed
qed

text \<open>The state of the probes: one runs exactly for the paths whose entry points to it.\<close>

definition probes_inv :: "usage_reader \<Rightarrow> (string \<times> nat) list \<Rightarrow> bool" where
  "probes_inv r running \<longleftrightarrow>
     distinct running \<and> inj_on snd (set running) \<and>
     (\<forall>(path, p) \<in> set running. p < length (ur_probes r) \<and> \<not> up_done (ur_probes r ! p)) \<and>
     (\<forall>path p. (path, p) \<in> set running \<longleftrightarrow> ue_probe (usage_entry_of path r) = Some p) \<and>
     (\<forall>path. ue_stuck (usage_entry_of path r) \<longrightarrow> ue_probe (usage_entry_of path r) \<noteq> None)"

lemma probes_inv_new: "probes_inv new_usage_reader []"
  by (simp add: probes_inv_def)

lemma probes_inv_one:
  assumes "probes_inv r running"
  shows "distinct (map fst running)"
proof -
  have "inj_on fst (set running)"
    using assms by (force simp: inj_on_def probes_inv_def)
  with assms show ?thesis by (simp add: distinct_map probes_inv_def)
qed

lemma probes_inv_cong:
  assumes "probes_inv r running" and "\<And>q. usage_entry_of q r' = usage_entry_of q r" and "ur_probes r' = ur_probes r"
  shows "probes_inv r' running"
  using assms by (simp add: probes_inv_def)

lemma probes_inv_read:
  assumes inv: "probes_inv r running" and read: "usage_read path r = (r', reply)"
  shows "probes_inv r' (case reply of WaitFor p c True \<Rightarrow> (path, p) # running | _ \<Rightarrow> running)"
  using read
proof (cases rule: usage_read_cases)
  case (answer a)
  then show ?thesis using probes_inv_cong [OF inv] by simp
next
  case (join p)
  then show ?thesis using probes_inv_cong [OF inv] by simp
next
  case start
  have "p < length (ur_probes r)" if "(q, p) \<in> set running" for q p
    using inv that by (auto simp: probes_inv_def)
  moreover have "(path, p) \<notin> set running" for p
    using inv start(2) by (simp add: probes_inv_def)
  ultimately show ?thesis
    using inv start unfolding probes_inv_def
    by (auto simp: nth_append inj_on_def less_Suc_eq; fastforce)
qed

lemma run_probe_entry:
  "ue_probe (usage_entry_of q (run_probe path p usage err r)) = (if q = path then None else ue_probe (usage_entry_of q r))"
  "ue_stuck (usage_entry_of q (run_probe path p usage err r)) = (q \<noteq> path \<and> ue_stuck (usage_entry_of q r))"
  "ue_cached (usage_entry_of q (run_probe path p usage err r)) =
     (if q = path \<and> err = None \<and> usage \<noteq> None then usage else ue_cached (usage_entry_of q r))"
  by (simp_all add: run_probe_def Let_def)

lemma run_probe_heap [simp]:
  "ur_probes (run_probe path p usage err r) =
     (ur_probes r)[p := \<lparr>up_done = True, up_usage = usage, up_err = err\<rparr>]"
  by (simp add: run_probe_def Let_def)

lemma probes_inv_run:
  assumes inv: "probes_inv r running" and mem: "(path, p) \<in> set running"
  shows "probes_inv (run_probe path p usage err r) (remove1 (path, p) running)"
proof -
  have set: "set (remove1 (path, p) running) = set running - {(path, p)}"
    using inv by (simp add: probes_inv_def)
  have other: "q \<noteq> p" if "(path', q) \<in> set running - {(path, p)}" for path' q
    using inv mem that unfolding probes_inv_def inj_on_def by fastforce
  have mine: "(path, q) \<in> set running \<longleftrightarrow> q = p" for q
    using inv mem unfolding probes_inv_def by auto
  have "inj_on snd (set running - {(path, p)})"
    using inv by (auto simp: probes_inv_def intro: inj_on_subset)
  moreover have "\<forall>(path', q) \<in> set running - {(path, p)}. q < length (ur_probes (run_probe path p usage err r))
      \<and> \<not> up_done (ur_probes (run_probe path p usage err r) ! q)"
    using inv other by (fastforce simp: probes_inv_def)
  moreover have "(path', q) \<in> set running - {(path, p)} \<longleftrightarrow>
      ue_probe (usage_entry_of path' (run_probe path p usage err r)) = Some q" for path' q
    using inv mine unfolding run_probe_entry by (auto simp: probes_inv_def)
  ultimately show ?thesis
    using inv unfolding probes_inv_def set by (simp add: run_probe_entry)
qed

lemma wait_timeout_cases:
  assumes "wait_timeout path p cached r = (r', a)"
  shows "a = or_deadline cached"
    and "r' = r \<or> ue_probe (usage_entry_of path r) = Some p
         \<and> r' = put_usage_entry path ((usage_entry_of path r)\<lparr>ue_stuck := True\<rparr>) r"
  using assms by (auto simp: wait_timeout_def Let_def split: if_splits)

lemma probes_inv_timeout:
  assumes inv: "probes_inv r running" and out: "wait_timeout path p cached r = (r', a)"
  shows "probes_inv r' running"
  using wait_timeout_cases(2) [OF out]
proof
  assume "r' = r"
  with inv show ?thesis by simp
next
  assume "ue_probe (usage_entry_of path r) = Some p
    \<and> r' = put_usage_entry path ((usage_entry_of path r)\<lparr>ue_stuck := True\<rparr>) r"
  with inv show ?thesis by (auto simp: probes_inv_def)
qed

text \<open>Where an answer comes from: whatever is cached or waited for was returned by a probe of that path.\<close>

definition known :: "(string \<times> usage_stat) list \<Rightarrow> string \<Rightarrow> usage_stat option \<Rightarrow> bool" where
  "known seen path c \<longleftrightarrow> (case c of None \<Rightarrow> True | Some u \<Rightarrow> (path, u) \<in> set seen)"

definition answer_known :: "(string \<times> usage_stat) list \<Rightarrow> string \<Rightarrow> usage_answer \<Rightarrow> bool" where
  "answer_known seen path a \<longleftrightarrow> (case a of Inr u \<Rightarrow> (path, u) \<in> set seen | Inl _ \<Rightarrow> True)"

definition probe_known :: "(string \<times> usage_stat) list \<Rightarrow> usage_probe list \<Rightarrow> (string \<times> nat) list \<Rightarrow> string \<Rightarrow> nat \<Rightarrow> bool" where
  "probe_known seen heap running path p \<longleftrightarrow>
     p < length heap \<and>
     (if up_done (heap ! p) then up_err (heap ! p) = None \<longrightarrow> known seen path (up_usage (heap ! p))
      else (path, p) \<in> set running)"

definition waiter_known :: "(string \<times> usage_stat) list \<Rightarrow> usage_probe list \<Rightarrow> (string \<times> nat) list
    \<Rightarrow> string \<times> nat \<times> usage_stat option \<Rightarrow> bool" where
  "waiter_known seen heap running x = (case x of (path, p, c) \<Rightarrow> known seen path c \<and> probe_known seen heap running path p)"

definition usage_inv :: "usage_world \<Rightarrow> bool" where
  "usage_inv w \<longleftrightarrow>
     probes_inv (uw_reader w) (uw_running w) \<and>
     (\<forall>path. known (uw_seen w) path (ue_cached (usage_entry_of path (uw_reader w)))) \<and>
     (\<forall>x \<in> set (uw_waiting w). waiter_known (uw_seen w) (ur_probes (uw_reader w)) (uw_running w) x) \<and>
     (\<forall>(path, a) \<in> set (uw_answers w). answer_known (uw_seen w) path a)"

lemma usage_inv_new: "usage_inv new_usage_world"
  by (simp add: usage_inv_def probes_inv_new known_def)

lemma known_None [simp]: "known seen path None"
  by (simp add: known_def)

lemma known_mono: "known seen path c \<Longrightarrow> set seen \<subseteq> set seen' \<Longrightarrow> known seen' path c"
  by (auto simp: known_def split: option.splits)

lemma answer_known_mono: "answer_known seen path a \<Longrightarrow> set seen \<subseteq> set seen' \<Longrightarrow> answer_known seen' path a"
  by (auto simp: answer_known_def split: sum.splits)

lemma answer_or_deadline: "known seen path c \<Longrightarrow> answer_known seen path (or_deadline c)"
  by (auto simp: known_def answer_known_def or_deadline_def split: option.splits)

lemma answer_wait_done:
  "known seen path c \<Longrightarrow> (up_err p = None \<Longrightarrow> known seen path (up_usage p)) \<Longrightarrow> answer_known seen path (wait_done p c)"
  by (auto simp: wait_done_def answer_known_def known_def or_deadline_def split: option.splits)

lemma waiter_known_grow:
  assumes "waiter_known seen heap running x"
  shows "waiter_known seen (heap @ h) ((path, q) # running) x"
  using assms by (cases x) (auto simp: waiter_known_def probe_known_def nth_append)

text \<open>The invariant of the whole is kept by a reader that waits, by a probe that ends, and by an answer.\<close>

lemma usage_inv_read:
  assumes inv: "usage_inv w" and read: "usage_read path (uw_reader w) = (r, WaitFor p cached started)"
  shows "usage_inv (w\<lparr>uw_reader := r, uw_waiting := (path, p, cached) # uw_waiting w,
    uw_running := (if started then (path, p) # uw_running w else uw_running w)\<rparr>)" (is "usage_inv ?w")
proof -
  have pr: "probes_inv (uw_reader w) (uw_running w)" using inv by (simp add: usage_inv_def)
  have cached: "known (uw_seen w) path (ue_cached (usage_entry_of path (uw_reader w)))"
    using inv by (simp add: usage_inv_def)
  show ?thesis
    using read
  proof (cases rule: usage_read_cases)
    case (join q)
    then have "(path, q) \<in> set (uw_running w)" using pr by (simp add: probes_inv_def)
    then have "waiter_known (uw_seen w) (ur_probes (uw_reader w)) (uw_running w) (path, q, None)"
      using pr by (auto simp: probes_inv_def waiter_known_def probe_known_def)
    then show ?thesis
      using inv join probes_inv_read [OF pr read] by (auto simp: usage_inv_def)
  next
    case start
    have "waiter_known (uw_seen w) (ur_probes r) ((path, p) # uw_running w) (path, p, cached)"
      using start cached by (simp add: waiter_known_def probe_known_def nth_append)
    moreover have "waiter_known (uw_seen w) (ur_probes r) ((path, p) # uw_running w) x" if "x \<in> set (uw_waiting w)" for x
      using start inv that waiter_known_grow by (simp add: usage_inv_def)
    moreover have "ue_cached (usage_entry_of q r) = ue_cached (usage_entry_of q (uw_reader w))" for q
      using start by simp
    moreover have "probes_inv r ((path, p) # uw_running w)"
      using probes_inv_read [OF pr read] start by simp
    ultimately show ?thesis
      using inv start unfolding usage_inv_def by simp
  qed simp
qed

lemma waiter_known_probed:
  assumes known: "waiter_known seen heap running x" and sub: "set seen \<subseteq> set seen'"
    and dist: "distinct running" and mem: "(path, p) \<in> set running" and open_p: "\<not> up_done (heap ! p)"
    and inj: "\<And>path'. (path', p) \<in> set running \<Longrightarrow> path' = path"
    and new: "up_err h = None \<Longrightarrow> known seen' path (up_usage h)" and "up_done h"
  shows "waiter_known seen' (heap[p := h]) (remove1 (path, p) running) x"
proof -
  obtain path' q c where x: "x = (path', q, c)" by (cases x)
  show ?thesis
  proof (cases "q = p")
    case True
    then have "path' = path" using known x open_p inj by (auto simp: waiter_known_def probe_known_def)
    then show ?thesis
      using True known x new \<open>up_done h\<close> known_mono [OF _ sub] by (auto simp: waiter_known_def probe_known_def)
  next
    case False
    then show ?thesis
      using known x dist known_mono [OF _ sub] by (auto simp: waiter_known_def probe_known_def split: if_splits)
  qed
qed

lemma usage_inv_probed:
  assumes inv: "usage_inv w" and mem: "(path, p) \<in> set (uw_running w)"
  shows "usage_inv (w\<lparr>uw_reader := run_probe path p usage err (uw_reader w),
    uw_running := remove1 (path, p) (uw_running w),
    uw_seen := (case (usage, err) of (Some u, None) \<Rightarrow> (path, u) # uw_seen w | _ \<Rightarrow> uw_seen w)\<rparr>)" (is "usage_inv ?w")
proof -
  have pr: "probes_inv (uw_reader w) (uw_running w)" using inv by (simp add: usage_inv_def)
  define seen where "seen = (case (usage, err) of (Some u, None) \<Rightarrow> (path, u) # uw_seen w | _ \<Rightarrow> uw_seen w)"
  have sub: "set (uw_seen w) \<subseteq> set seen" by (auto simp: seen_def split: option.splits)
  have new: "err = None \<Longrightarrow> known seen path usage" by (auto simp: seen_def known_def split: option.splits)
  have dist: "distinct (uw_running w)" and op: "\<not> up_done (ur_probes (uw_reader w) ! p)"
    using pr mem by (auto simp: probes_inv_def)
  have inj: "path' = path" if "(path', p) \<in> set (uw_running w)" for path'
    using pr inj_onD [of snd "set (uw_running w)" "(path', p)" "(path, p)"] mem that by (simp add: probes_inv_def)
  have "waiter_known seen ((ur_probes (uw_reader w))[p := \<lparr>up_done = True, up_usage = usage, up_err = err\<rparr>])
      (remove1 (path, p) (uw_running w)) x" if "x \<in> set (uw_waiting w)" for x
    using waiter_known_probed [OF _ sub dist mem op inj, of x "\<lparr>up_done = True, up_usage = usage, up_err = err\<rparr>"]
      inv new that by (simp add: usage_inv_def)
  moreover have "known seen q (ue_cached (usage_entry_of q (run_probe path p usage err (uw_reader w))))" for q
    using inv new known_mono [OF _ sub] by (simp add: run_probe_entry usage_inv_def)
  moreover have "answer_known seen q a" if "(q, a) \<in> set (uw_answers w)" for q a
    using inv that answer_known_mono [OF _ sub] by (auto simp: usage_inv_def)
  moreover have "probes_inv (run_probe path p usage err (uw_reader w)) (remove1 (path, p) (uw_running w))"
    using probes_inv_run [OF pr mem] by simp
  ultimately show ?thesis unfolding seen_def [symmetric] usage_inv_def by auto
qed

lemma usage_inv_answer:
  assumes "usage_inv w" and "answer_known (uw_seen w) path a"
  shows "usage_inv (w\<lparr>uw_waiting := remove1 x (uw_waiting w), uw_answers := (path, a) # uw_answers w\<rparr>)"
  using assms set_remove1_subset [of x "uw_waiting w"] by (simp add: usage_inv_def) blast

lemma usage_inv_reader:
  assumes "usage_inv w" and "probes_inv r (uw_running w)" and "ur_probes r = ur_probes (uw_reader w)"
    and "\<And>q. ue_cached (usage_entry_of q r) = ue_cached (usage_entry_of q (uw_reader w))"
  shows "usage_inv (w\<lparr>uw_reader := r\<rparr>)"
  using assms by (simp add: usage_inv_def)

lemma usage_step_inv:
  assumes "usage_step w w'" and inv: "usage_inv w"
  shows "usage_inv w'"
  using assms(1)
proof (cases rule: usage_step.cases)
  case (answered path r a)
  then have r: "r = put_usage_entry path (usage_entry_of path (uw_reader w)) (uw_reader w)"
    and a: "a = or_deadline (ue_cached (usage_entry_of path (uw_reader w)))"
    by (auto elim: usage_read_cases)
  have "answer_known (uw_seen w) path a"
    using inv a answer_or_deadline by (simp add: usage_inv_def)
  moreover have "usage_inv (w\<lparr>uw_reader := r\<rparr>)"
    using inv r probes_inv_cong [of "uw_reader w" _ r] by (intro usage_inv_reader [OF inv]) (auto simp: usage_inv_def)
  ultimately show ?thesis
    unfolding answered(1) by (auto simp: usage_inv_def)
next
  case (waiting path r p cached started)
  then show ?thesis using usage_inv_read [OF inv waiting(2)] by simp
next
  case (probed path p usage err)
  then show ?thesis using usage_inv_probed [OF inv probed(2)] by simp
next
  case (woken path p cached)
  have "waiter_known (uw_seen w) (ur_probes (uw_reader w)) (uw_running w) (path, p, cached)"
    using inv woken(2) by (simp add: usage_inv_def)
  then have "answer_known (uw_seen w) path (wait_done (ur_probes (uw_reader w) ! p) cached)"
    using woken(3) by (intro answer_wait_done) (auto simp: waiter_known_def probe_known_def)
  then show ?thesis using usage_inv_answer [OF inv] woken(1) by simp
next
  case (timed_out path p cached r a)
  have "waiter_known (uw_seen w) (ur_probes (uw_reader w)) (uw_running w) (path, p, cached)"
    using inv timed_out(2) by (simp add: usage_inv_def)
  then have a: "answer_known (uw_seen w) path a"
    using wait_timeout_cases(1) [OF timed_out(3)] answer_or_deadline by (simp add: waiter_known_def)
  have "usage_inv (w\<lparr>uw_reader := r\<rparr>)"
  proof (rule usage_inv_reader [OF inv])
    show "probes_inv r (uw_running w)"
      using inv probes_inv_timeout [OF _ timed_out(3)] by (simp add: usage_inv_def)
  qed (use wait_timeout_cases(2) [OF timed_out(3)] in auto)
  then show ?thesis
    using usage_inv_answer [of "w\<lparr>uw_reader := r\<rparr>" path a] a timed_out(1) by simp
qed

lemma usage_reach_inv: "usage_step\<^sup>*\<^sup>* new_usage_world w \<Longrightarrow> usage_inv w"
  by (induction rule: rtranclp_induct) (auto intro: usage_inv_new usage_step_inv)

section \<open>Properties\<close>

lemma stuck_path_is_probed:
  assumes "usage_step\<^sup>*\<^sup>* new_usage_world w" and "ue_stuck (usage_entry_of path (uw_reader w))"
  obtains p where "(path, p) \<in> set (uw_running w)"
  using usage_reach_inv [OF assms(1)] assms(2) by (auto simp: usage_inv_def probes_inv_def)

text \<open>C7. However readers and probes interleave, at most one probe runs for a path, so a dead file
  system holds one goroutine; and a path counts as stuck only while its probe runs.\<close>

theorem one_probe_per_path:
  assumes "usage_step\<^sup>*\<^sup>* new_usage_world w"
  shows "distinct (map fst (uw_running w)) \<and>
    {path. ue_stuck (usage_entry_of path (uw_reader w))} \<subseteq> fst ` set (uw_running w)"
proof
  show "distinct (map fst (uw_running w))"
    using usage_reach_inv [OF assms] by (intro probes_inv_one [of "uw_reader w"]) (simp add: usage_inv_def)
  show "{path. ue_stuck (usage_entry_of path (uw_reader w))} \<subseteq> fst ` set (uw_running w)"
    by (force elim: stuck_path_is_probed [OF assms])
qed

text \<open>A reader is only told a usage that a probe of its own path returned.\<close>

theorem usage_of_own_path:
  assumes "usage_step\<^sup>*\<^sup>* new_usage_world w" and "(path, Inr u) \<in> set (uw_answers w)"
  shows "(path, u) \<in> set (uw_seen w)"
proof -
  have "answer_known (uw_seen w) path (Inr u)"
    using usage_reach_inv [OF assms(1)] assms(2) by (auto simp: usage_inv_def)
  then show ?thesis by (simp add: answer_known_def)
qed

text \<open>C17. No path stays stuck: in every reachable state with a stuck path the probe of that path is still
  there, and once it returns a usage and the path is read again, the reader gets a fresh probe and,
  when that returns, its result.\<close>

theorem stuck_path_recovers:
  assumes "usage_step\<^sup>*\<^sup>* new_usage_world w" and "ue_stuck (usage_entry_of path (uw_reader w))"
  shows "\<exists>w'. usage_step\<^sup>*\<^sup>* w w' \<and> \<not> ue_stuck (usage_entry_of path (uw_reader w'))
    \<and> hd (uw_answers w') = (path, Inr u)"
proof -
  obtain p where p: "(path, p) \<in> set (uw_running w)"
    by (rule stuck_path_is_probed [OF assms])
  define w1 where "w1 = w\<lparr>uw_reader := run_probe path p (Some u) None (uw_reader w),
    uw_running := remove1 (path, p) (uw_running w), uw_seen := (path, u) # uw_seen w\<rparr>"
  have s1: "usage_step w w1"
    using usage_step.probed [OF p, of "Some u" None] by (simp add: w1_def)
  define q where "q = length (ur_probes (uw_reader w1))"
  have q: "q = length (ur_probes (uw_reader w))" by (simp add: q_def w1_def)
  obtain r where read: "usage_read path (uw_reader w1) = (r, WaitFor q (Some u) True)"
    and r: "r = (put_usage_entry path ((usage_entry_of path (uw_reader w1))\<lparr>ue_probe := Some q\<rparr>) (uw_reader w1))
         \<lparr>ur_probes := ur_probes (uw_reader w1) @ [\<lparr>up_done = False, up_usage = None, up_err = None\<rparr>]\<rparr>"
    by (auto simp: usage_read_def Let_def run_probe_entry w1_def q_def)
  define w2 where "w2 = w1\<lparr>uw_reader := r, uw_waiting := (path, q, Some u) # uw_waiting w1,
    uw_running := (path, q) # uw_running w1\<rparr>"
  have s2: "usage_step w1 w2" using usage_step.waiting [OF read] by (simp add: w2_def)
  define w3 where "w3 = w2\<lparr>uw_reader := run_probe path q (Some u) None r,
    uw_running := remove1 (path, q) (uw_running w2), uw_seen := (path, u) # uw_seen w2\<rparr>"
  have s3: "usage_step w2 w3"
    using usage_step.probed [of path q w2 "Some u" None] by (simp add: w2_def w3_def)
  have heap: "ur_probes (uw_reader w3) ! q = \<lparr>up_done = True, up_usage = Some u, up_err = None\<rparr>"
    by (simp add: w3_def r q_def)
  define w4 where "w4 = w3\<lparr>uw_waiting := remove1 (path, q, Some u) (uw_waiting w3),
    uw_answers := (path, wait_done (ur_probes (uw_reader w3) ! q) (Some u)) # uw_answers w3\<rparr>"
  have s4: "usage_step w3 w4"
    unfolding w4_def using heap by (intro usage_step.woken) (simp_all add: w3_def w2_def)
  have "\<not> ue_stuck (usage_entry_of path (uw_reader w4))" and "hd (uw_answers w4) = (path, Inr u)"
    unfolding w4_def heap by (simp_all add: w3_def run_probe_entry wait_done_def)
  with s1 s2 s3 s4 show ?thesis
    by (meson converse_rtranclp_into_rtranclp rtranclp.rtrancl_refl)
qed

text \<open>The results of \<open>collect\<close> for the answers its readers got, in the order of the jobs.\<close>

definition usage_results :: "(string \<Rightarrow> usage_answer) \<Rightarrow> partition list \<Rightarrow> disk_usage list" where
  "usage_results answer jobs = List.map_filter (\<lambda>j. usage_result j (answer (pt_mount j))) jobs"

lemma usage_jobs_fresh:
  "distinct (map pt_mount (usage_jobs skip seen ps)) \<and> set (map pt_mount (usage_jobs skip seen ps)) \<inter> set seen = {}"
proof (induction skip seen ps rule: usage_jobs.induct)
  case (2 skip seen p ps)
  then show ?case by (auto simp: Let_def)
qed simp

lemma usage_results_mounts: "set (map du_mount (usage_results answer jobs)) \<subseteq> set (map pt_mount jobs)"
proof (induction jobs)
  case (Cons j jobs)
  then show ?case
    by (cases "answer (pt_mount j)") (auto simp: usage_results_def List.map_filter_def build_usage_def Let_def)
qed (simp add: usage_results_def List.map_filter_def)

lemma usage_results_distinct:
  "distinct (map pt_mount jobs) \<Longrightarrow> distinct (map du_mount (usage_results answer jobs))"
proof (induction jobs)
  case (Cons j jobs)
  have "pt_mount j \<notin> set (map du_mount (usage_results answer jobs))"
    using Cons.prems usage_results_mounts [of answer jobs] by auto
  with Cons show ?case
    by (cases "answer (pt_mount j)") (auto simp: usage_results_def List.map_filter_def build_usage_def Let_def)
qed (simp add: usage_results_def List.map_filter_def)

text \<open>What \<open>collect\<close> reports does not depend on the order in which its workers finish: it lists the
  mount points that answered, each once, in strictly increasing order.\<close>

theorem collect_order_independent:
  assumes "mset arrived = mset (usage_results answer (usage_jobs skip_pseudo [] parts))"
  shows "collect_usage arrived = collect_usage (usage_results answer (usage_jobs skip_pseudo [] parts))
    \<and> sorted_wrt (<) (map du_mount (collect_usage arrived))"
proof -
  let ?rs = "usage_results answer (usage_jobs skip_pseudo [] parts)"
  have rs: "distinct (map du_mount ?rs)"
    using usage_jobs_fresh usage_results_distinct by blast
  have "mset (map du_mount arrived) = mset (map du_mount ?rs)" using assms by simp
  with rs have dist: "distinct (map du_mount arrived)" by (metis mset_eq_imp_distinct_iff)
  have "sort_key du_mount arrived = sort_key du_mount ?rs"
    using assms dist by (intro sort_key_inj_key_eq) (simp_all add: distinct_map)
  moreover have "sorted_wrt (<) (map du_mount (collect_usage arrived))"
    using dist by (simp add: strict_sorted_iff collect_usage_def distinct_map inj_on_def)
  ultimately show ?thesis by (simp add: collect_usage_def)
qed

text \<open>The ratios of a report lie between 0 and 1.\<close>

lemma percent_to_ratio_unit:
  assumes "p \<noteq> NaN"
  obtains q where "percent_to_ratio p = Fin q" and "0 \<le> q" and "q \<le> 1"
proof (cases p)
  case (Fin a)
  show thesis
  proof (cases "a \<le> 0 \<or> 100 \<le> a")
    case True
    with Fin that show thesis by (auto simp: percent_to_ratio_def)
  next
    case False
    then obtain r where "round64 (a / 100) = Fin r" "0 \<le> r" "r \<le> 1"
      using round64_unit [of "a / 100"] by auto
    with Fin False that show thesis by (auto simp: percent_to_ratio_def)
  qed
qed (use assms that in \<open>auto simp: percent_to_ratio_def\<close>)

section \<open>Witnesses\<close>

definition demo_stat :: usage_stat where
  "demo_stat = \<lparr>us_path = ''/m'', us_total = 100, us_used = 40, us_free = 60, us_used_percent = Fin 40,
     us_inodes_total = 0, us_inodes_used = 0, us_inodes_free = 0, us_inodes_percent = Fin 0\<rparr>"

text \<open>A reader asks for a mount point and its probe returns before the timer.\<close>

lemma demo_usage_answered:
  "\<exists>w. usage_step\<^sup>*\<^sup>* new_usage_world w \<and> (''/m'', Inr demo_stat) \<in> set (uw_answers w)"
proof -
  obtain r where read: "usage_read ''/m'' new_usage_reader = (r, WaitFor 0 None True)"
    and r: "length (ur_probes r) = 1"
    by (auto simp: usage_read_def Let_def) (simp add: new_usage_reader_def)
  define w1 where "w1 = new_usage_world\<lparr>uw_reader := r, uw_waiting := [(''/m'', 0, None)], uw_running := [(''/m'', 0)]\<rparr>"
  have s1: "usage_step new_usage_world w1"
    using usage_step.waiting [of "''/m''" new_usage_world r 0 None True] read by (simp add: w1_def)
  define w2 where "w2 = w1\<lparr>uw_reader := run_probe ''/m'' 0 (Some demo_stat) None r, uw_running := [], uw_seen := [(''/m'', demo_stat)]\<rparr>"
  have s2: "usage_step w1 w2"
    using usage_step.probed [of "''/m''" 0 w1 "Some demo_stat" None] by (simp add: w1_def w2_def)
  have heap: "ur_probes (uw_reader w2) ! 0 = \<lparr>up_done = True, up_usage = Some demo_stat, up_err = None\<rparr>"
    using r by (simp add: w2_def)
  have s3: "usage_step w2 (w2\<lparr>uw_waiting := [], uw_answers := [(''/m'', Inr demo_stat)]\<rparr>)"
    using usage_step.woken [of "''/m''" 0 None w2] heap by (simp add: w2_def w1_def wait_done_def)
  have "usage_step\<^sup>*\<^sup>* new_usage_world (w2\<lparr>uw_waiting := [], uw_answers := [(''/m'', Inr demo_stat)]\<rparr>)"
    using s1 s2 s3 by (meson converse_rtranclp_into_rtranclp rtranclp.rtrancl_refl)
  moreover have "(''/m'', Inr demo_stat) \<in> set (uw_answers (w2\<lparr>uw_waiting := [], uw_answers := [(''/m'', Inr demo_stat)]\<rparr>))"
    by simp
  ultimately show ?thesis by blast
qed

text \<open>A reader gives up on a probe that hangs.\<close>

lemma demo_usage_stuck:
  "\<exists>w. usage_step\<^sup>*\<^sup>* new_usage_world w \<and> ue_stuck (usage_entry_of ''/m'' (uw_reader w))"
proof -
  obtain r where read: "usage_read ''/m'' new_usage_reader = (r, WaitFor 0 None True)"
    and r: "ue_probe (usage_entry_of ''/m'' r) = Some 0"
    by (auto simp: usage_read_def Let_def) (simp_all add: new_usage_reader_def)
  define w1 where "w1 = new_usage_world\<lparr>uw_reader := r, uw_waiting := [(''/m'', 0, None)], uw_running := [(''/m'', 0)]\<rparr>"
  have s1: "usage_step new_usage_world w1"
    using usage_step.waiting [of "''/m''" new_usage_world r 0 None True] read by (simp add: w1_def)
  obtain r2 a where out: "wait_timeout ''/m'' 0 None r = (r2, a)" by force
  have stuck: "ue_stuck (usage_entry_of ''/m'' r2)"
    using out r by (auto simp: wait_timeout_def Let_def)
  have s2: "usage_step w1 (w1\<lparr>uw_reader := r2, uw_waiting := [], uw_answers := [(''/m'', a)]\<rparr>)"
    using usage_step.timed_out [of "''/m''" 0 None w1 r2 a] out by (simp add: w1_def)
  have "usage_step\<^sup>*\<^sup>* new_usage_world (w1\<lparr>uw_reader := r2, uw_waiting := [], uw_answers := [(''/m'', a)]\<rparr>)"
    using s1 s2 by (meson converse_rtranclp_into_rtranclp rtranclp.rtrancl_refl)
  moreover have "ue_stuck (usage_entry_of ''/m'' (uw_reader (w1\<lparr>uw_reader := r2, uw_waiting := [], uw_answers := [(''/m'', a)]\<rparr>)))"
    using stuck by simp
  ultimately show ?thesis by blast
qed

theorem one_probe_per_path_witness:
  "\<exists>w :: usage_world. ue_stuck (usage_entry_of ''/m'' (uw_reader w)) \<and> ''/m'' \<in> fst ` set (uw_running w)
     \<and> distinct (map fst (uw_running w))"
  using demo_usage_stuck one_probe_per_path by blast

theorem usage_of_own_path_witness: "\<exists>w :: usage_world. (''/m'', demo_stat) \<in> set (uw_seen w)"
  using demo_usage_answered usage_of_own_path by blast

theorem stuck_path_recovers_witness:
  "\<exists>(w :: usage_world) w'. ue_stuck (usage_entry_of ''/m'' (uw_reader w)) \<and> usage_step\<^sup>*\<^sup>* w w'
     \<and> \<not> ue_stuck (usage_entry_of ''/m'' (uw_reader w'))"
  using demo_usage_stuck stuck_path_recovers [where u = demo_stat] by blast

definition demo_parts :: "partition list" where
  "demo_parts = [\<lparr>pt_device = ''sda2'', pt_mount = ''/b'', pt_fstype = ''ext4''\<rparr>,
     \<lparr>pt_device = ''proc'', pt_mount = ''/proc'', pt_fstype = ''proc''\<rparr>,
     \<lparr>pt_device = ''sda1'', pt_mount = ''/a'', pt_fstype = ''ext4''\<rparr>]"

lemma demo_jobs: "map pt_mount (usage_jobs True [] demo_parts) = [''/b'', ''/a'']"
  by code_simp

theorem collect_order_independent_witness:
  "sorted_wrt (<) (map du_mount (collect_usage (rev (usage_results (\<lambda>_. Inr demo_stat) (usage_jobs True [] demo_parts)))))"
  by (rule conjunct2 [OF collect_order_independent [OF mset_rev]])

section \<open>The path automaton\<close>

text \<open>What the reader promises for a path, as an automaton: a path is idle, probed, or stuck on its probe.\<close>

datatype path_phase = Idle | Probing | Stuck

definition path_phase :: "usage_world \<Rightarrow> string \<Rightarrow> path_phase" where
  "path_phase w path =
     (let e = usage_entry_of path (uw_reader w)
      in if ue_stuck e then Stuck else if ue_probe e = None then Idle else Probing)"

fun phase_move :: "path_phase \<Rightarrow> path_phase \<Rightarrow> bool" where
  "phase_move Idle Probing = True"
| "phase_move Probing Stuck = True"
| "phase_move Probing Idle = True"
| "phase_move Stuck Idle = True"
| "phase_move _ _ = False"

lemma phase_read:
  assumes "usage_read path r = (r', reply)"
  shows "(\<forall>q. ue_probe (usage_entry_of q r') = ue_probe (usage_entry_of q r) \<and> ue_stuck (usage_entry_of q r') = ue_stuck (usage_entry_of q r))
    \<or> (ue_probe (usage_entry_of path r) = None \<and> \<not> ue_stuck (usage_entry_of path r) \<and>
       ue_probe (usage_entry_of path r') \<noteq> None \<and> \<not> ue_stuck (usage_entry_of path r') \<and>
       (\<forall>q. q \<noteq> path \<longrightarrow> usage_entry_of q r' = usage_entry_of q r))"
  using assms by (cases rule: usage_read_cases) auto

text \<open>C9. Every step of the reader and its probes is a step of the automaton of one path, or none; the others
  keep their phase.\<close>

theorem usage_refines_automaton:
  assumes "usage_step\<^sup>*\<^sup>* new_usage_world w" and "usage_step w w'"
  shows "path_phase w' = path_phase w \<or>
    (\<exists>path ph. phase_move (path_phase w path) ph \<and> path_phase w' = (path_phase w)(path := ph))"
proof -
  have inv: "probes_inv (uw_reader w) (uw_running w)"
    using usage_reach_inv [OF assms(1)] by (simp add: usage_inv_def)
  have move: ?thesis if eq: "uw_reader w' = r'" and rd: "usage_read path (uw_reader w) = (r', reply)" for path r' reply
  proof -
    from phase_read [OF rd] eq
    consider "\<And>q. ue_probe (usage_entry_of q r') = ue_probe (usage_entry_of q (uw_reader w)) \<and>
        ue_stuck (usage_entry_of q r') = ue_stuck (usage_entry_of q (uw_reader w))"
      | "path_phase w path = Idle" "path_phase w' path = Probing" "\<And>q. q \<noteq> path \<Longrightarrow> path_phase w' q = path_phase w q"
      unfolding path_phase_def Let_def by auto
    then show ?thesis
    proof cases
      case 1
      then have "path_phase w' = path_phase w" using eq by (auto simp: path_phase_def Let_def)
      then show ?thesis ..
    next
      case 2
      then have "phase_move (path_phase w path) Probing" and "path_phase w' = (path_phase w)(path := Probing)" by auto
      then show ?thesis by blast
    qed
  qed
  show ?thesis
    using assms(2)
  proof (cases rule: usage_step.cases)
    case (answered path r a)
    then show ?thesis using move [of r path] by simp
  next
    case (waiting path r p cached started)
    then show ?thesis using move [of r path] by simp
  next
    case (probed path p usage err)
    have "ue_probe (usage_entry_of path (uw_reader w)) = Some p"
      using inv probed(2) by (simp add: probes_inv_def)
    then have "phase_move (path_phase w path) Idle" by (simp add: path_phase_def Let_def)
    moreover have "path_phase w' = (path_phase w)(path := Idle)"
      using probed(1) by (auto simp: path_phase_def Let_def run_probe_entry)
    ultimately show ?thesis by blast
  next
    case (woken path p cached)
    then show ?thesis by (simp add: path_phase_def [abs_def])
  next
    case (timed_out path p cached r a)
    show ?thesis
    proof (cases "ue_probe (usage_entry_of path (uw_reader w)) = Some p \<and> \<not> ue_stuck (usage_entry_of path (uw_reader w))")
      case True
      then have "phase_move (path_phase w path) Stuck" by (simp add: path_phase_def Let_def)
      moreover have "path_phase w' = (path_phase w)(path := Stuck)"
        using timed_out(1,3) True by (auto simp: path_phase_def Let_def wait_timeout_def)
      ultimately show ?thesis by blast
    next
      case False
      then have "path_phase w' = path_phase w"
        using timed_out(1,3) by (auto simp: path_phase_def Let_def wait_timeout_def split: if_splits)
      then show ?thesis ..
    qed
  qed
qed

theorem usage_refines_automaton_witness:
  "\<exists>w. usage_step new_usage_world w \<and> path_phase w = (path_phase new_usage_world)(''/m'' := Probing)"
proof -
  obtain r where read: "usage_read ''/m'' new_usage_reader = (r, WaitFor 0 None True)"
    and r: "ue_probe (usage_entry_of ''/m'' r) = Some 0" "\<not> ue_stuck (usage_entry_of ''/m'' r)"
    by (auto simp: usage_read_def Let_def) (simp_all add: new_usage_reader_def)
  define w where "w = new_usage_world\<lparr>uw_reader := r, uw_waiting := [(''/m'', 0, None)], uw_running := [(''/m'', 0)]\<rparr>"
  have step: "usage_step new_usage_world w"
    using usage_step.waiting [of "''/m''" new_usage_world r 0 None True] read by (simp add: w_def)
  have probing: "path_phase w ''/m'' = Probing" using r by (simp add: path_phase_def w_def Let_def)
  have idle: "path_phase new_usage_world q = Idle" for q by (simp add: path_phase_def Let_def)
  from usage_refines_automaton [OF rtranclp.rtrancl_refl step]
  have "path_phase w = (path_phase new_usage_world)(''/m'' := Probing)"
    using probing idle by (metis fun_upd_other fun_upd_same path_phase.distinct(1))
  with step show ?thesis by blast
qed

end
