(* ===== verification/RaidParse.thy ===== *)
theory RaidParse
  imports GoBase
begin

text \<open>
  \<open>internal/collect/storage_raid_linux.go\<close>: the arrays of \<open>/proc/mdstat\<close> and of \<open>zpool status\<close>.  The
  parsers walk over the lines of the text; an index into the lines is the list of the lines left.
\<close>

section \<open>Data\<close>

record raid_member =
  rm_name :: string
  rm_state :: string

record raid_array =
  ra_name :: string
  ra_level :: string
  ra_status :: string
  ra_devices :: int
  ra_active :: int
  ra_working :: int
  ra_failed :: int
  ra_health :: string
  ra_members :: "raid_member list"
  ra_sync :: string
  ra_progress :: string

record raid_snapshot =
  rs_supported :: bool
  rs_available :: bool
  rs_arrays :: "raid_array list"

definition empty_array :: raid_array where
  "empty_array = \<lparr>ra_name = [], ra_level = [], ra_status = [], ra_devices = 0, ra_active = 0, ra_working = 0,
     ra_failed = 0, ra_health = [], ra_members = [], ra_sync = [], ra_progress = []\<rparr>"

text \<open>The percentage in front of the first \<open>%\<close>, as both parsers look for it.\<close>

definition percent_char :: "char \<Rightarrow> bool" where
  "percent_char c \<longleftrightarrow> is_digit c \<or> c = CHR ''.''"

definition progress_of :: "string \<Rightarrow> string" where
  "progress_of s =
     (case cut_at CHR ''%'' s of
        None \<Rightarrow> []
      | Some (pre, _) \<Rightarrow>
          (let ds = rev (takeWhile percent_char (rev pre)) in if ds = [] then [] else ds @ ''%''))"

section \<open>\<open>/proc/mdstat\<close>\<close>

definition md_level :: "string \<Rightarrow> bool" where
  "md_level s =
     (let l = to_lower (trim_space s) in has_prefix l ''raid'' \<or> l = ''linear'' \<or> l = ''multipath'')"

text \<open>The loop of \<open>parseMDLine\<close> behind the status: the level, and the fields of the members.\<close>

fun md_scan :: "string list \<Rightarrow> string \<times> string list" where
  "md_scan [] = ([], [])"
| "md_scan (f # fs) =
     (if md_level f then (f, fs) else if contains f ''['' then ([], f # fs) else md_scan fs)"

definition parse_md_line :: "string \<Rightarrow> (raid_array \<times> string list) option" where
  "parse_md_line line =
     (case GoBase.fields line of
        f0 # f1 # fs \<Rightarrow>
          (let name = trim_suffix f0 '':'';
               rest = (if has_suffix f0 '':'' then Some (f1 # fs) else if f1 = '':'' then Some fs else None)
           in if \<not> has_prefix name ''md'' then None
              else (case rest of
                      Some (status # tail) \<Rightarrow>
                        (case md_scan tail of (level, ms) \<Rightarrow>
                           Some (empty_array\<lparr>ra_name := name, ra_status := status, ra_level := level\<rparr>, ms))
                    | _ \<Rightarrow> None))
      | _ \<Rightarrow> None)"

definition member_name :: "string \<Rightarrow> string option" where
  "member_name f = (case cut_at CHR ''['' f of Some (a, _) \<Rightarrow> if a = [] then None else Some a | None \<Rightarrow> None)"

definition member_names :: "string list \<Rightarrow> string list" where
  "member_names fs = List.map_filter member_name fs"

text \<open>A token of a detail line: \<open>[2/1]\<close> counts devices, any other bracket gives the states.\<close>

definition md_token :: "string \<Rightarrow> raid_array \<times> string \<Rightarrow> raid_array \<times> string" where
  "md_token t as =
     (case as of (a, states) \<Rightarrow>
        if has_prefix t ''['' \<and> has_suffix t '']'' then
          (let inner = butlast (tl t)
           in case cut_at CHR ''/'' inner of
                Some (x, y) \<Rightarrow>
                  (let a1 = (case parse_int x of Some n \<Rightarrow> a\<lparr>ra_devices := n\<rparr> | None \<Rightarrow> a)
                   in (case parse_int y of Some n \<Rightarrow> a1\<lparr>ra_active := n\<rparr> | None \<Rightarrow> a1, states))
              | None \<Rightarrow> (a, inner))
        else (a, states))"

definition md_sync :: "string \<Rightarrow> raid_array \<Rightarrow> raid_array" where
  "md_sync l a =
     (if contains l ''resync'' \<or> contains l ''recovery'' \<or> contains l ''reshape'' \<or> contains l ''check''
      then (let a1 = a\<lparr>ra_sync := l\<rparr> in if progress_of l = [] then a1 else a1\<lparr>ra_progress := progress_of l\<rparr>)
      else a)"

definition md_detail :: "string \<Rightarrow> raid_array \<times> string \<Rightarrow> raid_array \<times> string" where
  "md_detail raw as =
     (let l = trim_space raw in case fold md_token (GoBase.fields l) as of (a, states) \<Rightarrow> (md_sync l a, states))"

text \<open>\<open>details\<close>: the indented lines below an array, and the lines where the outer loop goes on.\<close>

fun md_details :: "string list \<Rightarrow> raid_array \<times> string \<Rightarrow> (raid_array \<times> string) \<times> string list" where
  "md_details [] as = (as, [])"
| "md_details (raw # ls) as =
     (if raw = [] then (as, ls)
      else if hd raw \<noteq> CHR '' '' \<and> hd raw \<noteq> CHR 0x09 then (as, raw # ls)
      else md_details ls (md_detail raw as))"

definition member_state :: "char \<Rightarrow> string" where
  "member_state c =
     (if c = CHR ''U'' \<or> c = CHR ''u'' then ''up'' else if c = CHR ''_'' then ''down'' else ''unknown'')"

definition count_state :: "string \<Rightarrow> raid_member list \<Rightarrow> int" where
  "count_state st ms = int (length (filter (\<lambda>m. rm_state m = st) ms))"

definition md_members :: "string list \<Rightarrow> string \<Rightarrow> raid_array \<Rightarrow> raid_array" where
  "md_members names states a =
     (if states \<noteq> [] \<and> length names = length states then
        (let ms = map2 (\<lambda>n c. \<lparr>rm_name = n, rm_state = member_state c\<rparr>) names states;
             a1 = a\<lparr>ra_members := ms, ra_failed := count_state ''down'' ms\<rparr>
         in if ra_devices a > 0 then a1\<lparr>ra_working := ra_devices a - count_state ''down'' ms\<rparr> else a1)
      else a)"

definition md_health :: "raid_array \<Rightarrow> string" where
  "md_health a =
     (if ra_devices a > 0 then
        if ra_failed a > 0 \<or> (ra_active a > 0 \<and> ra_active a < ra_devices a) then ''degraded'' else ''healthy''
      else ''unknown'')"

definition md_finish :: "string list \<Rightarrow> string \<Rightarrow> raid_array \<Rightarrow> raid_array option" where
  "md_finish names states a =
     (let a1 = md_members names states a; a2 = a1\<lparr>ra_health := md_health a1\<rparr>
      in if ra_devices a2 > 0 \<or> names \<noteq> [] then Some a2 else None)"

definition md_skipped :: "string \<Rightarrow> bool" where
  "md_skipped line \<longleftrightarrow> line = [] \<or> has_prefix line ''Personalities'' \<or> has_prefix line ''unused devices'' \<or>
     has_prefix line ''read_ahead'' \<or> \<not> has_prefix line ''md''"

lemma md_details_shorter: "md_details ls as = (r, rest) \<Longrightarrow> length rest \<le> length ls"
  by (induction ls as rule: md_details.induct) (auto split: if_splits)

function md_arrays :: "string list \<Rightarrow> raid_array list" where
  "md_arrays [] = []"
| "md_arrays (raw # ls) =
     (let line = trim_space raw
      in if md_skipped line then md_arrays ls
         else case parse_md_line line of
           None \<Rightarrow> md_arrays ls
         | Some (a, ms) \<Rightarrow>
             (case md_details ls (a, []) of
                ((a1, states), rest) \<Rightarrow>
                  (case md_finish (member_names ms) states a1 of
                     Some a2 \<Rightarrow> a2 # md_arrays rest | None \<Rightarrow> md_arrays rest)))"
  by pat_completeness auto
termination
  by (relation "measure length") (auto dest: md_details_shorter [OF sym])

definition parse_mdstat :: "string \<Rightarrow> raid_array list" where
  "parse_mdstat s = md_arrays (split_on CHR 0x0A s)"

section \<open>\<open>zpool status\<close>\<close>

text \<open>\<open>strings.ToUpper\<close>, for comparison with ASCII text only: ASCII letters, and the two other code
  points whose upper case is ASCII (the dotless i and the long s).\<close>

definition upper_byte :: "char \<Rightarrow> char" where
  "upper_byte c = (if of_char c \<in> {97 .. 122 :: nat} then char_of (of_char c - (32 :: nat)) else c)"

fun to_upper :: "string \<Rightarrow> string" where
  "to_upper [] = []"
| "to_upper (c # s) =
     (if take 2 (c # s) = [CHR 0xC4, CHR 0xB1] then CHR ''I'' # to_upper (drop 1 s)
      else if take 2 (c # s) = [CHR 0xC5, CHR 0xBF] then CHR ''S'' # to_upper (drop 1 s)
      else upper_byte c # to_upper s)"

definition zfs_health :: "string \<Rightarrow> string" where
  "zfs_health state =
     (let u = to_upper state
      in if u = ''ONLINE'' then ''healthy''
         else if u \<in> {''DEGRADED'', ''FAULTED'', ''UNAVAIL'', ''OFFLINE'', ''REMOVED'', ''SUSPENDED''} then ''degraded''
         else ''unknown'')"

definition zfs_member_state :: "string \<Rightarrow> string" where
  "zfs_member_state u =
     (if u = ''ONLINE'' then ''up''
      else if u \<in> {''DEGRADED'', ''FAULTED'', ''UNAVAIL'', ''OFFLINE'', ''REMOVED''} then ''down''
      else ''unknown'')"

definition zfs_leaf_char :: "char \<Rightarrow> bool" where
  "zfs_leaf_char c \<longleftrightarrow> of_char c \<in> {97 .. 122 :: nat} \<or> is_digit c"

definition zfs_leaf :: "string \<Rightarrow> string \<Rightarrow> bool" where
  "zfs_leaf pool name0 =
     (let name = trim_space name0; l = to_lower name
      in if name = [] then False
         else if has_prefix l ''mirror'' \<or> has_prefix l ''raidz'' \<or>
           l \<in> {''spares'', ''logs'', ''cache'', ''special'', ''dedup''} then False
         else if name = pool then False
         else has_prefix name ''/dev/'' \<or> list_all zfs_leaf_char name)"

definition zfs_level :: "string \<Rightarrow> string" where
  "zfs_level vdev =
     (let l = to_lower vdev
      in if has_prefix l ''mirror'' then ''mirror''
         else if has_prefix l ''raidz1'' then ''raidz1''
         else if has_prefix l ''raidz2'' then ''raidz2''
         else if has_prefix l ''raidz3'' then ''raidz3''
         else [])"

text \<open>The variables of \<open>parseZFSStatus\<close>.\<close>

record zfs_parse =
  zp_res :: "raid_array list"
  zp_cur :: "raid_array option"
  zp_config :: bool
  zp_skip :: nat

definition zfs_settle :: "raid_array \<Rightarrow> raid_array" where
  "zfs_settle a =
     (let ms = ra_members a;
          a1 = (if ra_devices a = 0 \<and> ms \<noteq> [] then a\<lparr>ra_devices := int (length ms)\<rparr> else a);
          a2 = (if ra_working a1 = 0 \<and> ra_active a1 = 0 \<and> ms \<noteq> []
                then a1\<lparr>ra_working := count_state ''up'' ms, ra_active := count_state ''up'' ms,
                        ra_failed := count_state ''down'' ms\<rparr>
                else a1)
      in if ra_health a2 = [] \<or> ra_health a2 = ''unknown''
         then a2\<lparr>ra_health := (if ra_failed a2 > 0 then ''degraded'' else ''healthy'')\<rparr>
         else a2)"

definition zfs_flush :: "zfs_parse \<Rightarrow> zfs_parse" where
  "zfs_flush z =
     (case zp_cur z of None \<Rightarrow> z | Some a \<Rightarrow> z\<lparr>zp_res := zp_res z @ [zfs_settle a], zp_cur := None\<rparr>)"

definition new_pool :: "string \<Rightarrow> raid_array" where
  "new_pool name = empty_array\<lparr>ra_name := name, ra_level := ''unknown'', ra_health := ''unknown''\<rparr>"

text \<open>A line of the device table: the level of the first redundant vdev, and the leaf devices.\<close>

definition zfs_row :: "string \<Rightarrow> string \<Rightarrow> raid_array \<Rightarrow> raid_array" where
  "zfs_row name state a =
     (let a1 = (if ra_level a = ''unknown'' \<and> zfs_level name \<noteq> [] then a\<lparr>ra_level := zfs_level name\<rparr> else a)
      in if zfs_leaf (ra_name a1) name
         then a1\<lparr>ra_members := ra_members a1 @ [\<lparr>rm_name = name, rm_state = zfs_member_state (to_upper state)\<rparr>]\<rparr>
         else a1)"

definition trim_cr :: "string \<Rightarrow> string" where
  "trim_cr s = rev (dropWhile (\<lambda>c. c = CHR 0x0D) (rev s))"

definition after_prefix :: "string \<Rightarrow> string \<Rightarrow> string" where
  "after_prefix s p = trim_space (trim_prefix s p)"

definition zfs_table_line :: "string \<Rightarrow> raid_array \<Rightarrow> zfs_parse \<Rightarrow> zfs_parse" where
  "zfs_table_line trim a z =
     (if zp_skip z > 0 \<and> (trim = [] \<or> has_prefix trim ''NAME'') then z\<lparr>zp_skip := zp_skip z - 1\<rparr>
      else (let z1 = z\<lparr>zp_skip := 0\<rparr>
            in case GoBase.fields trim of
                 name # state # _ \<Rightarrow> z1\<lparr>zp_cur := Some (zfs_row name state a)\<rparr>
               | _ \<Rightarrow> z1))"

definition zfs_line :: "string \<Rightarrow> zfs_parse \<Rightarrow> zfs_parse" where
  "zfs_line raw z =
     (let trim = trim_space (trim_cr raw)
      in if has_prefix trim ''pool:'' then
           (zfs_flush z)\<lparr>zp_cur := Some (new_pool (after_prefix trim ''pool:'')), zp_config := False, zp_skip := 0\<rparr>
         else case zp_cur z of
           None \<Rightarrow> z
         | Some a \<Rightarrow>
             if has_prefix trim ''state:'' then
               (let s = after_prefix trim ''state:''
                in z\<lparr>zp_cur := Some (a\<lparr>ra_status := s, ra_health := zfs_health s\<rparr>)\<rparr>)
             else if has_prefix trim ''scan:'' then
               (let s = after_prefix trim ''scan:''
                in z\<lparr>zp_cur := Some (a\<lparr>ra_sync := s, ra_progress := progress_of s\<rparr>)\<rparr>)
             else if trim = ''config:'' then z\<lparr>zp_config := True, zp_skip := 2\<rparr>
             else if has_prefix trim ''errors:'' then z\<lparr>zp_config := False\<rparr>
             else if \<not> zp_config z then z
             else zfs_table_line trim a z)"

definition parse_zfs_status :: "string \<Rightarrow> raid_array list" where
  "parse_zfs_status s =
     zp_res (zfs_flush (fold zfs_line (split_on CHR 0x0A s)
       \<lparr>zp_res = [], zp_cur = None, zp_config = False, zp_skip = 0\<rparr>))"

text \<open>\<open>collectRaid\<close>, with the text of \<open>/proc/mdstat\<close> and the output of \<open>zpool status\<close>
  (\<open>None\<close> when it could not be read).\<close>

definition collect_raid :: "string option \<Rightarrow> string option \<Rightarrow> raid_snapshot" where
  "collect_raid mdstat zpool =
     (let arrays = (case mdstat of Some t \<Rightarrow> parse_mdstat t | None \<Rightarrow> []) @
                   (case zpool of Some t \<Rightarrow> parse_zfs_status t | None \<Rightarrow> [])
      in \<lparr>rs_supported = True, rs_available = (arrays \<noteq> []), rs_arrays = arrays\<rparr>)"

section \<open>What every array satisfies\<close>

definition member_ok :: "raid_member \<Rightarrow> bool" where
  "member_ok m \<longleftrightarrow> rm_name m \<noteq> [] \<and> rm_state m \<in> {''up'', ''down'', ''unknown''}"

definition has_down :: "raid_array \<Rightarrow> bool" where
  "has_down a \<longleftrightarrow> (\<exists>m \<in> set (ra_members a). rm_state m = ''down'')"

text \<open>The health an \<open>md\<close> array must have, from its members and the counts of \<open>[devices/active]\<close>: unknown
  without a device count, degraded with a member that is down or with fewer active devices than there
  should be, else healthy.\<close>

definition md_verdict :: "raid_array \<Rightarrow> string" where
  "md_verdict a =
     (if ra_devices a \<le> 0 then ''unknown''
      else if has_down a then ''degraded''
      else if ra_active a \<le> 0 \<or> ra_devices a \<le> ra_active a then ''healthy''
      else ''degraded'')"

text \<open>The health a pool must have: what \<open>zpool\<close> says of it, in any case of letters; when \<open>zpool\<close> says nothing
  known, degraded exactly when a member is down.\<close>

definition pool_verdict :: "raid_array \<Rightarrow> string" where
  "pool_verdict a =
     (if to_upper (ra_status a) \<in> {''DEGRADED'', ''FAULTED'', ''UNAVAIL'', ''OFFLINE'', ''REMOVED'', ''SUSPENDED''}
      then ''degraded''
      else if to_upper (ra_status a) \<noteq> ''ONLINE'' \<and> has_down a then ''degraded''
      else ''healthy'')"

definition md_array_ok :: "raid_array \<Rightarrow> bool" where
  "md_array_ok a \<longleftrightarrow>
     has_prefix (ra_name a) ''md'' \<and>
     list_all member_ok (ra_members a) \<and>
     ra_failed a = count_state ''down'' (ra_members a) \<and>
     (ra_members a \<noteq> [] \<and> ra_devices a > 0 \<longrightarrow> ra_working a + ra_failed a = ra_devices a) \<and>
     ra_health a = md_verdict a"

definition zfs_array_ok :: "raid_array \<Rightarrow> bool" where
  "zfs_array_ok a \<longleftrightarrow>
     list_all member_ok (ra_members a) \<and>
     ra_devices a = int (length (ra_members a)) \<and>
     ra_failed a = count_state ''down'' (ra_members a) \<and>
     ra_working a = count_state ''up'' (ra_members a) \<and> ra_active a = ra_working a \<and>
     ra_health a = pool_verdict a"

lemma fields_from_nonempty: "x \<in> set (fields_from cur s) \<Longrightarrow> x \<noteq> []"
  by (induction cur s rule: fields_from.induct) (auto split: if_splits)

lemma fields_nonempty: "x \<in> set (GoBase.fields s) \<Longrightarrow> x \<noteq> []"
  by (simp add: GoBase.fields_def fields_from_nonempty)

lemma count_state_Nil [simp]: "count_state st [] = 0"
  by (simp add: count_state_def)

lemma count_state_pos: "0 \<le> count_state st ms"
  by (simp add: count_state_def)

lemma has_down_count: "has_down a \<longleftrightarrow> count_state ''down'' (ra_members a) > 0"
  by (auto simp: has_down_def count_state_def filter_empty_conv)

lemma md_health_verdict:
  "ra_failed a = count_state ''down'' (ra_members a) \<Longrightarrow> md_health a = md_verdict a"
  by (auto simp: md_health_def md_verdict_def has_down_count)

lemma verdict_health [simp]:
  "has_down (a\<lparr>ra_health := h\<rparr>) = has_down a" "md_verdict (a\<lparr>ra_health := h\<rparr>) = md_verdict a"
  "pool_verdict (a\<lparr>ra_health := h\<rparr>) = pool_verdict a"
  by (simp_all add: has_down_def md_verdict_def pool_verdict_def)

lemma zfs_health_verdict:
  "pool_verdict a =
     (if zfs_health (ra_status a) = ''unknown'' then if has_down a then ''degraded'' else ''healthy''
      else zfs_health (ra_status a))"
  by (simp add: pool_verdict_def zfs_health_def Let_def)

lemma zfs_health_nonempty: "zfs_health s \<noteq> []"
  by (simp add: zfs_health_def Let_def)

text \<open>An array as long as only lines of its text were read.\<close>

definition md_raw :: "raid_array \<Rightarrow> bool" where
  "md_raw a \<longleftrightarrow> has_prefix (ra_name a) ''md'' \<and> ra_members a = [] \<and> ra_failed a = 0"

lemma md_token_raw: "md_raw (fst as) \<Longrightarrow> md_raw (fst (md_token t as))"
  by (cases as) (auto simp: md_token_def md_raw_def Let_def split: option.splits)

lemma md_tokens_raw: "md_raw (fst as) \<Longrightarrow> md_raw (fst (fold md_token ts as))"
  by (induction ts arbitrary: as) (simp_all add: md_token_raw)

lemma md_sync_raw: "md_raw a \<Longrightarrow> md_raw (md_sync l a)"
  by (simp add: md_sync_def md_raw_def Let_def)

lemma md_detail_raw: "md_raw (fst as) \<Longrightarrow> md_raw (fst (md_detail raw as))"
  using md_tokens_raw [of as "GoBase.fields (trim_space raw)"]
  by (auto simp: md_detail_def Let_def md_sync_raw split: prod.splits)

lemma md_details_raw: "md_raw (fst as) \<Longrightarrow> md_raw (fst (fst (md_details ls as)))"
  by (induction ls as rule: md_details.induct) (simp_all add: md_detail_raw)

lemma parse_md_line_raw: "parse_md_line line = Some (a, ms) \<Longrightarrow> md_raw a"
  by (auto simp: parse_md_line_def md_raw_def empty_array_def Let_def split: list.splits option.splits if_splits prod.splits)

lemma member_names_nonempty: "n \<in> set (member_names fs) \<Longrightarrow> n \<noteq> []"
  by (auto simp: member_names_def List.map_filter_def member_name_def split: option.splits if_splits)

lemma member_ok_state: "n \<noteq> [] \<Longrightarrow> member_ok \<lparr>rm_name = n, rm_state = member_state c\<rparr>"
  by (simp add: member_ok_def member_state_def)

lemma md_members_ok:
  assumes "md_raw a" and "\<And>n. n \<in> set names \<Longrightarrow> n \<noteq> []"
  shows "has_prefix (ra_name (md_members names states a)) ''md''"
    and "list_all member_ok (ra_members (md_members names states a))"
    and "ra_failed (md_members names states a) = count_state ''down'' (ra_members (md_members names states a))"
    and "ra_members (md_members names states a) \<noteq> [] \<and> ra_devices (md_members names states a) > 0 \<longrightarrow>
      ra_working (md_members names states a) + ra_failed (md_members names states a) = ra_devices (md_members names states a)"
proof -
  have "list_all member_ok (map2 (\<lambda>n c. \<lparr>rm_name = n, rm_state = member_state c\<rparr>) names states)"
    using assms(2) by (auto simp: list_all_iff intro!: member_ok_state dest: set_zip_leftD)
  then show "list_all member_ok (ra_members (md_members names states a))"
    using assms(1) by (simp add: md_members_def md_raw_def Let_def)
qed (use assms(1) in \<open>simp_all add: md_members_def md_raw_def Let_def\<close>)

lemma md_finish_ok:
  assumes "md_raw a" and "md_finish (member_names ms) states a = Some b"
  shows "md_array_ok b"
proof -
  let ?a = "md_members (member_names ms) states a"
  have b: "b = ?a\<lparr>ra_health := md_health ?a\<rparr>"
    using assms(2) by (auto simp: md_finish_def Let_def split: if_splits)
  show ?thesis
    unfolding md_array_ok_def b
    using md_members_ok [OF assms(1), of "member_names ms" states] member_names_nonempty
    by (simp add: md_health_verdict)
qed

lemma md_arrays_skip:
  "md_skipped (trim_space raw) \<or> parse_md_line (trim_space raw) = None \<Longrightarrow> md_arrays (raw # ls) = md_arrays ls"
  by (auto simp: Let_def)

lemma md_arrays_array:
  assumes "\<not> md_skipped (trim_space raw)" and "parse_md_line (trim_space raw) = Some (a, ms)"
    and "md_details ls (a, []) = ((a1, states), rest)"
  shows "md_arrays (raw # ls) =
    (case md_finish (member_names ms) states a1 of Some a2 \<Rightarrow> a2 # md_arrays rest | None \<Rightarrow> md_arrays rest)"
  using assms by (simp add: Let_def)

declare md_arrays.simps(2) [simp del]

lemma md_arrays_ok: "list_all md_array_ok (md_arrays ls)"
proof (induction "length ls" arbitrary: ls rule: less_induct)
  case less
  show ?case
  proof (cases ls)
    case (Cons raw ls')
    show ?thesis
    proof (cases "md_skipped (trim_space raw) \<or> parse_md_line (trim_space raw) = None")
      case True
      with less Cons show ?thesis by (simp add: md_arrays_skip)
    next
      case False
      then obtain a ms where line: "\<not> md_skipped (trim_space raw)" "parse_md_line (trim_space raw) = Some (a, ms)"
        by auto
      obtain a1 states rest where details: "md_details ls' (a, []) = ((a1, states), rest)"
        by (metis surj_pair)
      have raw: "md_raw a1"
        using md_details_raw [of "(a, [])" ls'] parse_md_line_raw [OF line(2)] details by simp
      have "list_all md_array_ok (md_arrays rest)"
        using less md_details_shorter [OF details] Cons by simp
      then show ?thesis
        using md_finish_ok [OF raw] unfolding Cons md_arrays_array [OF line details]
        by (cases "md_finish (member_names ms) states a1") auto
    qed
  qed simp
qed

text \<open>A pool while its lines are read, and after.\<close>

definition pool_raw :: "raid_array \<Rightarrow> bool" where
  "pool_raw a \<longleftrightarrow> list_all member_ok (ra_members a) \<and> ra_devices a = 0 \<and> ra_active a = 0 \<and> ra_working a = 0 \<and>
     ra_failed a = 0 \<and> ra_health a = zfs_health (ra_status a)"

definition zfs_ok :: "zfs_parse \<Rightarrow> bool" where
  "zfs_ok z \<longleftrightarrow> list_all zfs_array_ok (zp_res z) \<and> (case zp_cur z of None \<Rightarrow> True | Some a \<Rightarrow> pool_raw a)"

lemma pool_raw_new: "pool_raw (new_pool name)"
  by (simp add: pool_raw_def new_pool_def empty_array_def zfs_health_def)

lemma zfs_settle_ok: "pool_raw a \<Longrightarrow> zfs_array_ok (zfs_settle a)"
proof -
  assume raw: "pool_raw a"
  define a1 where "a1 = a\<lparr>ra_devices := int (length (ra_members a)), ra_working := count_state ''up'' (ra_members a),
    ra_active := count_state ''up'' (ra_members a), ra_failed := count_state ''down'' (ra_members a)\<rparr>"
  have same: "zfs_settle a = (if ra_health a1 = [] \<or> ra_health a1 = ''unknown''
      then a1\<lparr>ra_health := (if ra_failed a1 > 0 then ''degraded'' else ''healthy'')\<rparr> else a1)"
  proof -
    have zero: "ra_devices a = 0" "ra_working a = 0" "ra_active a = 0" "ra_failed a = 0"
      using raw by (simp_all add: pool_raw_def)
    show ?thesis
    proof (cases "ra_members a = []")
      case True
      then have "a1 = a" using zero by (cases a) (simp add: a1_def)
      with True show ?thesis by (simp only: zfs_settle_def Let_def simp_thms if_False if_True)
    next
      case False
      have "ra_devices a = 0 \<and> ra_members a \<noteq> []"
        and "ra_working (a\<lparr>ra_devices := n\<rparr>) = 0 \<and> ra_active (a\<lparr>ra_devices := n\<rparr>) = 0 \<and> ra_members a \<noteq> []" for n
        using zero False by simp_all
      then show ?thesis unfolding zfs_settle_def Let_def a1_def by (simp only: simp_thms if_True raid_array.simps)
    qed
  qed
  have failed: "ra_failed a1 > 0 \<longleftrightarrow> has_down a1" and health: "ra_health a1 = zfs_health (ra_status a1)"
    using raw by (simp_all add: a1_def has_down_count pool_raw_def)
  have ok: "zfs_array_ok (a1\<lparr>ra_health := pool_verdict a1\<rparr>)"
    using raw by (simp add: zfs_array_ok_def pool_raw_def) (simp add: a1_def)
  moreover have "zfs_settle a = a1\<lparr>ra_health := pool_verdict a1\<rparr>"
    using health by (simp add: same failed zfs_health_verdict zfs_health_nonempty)
  ultimately show ?thesis by simp
qed

lemma zfs_flush_ok: "zfs_ok z \<Longrightarrow> zfs_ok (zfs_flush z) \<and> zp_cur (zfs_flush z) = None"
  by (cases "zp_cur z") (simp_all add: zfs_ok_def zfs_flush_def zfs_settle_ok)

lemma zfs_row_raw: "pool_raw a \<Longrightarrow> name \<noteq> [] \<Longrightarrow> pool_raw (zfs_row name state a)"
  by (simp add: zfs_row_def pool_raw_def Let_def member_ok_def zfs_member_state_def)

lemma pool_raw_updates:
  "pool_raw a \<Longrightarrow> pool_raw (a\<lparr>ra_status := s, ra_health := zfs_health s\<rparr>)"
  "pool_raw a \<Longrightarrow> pool_raw (a\<lparr>ra_sync := s, ra_progress := p\<rparr>)"
  by (simp_all add: pool_raw_def)

lemma zfs_table_line_ok:
  assumes "zfs_ok z" and "zp_cur z = Some a"
  shows "zfs_ok (zfs_table_line trim a z)"
proof -
  have "pool_raw a" and res: "list_all zfs_array_ok (zp_res z)" using assms by (simp_all add: zfs_ok_def)
  moreover have "name \<noteq> []" if "GoBase.fields trim = name # fs" for name fs
    using fields_nonempty [of name trim] that by simp
  ultimately show ?thesis
    using assms(2) by (auto simp: zfs_table_line_def zfs_ok_def Let_def zfs_row_raw split: list.splits)
qed

lemma zfs_line_ok:
  assumes "zfs_ok z"
  shows "zfs_ok (zfs_line raw z)"
proof (cases "has_prefix (trim_space (trim_cr raw)) ''pool:''")
  case True
  then show ?thesis
    using zfs_flush_ok [OF assms] by (simp add: zfs_line_def Let_def zfs_ok_def pool_raw_new)
next
  case False
  show ?thesis
  proof (cases "zp_cur z")
    case None
    with False assms show ?thesis by (simp add: zfs_line_def Let_def)
  next
    case (Some a)
    then have a: "pool_raw a" and res: "list_all zfs_array_ok (zp_res z)" using assms by (simp_all add: zfs_ok_def)
    show ?thesis
      using False Some a res assms zfs_table_line_ok [OF assms Some]
      by (simp add: zfs_line_def Let_def) (simp add: zfs_ok_def pool_raw_updates)
  qed
qed

lemma zfs_lines_ok: "zfs_ok z \<Longrightarrow> zfs_ok (fold zfs_line ls z)"
  by (induction ls arbitrary: z) (simp_all add: zfs_line_ok)

lemma parse_zfs_status_ok: "list_all zfs_array_ok (parse_zfs_status s)"
proof -
  define start where "start = \<lparr>zp_res = [], zp_cur = None, zp_config = False, zp_skip = 0\<rparr>"
  have "zfs_ok start" by (simp add: start_def zfs_ok_def)
  then have "zfs_ok (fold zfs_line (split_on CHR 0x0A s) start)" by (rule zfs_lines_ok)
  then show ?thesis
    using zfs_flush_ok unfolding parse_zfs_status_def start_def [symmetric] zfs_ok_def by blast
qed


section \<open>The loops of the source end\<close>

text \<open>The loops of \<open>parseMDStat\<close> as the source has them, on an index that \<open>details\<close> may set back by one; the
  outer one has no bound of its own, so not ending would be the value \<open>None\<close>.\<close>

function md_details_at :: "string list \<Rightarrow> nat \<Rightarrow> raid_array \<times> string \<Rightarrow> (raid_array \<times> string) \<times> nat" where
  "md_details_at lines i as =
     (if length lines \<le> i then (as, length lines)
      else if lines ! i = [] then (as, i)
      else if hd (lines ! i) \<noteq> CHR '' '' \<and> hd (lines ! i) \<noteq> CHR 0x09 then (as, i - 1)
      else md_details_at lines (Suc i) (md_detail (lines ! i) as))"
  by pat_completeness auto
termination
  by (relation "measure (\<lambda>(lines, i, as). length lines - i)") auto

declare md_details_at.simps [simp del]

partial_function (option) md_loop :: "string list \<Rightarrow> nat \<Rightarrow> raid_array list \<Rightarrow> raid_array list option" where
  "md_loop lines i out =
     (if length lines \<le> i then Some out
      else if md_skipped (trim_space (lines ! i)) then md_loop lines (Suc i) out
      else case parse_md_line (trim_space (lines ! i)) of
        None \<Rightarrow> md_loop lines (Suc i) out
      | Some (a, ms) \<Rightarrow>
          (case md_details_at lines (Suc i) (a, []) of
             ((a1, states), j) \<Rightarrow>
               md_loop lines (Suc j)
                 (case md_finish (member_names ms) states a1 of Some a2 \<Rightarrow> out @ [a2] | None \<Rightarrow> out)))"

lemma md_details_at_drop:
  assumes "md_details_at lines i as = (r, j)" and "0 < i" and "i \<le> length lines"
  shows "md_details (drop i lines) as = (r, drop (Suc j) lines) \<and> i \<le> Suc j"
  using assms
proof (induction lines i as rule: md_details_at.induct)
  case (1 lines i as)
  show ?case
  proof (cases "length lines \<le> i")
    case True
    with 1 show ?thesis by (simp add: md_details_at.simps [of lines i])
  next
    case False
    then have drop: "drop i lines = lines ! i # drop (Suc i) lines" by (simp add: Cons_nth_drop_Suc)
    consider "lines ! i = []"
      | "lines ! i \<noteq> []" "hd (lines ! i) \<noteq> CHR '' '' \<and> hd (lines ! i) \<noteq> CHR 0x09"
      | "lines ! i \<noteq> []" "\<not> (hd (lines ! i) \<noteq> CHR '' '' \<and> hd (lines ! i) \<noteq> CHR 0x09)" by blast
    then show ?thesis
    proof cases
      case 1
      with drop have "md_details (drop i lines) as = (as, drop (Suc i) lines)" by simp
      with 1 False "1.prems"(1) show ?thesis by (auto simp: md_details_at.simps [of lines i])
    next
      case 2
      with drop have "md_details (drop i lines) as = (as, drop i lines)" by simp
      with 2 False "1.prems"(1,2) show ?thesis by (auto simp: md_details_at.simps [of lines i])
    next
      case 3
      then have "md_details (drop (Suc i) lines) (md_detail (lines ! i) as) = (r, drop (Suc j) lines) \<and> Suc i \<le> Suc j"
        using False "1.prems" "1.IH" by (auto simp: md_details_at.simps [of lines i])
      with 3 show ?thesis by (auto simp: drop)
    qed
  qed
qed

lemma md_loop_drop: "md_loop lines i out = Some (out @ md_arrays (drop i lines))"
proof (induction "length lines - i" arbitrary: i out rule: less_induct)
  case less
  show ?case
  proof (cases "length lines \<le> i")
    case True
    then show ?thesis by (simp add: md_loop.simps [of lines i])
  next
    case False
    then have drop: "drop i lines = lines ! i # drop (Suc i) lines" by (simp add: Cons_nth_drop_Suc)
    have IH: "md_loop lines k out' = Some (out' @ md_arrays (drop k lines))" if "Suc i \<le> k" for k out'
      using less that False by simp
    show ?thesis
    proof (cases "md_skipped (trim_space (lines ! i)) \<or> parse_md_line (trim_space (lines ! i)) = None")
      case True
      with False IH show ?thesis by (auto simp: md_loop.simps [of lines i] drop md_arrays_skip)
    next
      case line: False
      then obtain a ms where parsed: "\<not> md_skipped (trim_space (lines ! i))"
        "parse_md_line (trim_space (lines ! i)) = Some (a, ms)" by auto
      obtain a1 states j where at: "md_details_at lines (Suc i) (a, []) = ((a1, states), j)"
        by (metis surj_pair)
      then have details: "md_details (drop (Suc i) lines) (a, []) = ((a1, states), drop (Suc j) lines)" and j: "Suc i \<le> Suc j"
        using md_details_at_drop [OF at] False by auto
      show ?thesis
        using False parsed at IH [OF j] unfolding drop md_arrays_array [OF parsed details]
        by (cases "md_finish (member_names ms) states a1") (simp_all add: md_loop.simps [of lines i])
    qed
  qed
qed

text \<open>C15. The loops of the \<open>mdstat\<close> parser end on every text, and compute the arrays of the recursive
  definition.\<close>

theorem md_loop_terminates: "md_loop (split_on CHR 0x0A s) 0 [] = Some (parse_mdstat s)"
  by (simp add: md_loop_drop parse_mdstat_def)

section \<open>Which member failed\<close>

text \<open>The lines of an array in the form the kernel prints them: words without white space.\<close>

definition md_word :: "string \<Rightarrow> bool" where
  "md_word w \<longleftrightarrow> w \<noteq> [] \<and> list_all (\<lambda>c. \<not> digit7 c \<and> \<not> ascii_space c) w"

definition plain_name :: "string \<Rightarrow> bool" where
  "plain_name n \<longleftrightarrow> n \<noteq> [] \<and> CHR ''['' \<notin> set n"

definition indented :: "string \<Rightarrow> bool" where
  "indented d \<longleftrightarrow> d \<noteq> [] \<and> hd d = CHR '' '' \<and> CHR 0x0A \<notin> set d"

text \<open>The fields of the members: a name with its slot in brackets, and whatever mark follows.\<close>

definition slot_fields :: "string list \<Rightarrow> string list \<Rightarrow> string list" where
  "slot_fields ns ks = map2 (\<lambda>n k. n @ CHR ''['' # k) ns ks"

definition array_line :: "string \<Rightarrow> string \<Rightarrow> string \<Rightarrow> string list \<Rightarrow> string" where
  "array_line name status level fs = join_with '' '' (name # '':'' # status # level # fs)"

lemma space_len_plain: "\<not> digit7 c \<Longrightarrow> \<not> ascii_space c \<Longrightarrow> space_len wide (c # s) = 0"
  by (simp add: space_len_def)

lemma fields_from_word:
  "list_all (\<lambda>c. \<not> digit7 c \<and> \<not> ascii_space c) w \<Longrightarrow> fields_from cur (w @ s) = fields_from (rev w @ cur) s"
  by (induction w arbitrary: cur) (simp_all add: space_len_plain)

lemma fields_from_blank: "fields_from cur (CHR '' '' # s) = (if cur = [] then [] else [rev cur]) @ fields_from [] s"
  by (simp add: space_len_def ascii_space_def)

lemma fields_join: "list_all md_word ws \<Longrightarrow> GoBase.fields (join_with '' '' ws) = ws"
proof (induction ws rule: induct_list012)
  case (2 w)
  then show ?case using fields_from_word [of w "[]" "[]"] by (simp add: GoBase.fields_def md_word_def)
next
  case (3 w v ws)
  then show ?case
    using fields_from_word [of w "[]" "CHR '' '' # join_with '' '' (v # ws)"]
    by (simp add: GoBase.fields_def md_word_def fields_from_blank del: fields_from.simps)
qed (simp add: GoBase.fields_def)

lemma join_ends:
  "list_all md_word ws \<Longrightarrow> ws \<noteq> [] \<Longrightarrow>
   join_with '' '' ws \<noteq> [] \<and> hd (join_with '' '' ws) = hd (hd ws) \<and> last (join_with '' '' ws) = last (last ws)"
  by (induction ws rule: induct_list012) (auto simp: md_word_def)

lemma trim_space_plain:
  assumes "s \<noteq> []" and "\<not> digit7 (hd s)" "\<not> ascii_space (hd s)" and "\<not> digit7 (last s)" "\<not> ascii_space (last s)"
  shows "trim_space s = s"
proof -
  have "trim_left s = s"
    using assms by (cases s) (simp_all add: trim_left_def trim_left_wide_stop space_len_plain)
  moreover have "trim_right s = s"
    using assms by (cases s rule: rev_cases) (simp_all add: trim_right_def trim_left_wide_stop space_len_plain)
  ultimately show ?thesis by (simp add: trim_space_def)
qed

lemma md_word_ends:
  "md_word w \<Longrightarrow> \<not> digit7 (hd w) \<and> \<not> ascii_space (hd w) \<and> \<not> digit7 (last w) \<and> \<not> ascii_space (last w)"
  by (auto simp: md_word_def list_all_iff)

lemma trim_space_join: "list_all md_word ws \<Longrightarrow> trim_space (join_with '' '' ws) = join_with '' '' ws"
proof (cases "ws = []")
  case False
  assume words: "list_all md_word ws"
  then have "md_word (hd ws)" "md_word (last ws)" using False by (simp_all add: list_all_iff)
  then show ?thesis
    using join_ends [OF words False] md_word_ends by (intro trim_space_plain) simp_all
qed simp

lemma join_no_newline: "list_all md_word ws \<Longrightarrow> CHR 0x0A \<notin> set (join_with '' '' ws)"
  by (induction ws rule: induct_list012) (auto simp: md_word_def list_all_iff ascii_space_def)

lemma split_on_line: "c \<notin> set l \<Longrightarrow> split_on c (l @ c # s) = l # split_on c s"
  by (induction l) auto

lemma member_names_slots:
  assumes "list_all plain_name ns" and "length ks = length ns"
  shows "member_names (slot_fields ns ks) = ns"
proof -
  have "member_name (n @ CHR ''['' # k) = Some n" if "plain_name n" for n k
    using that by (simp add: member_name_def plain_name_def cut_at_append)
  with assms(2,1) show ?thesis
    by (induction ks ns rule: list_induct2) (simp_all add: member_names_def slot_fields_def List.map_filter_def)
qed

lemma parse_array_line:
  assumes words: "list_all md_word (name # status # level # fs)"
    and name: "has_prefix name ''md''" "\<not> has_suffix name '':''" and level: "md_level level"
  shows "parse_md_line (array_line name status level fs) =
      Some (empty_array\<lparr>ra_name := name, ra_status := status, ra_level := level\<rparr>, fs)"
    and "trim_space (array_line name status level fs) = array_line name status level fs"
    and "\<not> md_skipped (array_line name status level fs)" and "CHR 0x0A \<notin> set (array_line name status level fs)"
proof -
  have all: "list_all md_word (name # '':'' # status # level # fs)"
    using words by (simp add: md_word_def ascii_space_def)
  show "parse_md_line (array_line name status level fs) =
      Some (empty_array\<lparr>ra_name := name, ra_status := status, ra_level := level\<rparr>, fs)"
    using name level fields_join [OF all]
    by (simp add: parse_md_line_def array_line_def Let_def trim_suffix_def)
  show "trim_space (array_line name status level fs) = array_line name status level fs"
    "CHR 0x0A \<notin> set (array_line name status level fs)"
    using trim_space_join [OF all] join_no_newline [OF all] by (simp_all add: array_line_def)
  obtain t where "name = ''md'' @ t" using name(1) by (auto simp: has_prefix_iff)
  then have "\<exists>u. array_line name status level fs = ''md'' @ u" by (simp add: array_line_def)
  then show "\<not> md_skipped (array_line name status level fs)"
    by (auto simp: md_skipped_def has_prefix_def)
qed

text \<open>What the tokens of a detail line do to the states, and that they leave the members alone.\<close>

lemma md_tokens_other: "list_all (\<lambda>w. \<not> has_prefix w ''['') ws \<Longrightarrow> fold md_token ws as = as"
  by (induction ws) (simp_all add: md_token_def split: prod.splits)

lemma bracketed: "has_prefix (CHR ''['' # s @ '']'') ''['' \<and> has_suffix (CHR ''['' # s @ '']'') '']''"
  by (simp add: has_prefix_def has_suffix_def)

lemma md_token_states: "CHR ''/'' \<notin> set st \<Longrightarrow> md_token (CHR ''['' # st @ '']'') (a, old) = (a, st)"
  using bracketed [of st] cut_at_None [of "CHR ''/''" st] by (simp add: md_token_def Let_def)

lemma md_token_count: "CHR ''/'' \<in> set s \<Longrightarrow> \<exists>b. md_token (CHR ''['' # s @ '']'') (a, old) = (b, old)"
  using bracketed [of s] cut_at_None [of "CHR ''/''" s]
  by (cases "cut_at CHR ''/'' s") (auto simp: md_token_def Let_def)

lemma md_detail_states:
  assumes "GoBase.fields (trim_space d) = ws @ [CHR ''['' # n @ '']'', CHR ''['' # st @ '']'']"
    and "list_all (\<lambda>w. \<not> has_prefix w ''['') ws" and "CHR ''/'' \<in> set n" and "CHR ''/'' \<notin> set st"
  shows "\<exists>b. md_detail d (a, old) = (b, st)"
proof -
  obtain b where "md_token (CHR ''['' # n @ '']'') (a, old) = (b, old)"
    using md_token_count [OF assms(3)] by blast
  then show ?thesis
    using assms(1,2) md_token_states [OF assms(4), of b old] by (simp add: md_detail_def Let_def md_tokens_other)
qed

lemma md_detail_bar:
  assumes "GoBase.fields (trim_space p) = (CHR ''['' # bar @ '']'') # ws"
    and "list_all (\<lambda>w. \<not> has_prefix w ''['') ws" and "CHR ''/'' \<notin> set bar"
  shows "\<exists>b. md_detail p (a, old) = (b, bar)"
  using assms(1,2) md_token_states [OF assms(3), of a old] by (simp add: md_detail_def Let_def md_tokens_other)

lemma md_finish_members:
  assumes "names \<noteq> []" and "ra_members a = []"
  shows "\<exists>b. md_finish names states a = Some b \<and>
    map (\<lambda>m. (rm_name m, rm_state m)) (ra_members b) =
      (if states \<noteq> [] \<and> length names = length states then zip names (map member_state states) else [])"
proof -
  have "map ((\<lambda>m. (rm_name m, rm_state m)) \<circ> (\<lambda>(n, c). \<lparr>rm_name = n, rm_state = member_state c\<rparr>)) (zip names states)
      = zip names (map member_state states)"
    by (simp add: zip_map2 case_prod_unfold comp_def)
  then show ?thesis
    using assms by (simp add: md_finish_def md_members_def Let_def)
qed

lemma md_details_indented: "indented x \<Longrightarrow> md_details (x # ls) as = md_details ls (md_detail x as)"
  by (cases x) (simp_all add: indented_def)

lemma md_details_end: "md_details ([] # ls) as = (as, ls)"
  by simp

lemma md_array_members:
  assumes words: "list_all md_word (name # status # level # slot_fields ns ks)"
    and name: "has_prefix name ''md''" "\<not> has_suffix name '':''" and level: "md_level level"
    and slots: "list_all plain_name ns" "length ks = length ns" "ns \<noteq> []"
    and details: "\<And>a. \<exists>b. md_details ls (a, []) = ((b, states), rest)"
  shows "\<exists>a. md_arrays (array_line name status level (slot_fields ns ks) # ls) = a # md_arrays rest \<and>
    map (\<lambda>m. (rm_name m, rm_state m)) (ra_members a) =
      (if states \<noteq> [] \<and> length ns = length states then zip ns (map member_state states) else [])"
proof -
  note line = parse_array_line [OF words name level]
  obtain b where b:
    "md_details ls (empty_array\<lparr>ra_name := name, ra_status := status, ra_level := level\<rparr>, []) = ((b, states), rest)"
    using details by blast
  then have "md_raw b"
    using md_details_raw [of "(empty_array\<lparr>ra_name := name, ra_status := status, ra_level := level\<rparr>, [])" ls]
      parse_md_line_raw [OF line(1)] by simp
  then have none: "ra_members b = []" by (simp add: md_raw_def)
  obtain c where "md_finish ns states b = Some c" and
    "map (\<lambda>m. (rm_name m, rm_state m)) (ra_members c) =
      (if states \<noteq> [] \<and> length ns = length states then zip ns (map member_state states) else [])"
    using md_finish_members [OF slots(3) none, of states] by blast
  then show ?thesis
    using md_arrays_array [OF _ _ b] line member_names_slots [OF slots(1,2)] by simp
qed

text \<open>C38. The states of \<open>mdstat\<close> are listed by slot, the members in any order with their slot in brackets
  behind the name and a failed one marked \<open>(F)\<close>.  Whatever these slots and marks are, the parser pairs the
  \<open>i\<close>th member of the line with the \<open>i\<close>th state; and when a progress bar follows, which is in brackets too and
  not as long as the list of members, no member is reported at all.\<close>

theorem md_members_by_position:
  assumes "list_all md_word (name # status # level # slot_fields ns ks)"
    and "has_prefix name ''md''" "\<not> has_suffix name '':''" and "md_level level"
    and "list_all plain_name ns" "length ks = length ns" "ns \<noteq> []"
    and "indented d" "GoBase.fields (trim_space d) = ws @ [CHR ''['' # count @ '']'', CHR ''['' # states @ '']'']"
    and "list_all (\<lambda>w. \<not> has_prefix w ''['') ws" "CHR ''/'' \<in> set count" "CHR ''/'' \<notin> set states"
    and "length states = length ns"
    and "indented p" "GoBase.fields (trim_space p) = (CHR ''['' # bar @ '']'') # us"
    and "list_all (\<lambda>w. \<not> has_prefix w ''['') us" "CHR ''/'' \<notin> set bar" "length bar \<noteq> length ns"
  shows "(\<exists>a. parse_mdstat (array_line name status level (slot_fields ns ks) @ CHR 0x0A # d @
          [CHR 0x0A, CHR 0x0A] @ rest) = a # parse_mdstat rest \<and>
        map (\<lambda>m. (rm_name m, rm_state m)) (ra_members a) = zip ns (map member_state states)) \<and>
      (\<exists>a. parse_mdstat (array_line name status level (slot_fields ns ks) @ CHR 0x0A # d @ CHR 0x0A # p @
          [CHR 0x0A, CHR 0x0A] @ rest) = a # parse_mdstat rest \<and> ra_members a = [])"
proof (intro conjI)
  note array = md_array_members [OF assms(1-7)]
  note lines = parse_array_line(4) [OF assms(1-4)]
  have no_nl: "CHR 0x0A \<notin> set d" "CHR 0x0A \<notin> set p" using assms(8,14) by (simp_all add: indented_def)
  have some: "states \<noteq> []" using assms(7,13) by auto
  have "\<exists>b. md_details (d # [] # ls) (a, []) = ((b, states), ls)" for a ls
    using md_detail_states [OF assms(9-12), of a "[]"] md_details_indented [OF assms(8)] by fastforce
  from array [OF this] show "\<exists>a. parse_mdstat (array_line name status level (slot_fields ns ks) @ CHR 0x0A # d @
        [CHR 0x0A, CHR 0x0A] @ rest) = a # parse_mdstat rest \<and>
      map (\<lambda>m. (rm_name m, rm_state m)) (ra_members a) = zip ns (map member_state states)"
    using lines no_nl assms(13) some by (simp add: parse_mdstat_def split_on_line)
  have "\<exists>b. md_details (d # p # [] # ls) (a, []) = ((b, bar), ls)" for a ls
  proof -
    obtain b where "md_detail d (a, []) = (b, states)" using md_detail_states [OF assms(9-12)] by blast
    then show ?thesis
      using md_detail_bar [OF assms(15-17), of b states]
      by (auto simp: md_details_indented [OF assms(8)] md_details_indented [OF assms(14)] md_details_end simp del: md_details.simps(2))
  qed
  from array [OF this] show "\<exists>a. parse_mdstat (array_line name status level (slot_fields ns ks) @ CHR 0x0A # d @
        CHR 0x0A # p @ [CHR 0x0A, CHR 0x0A] @ rest) = a # parse_mdstat rest \<and> ra_members a = []"
    using lines no_nl assms(18) by (fastforce simp: parse_mdstat_def split_on_line)
qed

text \<open>The theorem on the line \<open>md0 : active raid1 sdb1[1] sda1[0](F)\<close> with the states \<open>[_U]\<close>: the kernel
  says that the disk in slot 0, \<open>sda1\<close>, has failed; the parser reports \<open>sdb1\<close> as down.\<close>

definition demo_states_line :: string where
  "demo_states_line = ''      976630464 blocks super 1.2 [2/1] [_U]''"

definition demo_bar_line :: string where
  "demo_bar_line = ''      [=>...................]  recovery =  5.9% (58043520/976630464) finish=9.9min''"

definition demo_md_start :: string where
  "demo_md_start = array_line ''md0'' ''active'' ''raid1'' (slot_fields [''sdb1'', ''sda1''] [''1]'', ''0](F)''])"

lemma demo_states_fields: "GoBase.fields (trim_space demo_states_line) =
    [''976630464'', ''blocks'', ''super'', ''1.2''] @ [CHR ''['' # ''2/1'' @ '']'', CHR ''['' # ''_U'' @ '']'']"
  by code_simp

lemma demo_bar_fields: "GoBase.fields (trim_space demo_bar_line) =
    (CHR ''['' # ''=>...................'' @ '']'') #
      [''recovery'', ''='', ''5.9%'', ''(58043520/976630464)'', ''finish=9.9min'']"
  by code_simp

theorem md_members_by_position_witness:
  "demo_md_start = ''md0 : active raid1 sdb1[1] sda1[0](F)'' \<and>
   (\<exists>a. parse_mdstat (demo_md_start @ CHR 0x0A # demo_states_line @ [CHR 0x0A, CHR 0x0A] @ []) = a # parse_mdstat [] \<and>
     map (\<lambda>m. (rm_name m, rm_state m)) (ra_members a) = [(''sdb1'', ''down''), (''sda1'', ''up'')])"
proof (rule conjI)
  show "demo_md_start = ''md0 : active raid1 sdb1[1] sda1[0](F)''" by code_simp
  have zip: "zip [''sdb1'', ''sda1''] (map member_state ''_U'') = [(''sdb1'', ''down''), (''sda1'', ''up'')]"
    by code_simp
  show "\<exists>a. parse_mdstat (demo_md_start @ CHR 0x0A # demo_states_line @ [CHR 0x0A, CHR 0x0A] @ []) = a # parse_mdstat [] \<and>
     map (\<lambda>m. (rm_name m, rm_state m)) (ra_members a) = [(''sdb1'', ''down''), (''sda1'', ''up'')]"
    unfolding demo_md_start_def zip [symmetric]
    by (rule md_members_by_position [THEN conjunct1, OF _ _ _ _ _ _ _ _ demo_states_fields _ _ _ _ _ demo_bar_fields])
      code_simp+
qed

end
