(* ===== verification/HostTypes.thy ===== *)
theory HostTypes
  imports DiskUsage StaticSync RaidParse
begin

text \<open>
  The report types of \<open>internal/metrics/types.go\<close> that the samplers of \<open>internal/collect\<close> fill, with
  their fields in the order of the source.  The eleven counters and rates that \<open>DiskPhysical\<close> embeds and
  \<open>DiskBaseIO\<close> repeats are one record.
\<close>

section \<open>Disks\<close>

record disk_filesystem =
  df_path :: string
  df_device :: string
  df_mount :: string
  df_used :: u64
  df_free :: u64
  df_used_ratio :: float64
  df_inodes_used :: u64
  df_inodes_free :: u64
  df_inodes_ratio :: float64

record disk_io =
  io_read_bytes :: u64
  io_write_bytes :: u64
  io_read_rate :: float64
  io_write_rate :: float64
  io_iops :: float64
  io_read_iops :: float64
  io_write_iops :: float64
  io_util :: float64
  io_queue :: float64
  io_wait_ms :: float64
  io_service_ms :: float64

definition zero_io :: disk_io where
  "zero_io = \<lparr>io_read_bytes = 0, io_write_bytes = 0, io_read_rate = Fin 0, io_write_rate = Fin 0, io_iops = Fin 0,
     io_read_iops = Fin 0, io_write_iops = Fin 0, io_util = Fin 0, io_queue = Fin 0, io_wait_ms = Fin 0, io_service_ms = Fin 0\<rparr>"

record disk_physical =
  dp_name :: string
  dp_path :: string
  dp_ref :: string
  dp_io :: disk_io

record disk_logical =
  dl_kind :: string
  dl_name :: string
  dl_path :: string
  dl_ref :: string
  dl_used :: u64
  dl_free :: u64
  dl_used_ratio :: float64
  dl_health :: string

record disk_mountpoint =
  dm_fstype :: string
  dm_inodes_total :: u64
  dm_inodes_used :: u64
  dm_inodes_free :: u64
  dm_inodes_ratio :: float64

record disk_base_io =
  bi_kind :: string
  bi_name :: string
  bi_path :: string
  bi_ref :: string
  bi_io :: disk_io

record storage_usage =
  su_kind :: string
  su_name :: string
  su_total :: u64
  su_used :: u64
  su_free :: u64
  su_used_ratio :: float64
  su_mounts :: "string list"
  su_model :: string
  su_serial :: string
  su_rotational :: "bool option"
  su_level :: string
  su_health :: string
  su_devices :: "string list"
  su_data_ratio :: float64
  su_meta_ratio :: float64

definition zero_storage :: storage_usage where
  "zero_storage = \<lparr>su_kind = [], su_name = [], su_total = 0, su_used = 0, su_free = 0, su_used_ratio = Fin 0,
     su_mounts = [], su_model = [], su_serial = [], su_rotational = None, su_level = [], su_health = [],
     su_devices = [], su_data_ratio = Fin 0, su_meta_ratio = Fin 0\<rparr>"

section \<open>Network and pressure\<close>

record net_io =
  ni_name :: string
  ni_bytes_recv :: u64
  ni_bytes_sent :: u64
  ni_recv_rate :: float64
  ni_sent_rate :: float64
  ni_packets_recv :: u64
  ni_packets_sent :: u64
  ni_recv_packet_rate :: float64
  ni_sent_packet_rate :: float64
  ni_err_in :: u64
  ni_err_out :: u64
  ni_drop_in :: u64
  ni_drop_out :: u64

record pressure_stats =
  ps_avg10 :: float64
  ps_avg60 :: float64
  ps_avg300 :: float64
  ps_total :: u64

record pressure_resource =
  pr_status :: string
  pr_some :: "pressure_stats option"
  pr_full :: "pressure_stats option"

section \<open>The RAID part of a report\<close>

record metrics_array =
  ma_name :: string
  ma_status :: string
  ma_active :: int
  ma_working :: int
  ma_failed :: int
  ma_health :: string
  ma_members :: "raid_member list"
  ma_sync :: string
  ma_progress :: string

section \<open>Small conversions of \<open>collect/utils.go\<close>\<close>

text \<open>\<open>parseU64\<close>: the value \<open>ParseUint\<close> returns beside an error, 0 at the first byte that is no digit
  and the largest number as soon as the digits overflow.\<close>

fun parse_u64_from :: "int \<Rightarrow> string \<Rightarrow> u64" where
  "parse_u64_from n [] = of_int n"
| "parse_u64_from n (c # s) =
     (if \<not> is_digit c then 0
      else if 2 ^ 64 \<le> 10 * n + digit_val c then - 1
      else parse_u64_from (10 * n + digit_val c) s)"

definition parse_u64 :: "string \<Rightarrow> u64" where
  "parse_u64 s = parse_u64_from 0 (trim_space s)"

definition parse_bool01 :: "string \<Rightarrow> bool option" where
  "parse_bool01 s =
     (let t = trim_space s in if t = ''1'' then Some True else if t = ''0'' then Some False else None)"

text \<open>The sum of the two counters wraps around before the division.\<close>

definition ratio_from_used_free :: "u64 \<Rightarrow> u64 \<Rightarrow> float64" where
  "ratio_from_used_free used free =
     (let den = float_of_int (uint (used + free))
      in if float_le den (Fin 0) then Fin 0 else float_div (float_of_int (uint used)) den)"

definition safe_diff :: "u64 \<Rightarrow> u64 \<Rightarrow> u64" where
  "safe_diff now prev = (if prev \<le> now then now - prev else 0)"

definition ceil_rate :: "float64 \<Rightarrow> float64" where
  "ceil_rate v = (if float_le v (Fin 0) then Fin 0 else float_ceil v)"

definition ceil_ms3 :: "float64 \<Rightarrow> float64" where
  "ceil_ms3 v =
     (if float_le v (Fin 0) then Fin 0
      else float_div (float_ceil (float_mul v (Fin 1000))) (Fin 1000))"

end
