(* ===== verification/DiskLayout.thy ===== *)
theory DiskLayout
  imports HostTypes
begin

text \<open>
  How the disks of a report are named and ordered (\<open>collect/disk_device.go\<close>, \<open>disk_kind.go\<close>,
  \<open>disk_filesystem.go\<close>, \<open>storage_policy.go\<close>, \<open>disk_logical.go\<close>, \<open>disk_baseio.go\<close>), as built for Linux.
  \<open>resolve\<close> stands for \<open>filepath.EvalSymlinks\<close> (\<open>None\<close> on an error).
\<close>

section \<open>Device names\<close>

text \<open>\<open>filepath.Base\<close>.\<close>

definition path_base :: "string \<Rightarrow> string" where
  "path_base p =
     (if p = [] then ''.''
      else let q = rev (dropWhile (\<lambda>c. c = CHR ''/'') (rev p))
           in if q = [] then ''/'' else rev (takeWhile (\<lambda>c. c \<noteq> CHR ''/'') (rev q)))"

type_synonym resolver = "string \<Rightarrow> string option"

definition normalize_device_name :: "resolver \<Rightarrow> string \<Rightarrow> string" where
  "normalize_device_name resolve name0 =
     (let name = trim_space name0
      in if name = [] then []
         else if has_prefix name ''/dev/'' then
           path_base (case resolve name of Some r \<Rightarrow> r | None \<Rightarrow> name)
         else path_base name)"

definition is_fuse_device :: "resolver \<Rightarrow> string \<Rightarrow> bool" where
  "is_fuse_device resolve name \<longleftrightarrow> normalize_device_name resolve name = ''fuse''"

fun unique_from :: "string list \<Rightarrow> string list \<Rightarrow> string list" where
  "unique_from seen [] = []"
| "unique_from seen (s # ss) =
     (let t = trim_space s
      in if t = [] \<or> t \<in> set seen then unique_from seen ss else t # unique_from (t # seen) ss)"

definition unique_strings :: "string list \<Rightarrow> string list" where
  "unique_strings ss = unique_from [] ss"

definition build_raid_devices :: "resolver \<Rightarrow> raid_snapshot \<Rightarrow> (string, string list) gomap" where
  "build_raid_devices resolve raid =
     fold (\<lambda>a out.
       let name = normalize_device_name resolve (ra_name a)
       in if name = [] then out
          else AList.update name
            (unique_strings (filter (\<lambda>d. d \<noteq> []) (map (\<lambda>m. normalize_device_name resolve (rm_name m)) (ra_members a)))) out)
       (rs_arrays raid) []"

definition first_mount :: "string list \<Rightarrow> string" where
  "first_mount mps = (case mps of [] \<Rightarrow> [] | m # ms \<Rightarrow> fold min ms m)"

definition build_device_path :: "string \<Rightarrow> string" where
  "build_device_path name =
     (if name = [] then [] else if contains name ''/'' then [] else ''/dev/'' @ name)"

type_synonym aliases = "(string, string) gomap"

text \<open>The entries of \<open>/dev/mapper\<close> with whether each is a directory; \<open>None\<close> when it cannot be read.\<close>

definition build_mapper_aliases :: "resolver \<Rightarrow> (string \<times> bool) list option \<Rightarrow> aliases" where
  "build_mapper_aliases resolve ents =
     (case ents of
        None \<Rightarrow> []
      | Some es \<Rightarrow>
          fold (\<lambda>(name, dir) out.
            if dir then out
            else let p = ''/dev/mapper/'' @ name
                 in case resolve p of
                      None \<Rightarrow> out
                    | Some r \<Rightarrow> if map_of out r = None then AList.update r p out else out) es [])"

definition mapper_alias :: "aliases \<Rightarrow> string \<Rightarrow> string \<Rightarrow> string" where
  "mapper_alias als kname raw =
     (if has_prefix raw ''/dev/mapper/'' then raw
      else let k = trim_space kname
           in if k = [] then []
              else case map_of als (''/dev/'' @ k) of Some a \<Rightarrow> a | None \<Rightarrow> [])"

definition build_ref :: "string \<Rightarrow> string \<Rightarrow> string" where
  "build_ref kind name0 =
     (let name = trim_space name0 in if kind = [] \<or> name = [] then [] else kind @ '':'' @ name)"

section \<open>Kinds\<close>

datatype logical_action = LogicalSkip | LogicalAdd | LogicalDisk

record kind_row =
  ki_logical :: string
  ki_ref :: string
  ki_mounts :: bool
  ki_device_path :: bool
  ki_action :: logical_action
  ki_higher :: bool
  ki_raid :: bool
  ki_base :: string
  ki_score :: int

definition plain_kind :: "string \<Rightarrow> string \<Rightarrow> kind_row" where
  "plain_kind logical ref =
     \<lparr>ki_logical = logical, ki_ref = ref, ki_mounts = False, ki_device_path = False, ki_action = LogicalSkip,
      ki_higher = False, ki_raid = False, ki_base = [], ki_score = 0\<rparr>"

definition disk_kind_table :: "(string, kind_row) gomap" where
  "disk_kind_table =
     [(''disk'', (plain_kind ''disk'' ''disk'')\<lparr>ki_mounts := True, ki_device_path := True, ki_action := LogicalDisk\<rparr>),
      (''raid'', (plain_kind ''raid_md'' ''raid'')\<lparr>ki_mounts := True, ki_device_path := True, ki_action := LogicalAdd,
         ki_raid := True, ki_score := - 1\<rparr>),
      (''raid_md'', (plain_kind ''raid_md'' ''raid'')\<lparr>ki_mounts := True, ki_device_path := True, ki_higher := True,
         ki_base := ''raid'', ki_score := 40\<rparr>),
      (''zfs_pool'', (plain_kind ''zfs_pool'' ''zfs'')\<lparr>ki_mounts := True, ki_action := LogicalAdd, ki_higher := True,
         ki_raid := True, ki_base := ''logical'', ki_score := 50\<rparr>),
      (''lvm_vg'', (plain_kind ''lvm_vg'' ''lvm_vg'')\<lparr>ki_mounts := True, ki_action := LogicalAdd, ki_higher := True, ki_score := - 1\<rparr>),
      (''lvm_thinpool'', (plain_kind ''lvm_thinpool'' ''lvm_thinpool'')\<lparr>ki_mounts := True, ki_action := LogicalAdd, ki_score := - 1\<rparr>)]"

definition kind_info :: "string \<Rightarrow> kind_row" where
  "kind_info kind =
     (case map_of disk_kind_table kind of
        Some row \<Rightarrow> row
      | None \<Rightarrow> (plain_kind kind kind)\<lparr>ki_device_path := True, ki_score := - 1\<rparr>)"

definition role_priority :: "string \<Rightarrow> int" where
  "role_priority role = (if role = ''primary'' then 0 else if role = ''secondary'' then 1 else 2)"

definition kind_priority :: "string \<Rightarrow> int" where
  "kind_priority kind =
     (if kind = ''raid'' then 0 else if kind = ''logical'' then 1 else if kind = ''physical'' then 2 else 9)"

section \<open>File systems and the policy for them\<close>

definition is_pseudo_fs :: "disk_usage \<Rightarrow> bool" where
  "is_pseudo_fs u =
     (let ft = to_lower (trim_space (du_fstype u))
      in if ft = [] then False
         else if is_pseudo_fs_type ft then True
         else let mp = trim_space (du_mount u)
              in has_prefix mp ''/proc'' \<or> has_prefix mp ''/sys'' \<or> has_prefix mp ''/dev'')"

definition drop_fs :: "disk_usage \<Rightarrow> bool" where
  "drop_fs u =
     (let dev = trim_space (du_device u); mp = trim_space (du_mount u)
      in to_lower (trim_space (du_fstype u)) = ''zfs'' \<and> dev \<noteq> [] \<and>
         (dev = ''rpool'' \<or> has_prefix dev ''rpool/'') \<and> mp \<noteq> ''/'' \<and> mp \<noteq> ''/var/lib/vz'')"

definition fs_role_score :: "disk_usage \<Rightarrow> int option" where
  "fs_role_score u =
     (let mp = trim_space (du_mount u)
      in if mp = ''/'' then Some 100
         else if mp = ''/var/lib/vz'' \<or> has_prefix mp ''/mnt/pve/'' then Some 50
         else None)"

definition has_mountpoint :: "string list \<Rightarrow> string list \<Rightarrow> bool" where
  "has_mountpoint mps wants \<longleftrightarrow> list_ex (\<lambda>mp. trim_space mp \<in> set wants) mps"

definition skip_disk :: "resolver \<Rightarrow> string \<Rightarrow> string list \<Rightarrow> bool" where
  "skip_disk resolve device mps \<longleftrightarrow> is_fuse_device resolve device \<or> has_mountpoint mps [''/boot'', ''/boot/efi'']"

definition filter_filesystems :: "resolver \<Rightarrow> disk_usage list \<Rightarrow> aliases \<Rightarrow> disk_usage list" where
  "filter_filesystems resolve fs als =
     map (\<lambda>u. let alias = mapper_alias als (normalize_device_name resolve (du_device u)) (du_device u)
              in if alias = [] then u else u\<lparr>du_device := alias\<rparr>)
       (filter (\<lambda>u. \<not> is_pseudo_fs u \<and> \<not> drop_fs u) fs)"

definition mount_meta :: "disk_usage \<Rightarrow> disk_mountpoint" where
  "mount_meta u =
     (let inodes = du_inodes_total u > 0
      in \<lparr>dm_fstype = du_fstype u, dm_inodes_total = (if inodes then du_inodes_total u else 0),
          dm_inodes_used = (if inodes then du_inodes_used u else 0), dm_inodes_free = (if inodes then du_inodes_free u else 0),
          dm_inodes_ratio = (if inodes then du_inodes_ratio u else Fin 0)\<rparr>)"

definition build_mount_meta :: "disk_usage list \<Rightarrow> (string, disk_mountpoint) gomap" where
  "build_mount_meta fs =
     fold (\<lambda>u out. let mp = trim_space (du_mount u) in if mp = [] then out else AList.update mp (mount_meta u) out) fs []"

definition build_mounts :: "string list \<Rightarrow> (string, disk_mountpoint) gomap \<Rightarrow> (string, disk_mountpoint) gomap" where
  "build_mounts mps meta =
     fold (\<lambda>mp0 out.
       let mp = trim_space mp0
       in if mp = [] then out
          else case map_of meta mp of Some v \<Rightarrow> AList.update mp v out | None \<Rightarrow> out) mps []"

section \<open>Logical disks\<close>

record logical =
  lg_kind :: string
  lg_name :: string
  lg_path :: string
  lg_ref :: string
  lg_total :: u64
  lg_used :: u64
  lg_free :: u64
  lg_used_ratio :: float64
  lg_health :: string
  lg_mount :: string
  lg_mounts :: "(string, disk_mountpoint) gomap"
  lg_devices :: "string list"

text \<open>One turn of the loop of \<open>buildLogical\<close> over the storages, up to what it does with the entry.\<close>

definition logical_of ::
  "resolver \<Rightarrow> aliases \<Rightarrow> (string, string list) gomap \<Rightarrow> (string, disk_mountpoint) gomap
   \<Rightarrow> storage_usage \<Rightarrow> (logical_action \<times> logical) option" where
  "logical_of resolve als raids meta s =
     (let raw = trim_space (su_name s);
          name0 = normalize_device_name resolve raw
      in if name0 = [] \<or> (su_kind s = ''disk'' \<and> skip_disk resolve name0 (su_mounts s)) then None
         else
           (let sk = kind_info (su_kind s);
                kind = ki_logical sk;
                info = kind_info kind;
                alias = mapper_alias als name0 raw;
                name = (if alias \<noteq> [] then path_base alias else name0);
                path = (if has_prefix raw ''/dev/mapper/'' then raw
                        else if alias \<noteq> [] then alias
                        else if ki_device_path info then build_device_path name0 else []);
                devices = (if su_devices s \<noteq> [] then unique_strings (su_devices s) else []);
                members = (case map_of raids (normalize_device_name resolve name) of Some ds \<Rightarrow> ds | None \<Rightarrow> []);
                ld = \<lparr>lg_kind = kind, lg_name = name, lg_path = path, lg_ref = build_ref (ki_ref info) name,
                      lg_total = su_total s, lg_used = su_used s, lg_free = su_free s,
                      lg_used_ratio = su_used_ratio s, lg_health = su_health s,
                      lg_mount = (if ki_mounts info then first_mount (su_mounts s) else []),
                      lg_mounts = (if ki_mounts info then build_mounts (su_mounts s) meta else []),
                      lg_devices = (if ki_action sk = LogicalAdd \<and> ki_raid sk \<and> devices = [] then members else devices)\<rparr>
            in Some (ki_action sk, ld)))"

definition logical_key :: "logical \<Rightarrow> string" where
  "logical_key l = lg_kind l @ '':'' @ lg_name l"

text \<open>The closure \<open>add\<close>, on the set of keys it has seen and the list it fills.\<close>

definition add_logical :: "logical \<Rightarrow> string list \<times> logical list \<Rightarrow> string list \<times> logical list" where
  "add_logical l st =
     (case st of (seen, out) \<Rightarrow>
        if logical_key l \<in> set seen then (seen, out) else (logical_key l # seen, out @ [l]))"

definition logical_turn ::
  "(logical_action \<times> logical) option \<Rightarrow> (string list \<times> logical list) \<times> logical list
   \<Rightarrow> (string list \<times> logical list) \<times> logical list" where
  "logical_turn entry st =
     (case st of (added, disks) \<Rightarrow>
        (case entry of
           Some (LogicalAdd, l) \<Rightarrow> (add_logical l added, disks)
         | Some (LogicalDisk, l) \<Rightarrow> (added, disks @ [l])
         | _ \<Rightarrow> (added, disks)))"

definition empty_disk :: "logical \<Rightarrow> bool" where
  "empty_disk d \<longleftrightarrow> lg_used d = 0 \<and> lg_free d = 0 \<and> lg_used_ratio d = Fin 0"

definition logical_entries ::
  "resolver \<Rightarrow> storage_usage list \<Rightarrow> raid_snapshot \<Rightarrow> disk_usage list \<Rightarrow> aliases \<Rightarrow> logical list" where
  "logical_entries resolve storages raid fs als =
     (let raids = build_raid_devices resolve raid; meta = build_mount_meta fs
      in case fold logical_turn (map (logical_of resolve als raids meta) storages) (([], []), []) of
           (added, disks) \<Rightarrow>
             if list_ex (\<lambda>l. ki_higher (kind_info (lg_kind l))) (snd added) then snd added
             else snd (fold add_logical (filter (\<lambda>d. \<not> empty_disk d) disks) added))"

definition build_logical ::
  "resolver \<Rightarrow> storage_usage list \<Rightarrow> raid_snapshot \<Rightarrow> disk_usage list \<Rightarrow> aliases \<Rightarrow> logical list" where
  "build_logical resolve storages raid fs als =
     sort_key (\<lambda>l. (lg_kind l, lg_name l)) (logical_entries resolve storages raid fs als)"

definition build_physical :: "(string, disk_io) gomap \<Rightarrow> disk_physical list" where
  "build_physical m =
     map (\<lambda>name. \<lparr>dp_name = name, dp_path = build_device_path name, dp_ref = build_ref ''disk'' name,
        dp_io = (case map_of m name of Some io \<Rightarrow> io | None \<Rightarrow> zero_io)\<rparr>) (sort (map fst m))"

definition build_logical_metrics :: "logical list \<Rightarrow> disk_logical list" where
  "build_logical_metrics ls =
     map (\<lambda>l. \<lparr>dl_kind = lg_kind l, dl_name = lg_name l, dl_path = lg_path l, dl_ref = lg_ref l, dl_used = lg_used l,
        dl_free = lg_free l, dl_used_ratio = lg_used_ratio l, dl_health = lg_health l\<rparr>) ls"

section \<open>Base I/O\<close>

record zfs_io_rates =
  zr_read_bps :: float64
  zr_write_bps :: float64
  zr_read_iops :: float64
  zr_write_iops :: float64

definition base_candidate :: "logical \<Rightarrow> static_baseio option" where
  "base_candidate l =
     (let info = kind_info (lg_kind l); base = ki_base info
      in if trim_space (lg_name l) = [] \<or> base = [] then None
         else Some \<lparr>sb_kind = base, sb_name = lg_name l,
           sb_path = (if base = ''raid'' then build_device_path (lg_name l) else lg_path l),
           sb_ref = build_ref (ki_ref info) (lg_name l), sb_role = []\<rparr>)"

definition build_base_candidates :: "logical list \<Rightarrow> static_baseio list" where
  "build_base_candidates logical = List.map_filter base_candidate logical"

text \<open>The search of \<open>logicalNameForFS\<close> by mount point: the highest score, then the smallest name.\<close>

definition mounted_on :: "string \<Rightarrow> logical \<Rightarrow> bool" where
  "mounted_on mp l \<longleftrightarrow> lg_mount l = mp \<or> map_of (lg_mounts l) mp \<noteq> None"

definition better_mount :: "string \<Rightarrow> logical \<Rightarrow> string \<times> int \<Rightarrow> string \<times> int" where
  "better_mount mp l best =
     (case best of (best_name, best_score) \<Rightarrow>
        let name = trim_space (lg_name l); score = ki_score (kind_info (lg_kind l))
        in if name = [] \<or> \<not> mounted_on mp l \<or> score < 0 then best
           else if score > best_score \<or> (score = best_score \<and> (best_name = [] \<or> name < best_name)) then (name, score)
           else best)"

definition owns_device :: "resolver \<Rightarrow> string \<Rightarrow> logical \<Rightarrow> bool" where
  "owns_device resolve dev l \<longleftrightarrow>
     (lg_kind l = ''raid_md'' \<or> lg_kind l = ''disk'') \<and>
     (normalize_device_name resolve (lg_name l) = normalize_device_name resolve dev \<or> lg_name l = dev \<or> lg_path l = dev)"

definition name_by_mount :: "disk_usage \<Rightarrow> logical list \<Rightarrow> string" where
  "name_by_mount u logical =
     (let mp0 = trim_space (du_mount u); mp = (if mp0 = [] then trim_space (du_path u) else mp0)
      in if mp = [] then [] else fst (fold (better_mount mp) logical ([], - 2)))"

definition logical_name_for_fs :: "resolver \<Rightarrow> disk_usage \<Rightarrow> logical list \<Rightarrow> string" where
  "logical_name_for_fs resolve u logical =
     (let dev = trim_space (du_device u)
      in if to_lower (trim_space (du_fstype u)) = ''zfs'' then
           (let pool = takeWhile (\<lambda>c. c \<noteq> CHR ''/'') dev
            in if pool = [] then []
               else case List.find (\<lambda>l. lg_kind l = ''zfs_pool'' \<and> lg_name l = pool) logical of
                      Some l \<Rightarrow> lg_name l | None \<Rightarrow> [])
         else case (if normalize_device_name resolve dev = [] then None
                    else List.find (owns_device resolve dev) logical) of
                Some l \<Rightarrow> lg_name l
              | None \<Rightarrow> name_by_mount u logical)"

definition score_of :: "(string, int) gomap \<Rightarrow> string \<Rightarrow> int" where
  "score_of scores name = (case map_of scores name of Some n \<Rightarrow> n | None \<Rightarrow> 0)"

definition build_role_scores :: "resolver \<Rightarrow> logical list \<Rightarrow> disk_usage list \<Rightarrow> (string, int) gomap" where
  "build_role_scores resolve logical fs =
     fold (\<lambda>u scores.
       case fs_role_score u of
         None \<Rightarrow> scores
       | Some score \<Rightarrow>
           (let name = logical_name_for_fs resolve u logical
            in if name \<noteq> [] \<and> score > score_of scores name then AList.update name score scores else scores)) fs []"

text \<open>The first loop of \<open>applyRoles\<close>: the index of the best score seen so far.\<close>

fun best_index :: "(string, int) gomap \<Rightarrow> nat \<Rightarrow> static_baseio list \<Rightarrow> nat \<times> int \<Rightarrow> nat" where
  "best_index scores i [] best = fst best"
| "best_index scores i (c # cs) best =
     best_index scores (Suc i) cs
       (if score_of scores (sb_name c) > snd best then (i, score_of scores (sb_name c)) else best)"

definition apply_roles :: "(string, int) gomap \<Rightarrow> static_baseio list \<Rightarrow> static_baseio list" where
  "apply_roles scores cs =
     (let best = best_index scores 0 cs (0, 0)
      in map (\<lambda>(i, c). c\<lparr>sb_role := (if i = best then ''primary'' else ''secondary'')\<rparr>) (enumerate 0 cs))"

definition base_order :: "static_baseio \<Rightarrow> int \<times> int \<times> string" where
  "base_order c = (role_priority (sb_role c), kind_priority (sb_kind c), sb_name c)"

definition sort_base_io :: "resolver \<Rightarrow> static_baseio list \<Rightarrow> logical list \<Rightarrow> disk_usage list \<Rightarrow> static_baseio list" where
  "sort_base_io resolve cs logical fs =
     sort_key base_order (apply_roles (build_role_scores resolve logical fs) cs)"

definition build_static_base_io :: "resolver \<Rightarrow> logical list \<Rightarrow> disk_usage list \<Rightarrow> static_baseio list" where
  "build_static_base_io resolve logical fs = sort_base_io resolve (build_base_candidates logical) logical fs"

definition physical_candidates :: "disk_physical list \<Rightarrow> static_baseio list" where
  "physical_candidates ps =
     map (\<lambda>p. \<lparr>sb_kind = ''physical'', sb_name = dp_name p, sb_path = build_device_path (dp_name p),
        sb_ref = build_ref ''disk'' (dp_name p), sb_role = []\<rparr>)
       (filter (\<lambda>p. trim_space (dp_name p) \<noteq> []) ps)"

definition physical_map :: "resolver \<Rightarrow> disk_physical list \<Rightarrow> (string, disk_io) gomap" where
  "physical_map resolve ps =
     fold (\<lambda>p out. let name = normalize_device_name resolve (dp_name p)
                   in if name = [] then out else AList.update name (dp_io p) out) ps []"

definition zfs_io :: "zfs_io_rates \<Rightarrow> disk_io" where
  "zfs_io r = zero_io\<lparr>io_read_rate := zr_read_bps r, io_write_rate := zr_write_bps r,
     io_read_iops := zr_read_iops r, io_write_iops := zr_write_iops r,
     io_iops := float_add (zr_read_iops r) (zr_write_iops r)\<rparr>"

definition fill_base_io ::
  "resolver \<Rightarrow> (string, disk_io) gomap \<Rightarrow> (string, zfs_io_rates) gomap \<Rightarrow> static_baseio \<Rightarrow> disk_base_io" where
  "fill_base_io resolve phys rates c =
     (let b = \<lparr>bi_kind = sb_kind c, bi_name = sb_name c, bi_path = sb_path c, bi_ref = sb_ref c, bi_io = zero_io\<rparr>;
          st = (if sb_kind c = ''physical'' \<or> sb_kind c = ''raid''
                then map_of phys (normalize_device_name resolve (sb_name c)) else None)
      in case st of
           Some io \<Rightarrow> b\<lparr>bi_io := io\<rparr>
         | None \<Rightarrow>
             if sb_kind c = ''logical'' then
               (case map_of rates (sb_name c) of Some r \<Rightarrow> b\<lparr>bi_io := zfs_io r\<rparr> | None \<Rightarrow> b)
             else b)"

definition build_base_io ::
  "resolver \<Rightarrow> logical list \<Rightarrow> disk_physical list \<Rightarrow> disk_usage list \<Rightarrow> (string, zfs_io_rates) gomap \<Rightarrow> disk_base_io list" where
  "build_base_io resolve logical physical fs rates =
     (let cs = build_base_candidates logical;
          all = (if cs = [] then physical_candidates physical else cs)
      in map (fill_base_io resolve (physical_map resolve physical) rates) (sort_base_io resolve all logical fs))"

section \<open>The order of logical disks\<close>

text \<open>What \<open>add\<close> keeps: the seen keys are those of the list, each once.\<close>

definition added_ok :: "string list \<times> logical list \<Rightarrow> bool" where
  "added_ok st \<longleftrightarrow> distinct (map logical_key (snd st)) \<and> set (fst st) = logical_key ` set (snd st)"

lemma add_logical_ok: "added_ok st \<Longrightarrow> added_ok (add_logical l st)"
  by (cases st) (auto simp: added_ok_def add_logical_def)

lemma add_logicals_ok: "added_ok st \<Longrightarrow> added_ok (fold add_logical ls st)"
  by (induction ls arbitrary: st) (simp_all add: add_logical_ok)

lemma add_logical_set: "set (snd (add_logical l st)) \<subseteq> insert l (set (snd st))"
  by (cases st) (auto simp: add_logical_def)

lemma add_logicals_set: "set (snd (fold add_logical ls st)) \<subseteq> set ls \<union> set (snd st)"
proof (induction ls arbitrary: st)
  case (Cons l ls)
  then show ?case using add_logical_set [of l st] by fastforce
qed simp

lemma add_logical_grows: "set (snd st) \<subseteq> set (snd (add_logical l st))"
  by (cases st) (auto simp: add_logical_def)

lemma add_logicals_grow: "set (snd st) \<subseteq> set (snd (fold add_logical ls st))"
proof (induction ls arbitrary: st)
  case (Cons l ls)
  have "set (snd st) \<subseteq> set (snd (add_logical l st))" by (rule add_logical_grows)
  also have "\<dots> \<subseteq> set (snd (fold add_logical ls (add_logical l st)))" by (rule Cons.IH)
  finally show ?case by simp
qed simp

text \<open>The kinds of the two lists the loop fills.\<close>

definition turn_ok :: "(string list \<times> logical list) \<times> logical list \<Rightarrow> bool" where
  "turn_ok st \<longleftrightarrow> added_ok (fst st) \<and> (\<forall>l \<in> set (snd (fst st)). lg_kind l \<noteq> ''disk'') \<and> (\<forall>l \<in> set (snd st). lg_kind l = ''disk'')"

definition entry_ok :: "(logical_action \<times> logical) option \<Rightarrow> bool" where
  "entry_ok e \<longleftrightarrow> (case e of
     Some (LogicalAdd, l) \<Rightarrow> lg_kind l \<noteq> ''disk'' | Some (LogicalDisk, l) \<Rightarrow> lg_kind l = ''disk'' | _ \<Rightarrow> True)"

lemma kind_info_rows:
  "ki_action (kind_info kind) = LogicalAdd \<Longrightarrow> ki_logical (kind_info kind) \<noteq> ''disk''"
  "ki_action (kind_info kind) = LogicalDisk \<Longrightarrow> ki_logical (kind_info kind) = ''disk''"
  by (auto simp: kind_info_def disk_kind_table_def plain_kind_def split: if_splits)

lemma disk_not_higher: "\<not> ki_higher (kind_info ''disk'')"
  by (simp add: kind_info_def disk_kind_table_def plain_kind_def)

lemma logical_of_entry: "entry_ok (logical_of resolve als raids meta s)"
  using kind_info_rows [of "su_kind s"]
  by (cases "ki_action (kind_info (su_kind s))") (auto simp: entry_ok_def logical_of_def Let_def)

lemma logical_turn_ok: "entry_ok e \<Longrightarrow> turn_ok st \<Longrightarrow> turn_ok (logical_turn e st)"
proof -
  assume e: "entry_ok e" and st: "turn_ok st"
  obtain added disks where st_eq: "st = (added, disks)" by (metis surj_pair)
  show ?thesis
  proof (cases e)
    case (Some x)
    obtain act l where x: "x = (act, l)" by (metis surj_pair)
    show ?thesis
      using e st add_logical_set [of l added] add_logical_ok [of added l] unfolding Some x st_eq
      by (cases act) (auto simp: entry_ok_def turn_ok_def logical_turn_def)
  qed (use st in \<open>simp add: st_eq logical_turn_def\<close>)
qed

lemma logical_turns_ok: "list_all entry_ok es \<Longrightarrow> turn_ok st \<Longrightarrow> turn_ok (fold logical_turn es st)"
  by (induction es arbitrary: st) (simp_all add: logical_turn_ok)

lemma logical_entries_ok:
  "distinct (map logical_key (logical_entries resolve storages raid fs als)) \<and>
   (list_ex (\<lambda>l. ki_higher (kind_info (lg_kind l))) (logical_entries resolve storages raid fs als) \<longrightarrow>
    (\<forall>l \<in> set (logical_entries resolve storages raid fs als). lg_kind l \<noteq> ''disk''))"
proof -
  define es where "es = map (logical_of resolve als (build_raid_devices resolve raid) (build_mount_meta fs)) storages"
  obtain added disks where run: "fold logical_turn es (([], []), []) = (added, disks)" by (metis surj_pair)
  have "list_all entry_ok es" by (simp add: es_def list_all_iff logical_of_entry)
  moreover have "turn_ok (([], []), [])" by (simp add: turn_ok_def added_ok_def)
  ultimately have ok: "turn_ok (added, disks)" using logical_turns_ok run by metis
  define out where "out = fold add_logical (filter (\<lambda>d. \<not> empty_disk d) disks) added"
  have entries: "logical_entries resolve storages raid fs als =
      (if list_ex (\<lambda>l. ki_higher (kind_info (lg_kind l))) (snd added) then snd added else snd out)"
    using run by (simp add: logical_entries_def es_def out_def Let_def)
  show ?thesis
  proof (cases "list_ex (\<lambda>l. ki_higher (kind_info (lg_kind l))) (snd added)")
    case True
    with entries ok show ?thesis by (simp add: turn_ok_def added_ok_def)
  next
    case False
    have "added_ok out" using ok add_logicals_ok by (simp add: turn_ok_def out_def)
    moreover have "\<not> ki_higher (kind_info (lg_kind l))" if "l \<in> set (snd out)" for l
    proof -
      have "l \<in> set disks \<or> l \<in> set (snd added)"
        using that add_logicals_set [of "filter (\<lambda>d. \<not> empty_disk d) disks" added] by (auto simp: out_def)
      then show ?thesis using False ok disk_not_higher by (auto simp: turn_ok_def list_ex_iff)
    qed
    ultimately show ?thesis using False by (auto simp: entries added_ok_def list_ex_iff)
  qed
qed

text \<open>The logical disks of a report come in strictly increasing order of kind and name, so the order of
  the storages behind them, or of two equal entries, does not show; and a whole disk is listed only when
  no array, pool or volume group is, so no space is counted twice.\<close>

theorem logical_disks_ordered:
  "sorted_wrt (<) (map (\<lambda>l. (lg_kind l, lg_name l)) (build_logical resolve storages raid fs als)) \<and>
   \<not> (list_ex (\<lambda>l. ki_higher (kind_info (lg_kind l))) (build_logical resolve storages raid fs als) \<and>
     list_ex (\<lambda>l. lg_kind l = ''disk'') (build_logical resolve storages raid fs als))"
proof -
  let ?es = "logical_entries resolve storages raid fs als"
  have "distinct (map logical_key ?es)" using logical_entries_ok by blast
  then have "inj_on (\<lambda>l. (lg_kind l, lg_name l)) (set ?es)" and dist: "distinct ?es"
    by (auto simp: distinct_map inj_on_def logical_key_def)
  then have "distinct (map (\<lambda>l. (lg_kind l, lg_name l)) (build_logical resolve storages raid fs als))"
    by (simp add: build_logical_def distinct_map)
  then have "sorted_wrt (<) (map (\<lambda>l. (lg_kind l, lg_name l)) (build_logical resolve storages raid fs als))"
    by (simp add: strict_sorted_iff build_logical_def)
  moreover have "\<not> (list_ex (\<lambda>l. ki_higher (kind_info (lg_kind l))) ?es \<and> list_ex (\<lambda>l. lg_kind l = ''disk'') ?es)"
    using logical_entries_ok [of resolve storages raid fs als] by (auto simp: list_ex_iff)
  ultimately show ?thesis by (simp add: build_logical_def list_ex_iff)
qed

section \<open>The primary entry\<close>

lemma best_index_range: "fst best < i + length cs \<Longrightarrow> best_index scores i cs best < i + length cs"
proof (induction cs arbitrary: i best)
  case (Cons c cs)
  have "best_index scores (Suc i) cs best' < Suc i + length cs" if "fst best' < Suc i + length cs" for best'
    using Cons.IH that by blast
  then show ?case using Cons.prems by simp
qed simp

lemma apply_roles_map:
  "apply_roles scores cs =
     map (\<lambda>i. (cs ! i)\<lparr>sb_role := (if i = best_index scores 0 cs (0, 0) then ''primary'' else ''secondary'')\<rparr>) [0..<length cs]"
  by (rule nth_equalityI) (simp_all add: apply_roles_def Let_def nth_enumerate_eq)

lemma filter_upt_single: "b < n \<Longrightarrow> filter (\<lambda>i. i = b) [0..<n] = [b]"
  by (induction n) (auto simp: less_Suc_eq filter_empty_conv)

lemma one_primary:
  assumes "cs \<noteq> []"
  shows "length (filter (\<lambda>c. sb_role c = ''primary'') (apply_roles scores cs)) = 1"
proof -
  let ?b = "best_index scores 0 cs (0, 0)"
  have "?b < length cs" using best_index_range [of "(0, 0)" 0 cs scores] assms by simp
  then have "filter (\<lambda>i. i = ?b) [0..<length cs] = [?b]" by (rule filter_upt_single)
  then show ?thesis
    by (simp add: apply_roles_map filter_map o_def)
qed

lemma apply_roles_roles: "c \<in> set (apply_roles scores cs) \<Longrightarrow> sb_role c = ''primary'' \<or> sb_role c = ''secondary''"
  by (auto simp: apply_roles_map split: if_splits)

lemma apply_roles_Nil [simp]: "apply_roles scores [] = []"
  by (simp add: apply_roles_def)

lemma base_order_primary: "base_order a \<le> base_order b \<Longrightarrow> sb_role b = ''primary'' \<Longrightarrow> sb_role a = ''primary'' \<or> role_priority (sb_role a) \<le> 0"
  by (auto simp: base_order_def role_priority_def split: if_splits)

text \<open>The base I/O list of a report is empty or begins with its one primary entry, whatever the scores of
  the file systems are.\<close>

theorem base_io_primary_first:
  assumes "sort_base_io resolve cs logical fs = c # rest"
  shows "sb_role c = ''primary'' \<and> list_all (\<lambda>d. sb_role d = ''secondary'') rest"
proof -
  define xs where "xs = apply_roles (build_role_scores resolve logical fs) cs"
  have sorted: "sort_key base_order xs = c # rest" using assms by (simp add: sort_base_io_def xs_def)
  then have mset: "mset (c # rest) = mset xs" by (metis mset_sort)
  have "cs \<noteq> []"
  proof
    assume "cs = []"
    with sorted show False by (simp add: xs_def)
  qed
  then have "length (filter (\<lambda>d. sb_role d = ''primary'') xs) = 1" by (simp add: xs_def one_primary)
  then have one: "length (filter (\<lambda>d. sb_role d = ''primary'') (c # rest)) = 1"
    using mset by (metis mset_filter size_mset)
  have roles: "sb_role d = ''primary'' \<or> sb_role d = ''secondary''" if "d \<in> set (c # rest)" for d
    using that mset_eq_setD [OF mset] apply_roles_roles by (auto simp: xs_def)
  have le: "\<forall>d \<in> set rest. base_order c \<le> base_order d"
    using sorted_sort_key [of base_order xs] by (simp add: sorted)
  have first: "sb_role c = ''primary''"
  proof (rule ccontr)
    assume no: "sb_role c \<noteq> ''primary''"
    then have "filter (\<lambda>d. sb_role d = ''primary'') rest \<noteq> []" using one by auto
    then obtain d where "d \<in> set rest" "sb_role d = ''primary''" by (auto simp: filter_empty_conv)
    with le no show False
      using base_order_primary [of c d] roles [of c] by (auto simp: role_priority_def)
  qed
  then have "filter (\<lambda>d. sb_role d = ''primary'') rest = []" using one by simp
  with first roles show ?thesis by (auto simp: list_all_iff filter_empty_conv)
qed

section \<open>The two reports agree\<close>

text \<open>
  The metrics report builds its logical disks from the filtered file systems, the static report from all of
  them, so the mount points they attach may differ.  The base I/O entries do not.  The relation: equal but
  for the attached mount points, which agree on the mount points \<open>M\<close> in question.
\<close>

definition alike :: "string set \<Rightarrow> logical \<Rightarrow> logical \<Rightarrow> bool" where
  "alike M l l' \<longleftrightarrow> l\<lparr>lg_mounts := []\<rparr> = l'\<lparr>lg_mounts := []\<rparr> \<and> (\<forall>mp \<in> M. mounted_on mp l = mounted_on mp l')"

lemma alike_fields:
  assumes "alike M l l'"
  shows "lg_kind l' = lg_kind l" and "lg_name l' = lg_name l" and "lg_path l' = lg_path l"
    and "empty_disk l' = empty_disk l" and "logical_key l' = logical_key l"
proof -
  have eq: "l\<lparr>lg_mounts := []\<rparr> = l'\<lparr>lg_mounts := []\<rparr>" using assms by (simp add: alike_def)
  have f: "g l' = g l" if "\<And>x ms. g (x\<lparr>lg_mounts := ms\<rparr>) = g x" for g :: "logical \<Rightarrow> 'b"
    using that eq by metis
  show k: "lg_kind l' = lg_kind l" and n: "lg_name l' = lg_name l" and "lg_path l' = lg_path l"
    by (rule f; simp)+
  show "empty_disk l' = empty_disk l" by (rule f) (simp add: empty_disk_def)
  show "logical_key l' = logical_key l" using k n by (simp add: logical_key_def)
qed

lemma build_mounts_dom:
  "map_of (build_mounts mps meta) mp \<noteq> None \<longleftrightarrow> mp \<noteq> [] \<and> mp \<in> trim_space ` set mps \<and> map_of meta mp \<noteq> None"
proof -
  define step where "step = (\<lambda>mp0 out. let mp = trim_space mp0 in if mp = [] then out
    else case map_of meta mp of Some v \<Rightarrow> AList.update mp v out | None \<Rightarrow> (out :: (string, disk_mountpoint) gomap))"
  have one: "map_of (step m out) mp \<noteq> None \<longleftrightarrow>
      map_of out mp \<noteq> None \<or> mp \<noteq> [] \<and> mp = trim_space m \<and> map_of meta mp \<noteq> None" for m out
    by (auto simp: step_def Let_def split: option.splits)
  have "map_of (fold step mps out) mp \<noteq> None \<longleftrightarrow>
      map_of out mp \<noteq> None \<or> mp \<noteq> [] \<and> mp \<in> trim_space ` set mps \<and> map_of meta mp \<noteq> None" for out
  proof (induction mps arbitrary: out)
    case (Cons m mps)
    show ?case unfolding fold.simps comp_def Cons.IH one by auto
  qed simp
  then show ?thesis by (simp add: build_mounts_def step_def)
qed

lemma build_mount_meta_dom:
  "map_of (build_mount_meta fs) mp \<noteq> None \<longleftrightarrow> mp \<noteq> [] \<and> mp \<in> (\<lambda>u. trim_space (du_mount u)) ` set fs"
proof -
  define step where "step = (\<lambda>u out. let mp = trim_space (du_mount u) in if mp = [] then out
    else AList.update mp (mount_meta u) (out :: (string, disk_mountpoint) gomap))"
  have one: "map_of (step u out) mp \<noteq> None \<longleftrightarrow> map_of out mp \<noteq> None \<or> mp \<noteq> [] \<and> mp = trim_space (du_mount u)" for u out
    by (auto simp: step_def Let_def)
  have "map_of (fold step fs out) mp \<noteq> None \<longleftrightarrow>
      map_of out mp \<noteq> None \<or> mp \<noteq> [] \<and> mp \<in> (\<lambda>u. trim_space (du_mount u)) ` set fs" for out
  proof (induction fs arbitrary: out)
    case (Cons u fs)
    show ?case unfolding fold.simps comp_def Cons.IH one by auto
  qed simp
  then show ?thesis by (simp add: build_mount_meta_def step_def)
qed

text \<open>Entries of the two loops, and the lists they fill.\<close>

definition meta_agree :: "string set \<Rightarrow> (string, disk_mountpoint) gomap \<Rightarrow> (string, disk_mountpoint) gomap \<Rightarrow> bool" where
  "meta_agree M meta meta' \<longleftrightarrow> (\<forall>mp \<in> M. (map_of meta mp \<noteq> None) = (map_of meta' mp \<noteq> None))"

lemma logical_of_alike:
  assumes "meta_agree M meta meta'"
  shows "rel_option (rel_prod (=) (alike M)) (logical_of resolve als raids meta s) (logical_of resolve als raids meta' s)"
proof -
  have same: "(map_of (build_mounts mps meta) mp \<noteq> None) = (map_of (build_mounts mps meta') mp \<noteq> None)"
    if "mp \<in> M" for mp mps
    using assms that unfolding build_mounts_dom meta_agree_def by blast
  have "alike M \<lparr>lg_kind = a, lg_name = n, lg_path = p, lg_ref = r, lg_total = t, lg_used = u, lg_free = f,
        lg_used_ratio = q, lg_health = h, lg_mount = m, lg_mounts = (if b then build_mounts mps meta else []), lg_devices = ds\<rparr>
      \<lparr>lg_kind = a, lg_name = n, lg_path = p, lg_ref = r, lg_total = t, lg_used = u, lg_free = f,
        lg_used_ratio = q, lg_health = h, lg_mount = m, lg_mounts = (if b then build_mounts mps meta' else []), lg_devices = ds\<rparr>"
    for a n p r t u f q h m b mps ds
    using same by (cases b) (simp_all add: alike_def mounted_on_def)
  then show ?thesis by (simp add: logical_of_def Let_def)
qed

definition alike_state :: "string set \<Rightarrow> string list \<times> logical list \<Rightarrow> string list \<times> logical list \<Rightarrow> bool" where
  "alike_state M st st' \<longleftrightarrow> fst st = fst st' \<and> list_all2 (alike M) (snd st) (snd st')"

lemma add_logical_alike:
  "alike M l l' \<Longrightarrow> alike_state M st st' \<Longrightarrow> alike_state M (add_logical l st) (add_logical l' st')"
  by (cases st; cases st') (auto simp: alike_state_def add_logical_def alike_fields intro!: list_all2_appendI)

lemma add_logicals_alike:
  "list_all2 (alike M) ls ls' \<Longrightarrow> alike_state M st st' \<Longrightarrow> alike_state M (fold add_logical ls st) (fold add_logical ls' st')"
  by (induction ls ls' arbitrary: st st' rule: list_all2_induct) (simp_all add: add_logical_alike)

lemma logical_turn_alike:
  assumes "rel_option (rel_prod (=) (alike M)) e e'" and "alike_state M a a'" and "list_all2 (alike M) ds ds'"
  shows "alike_state M (fst (logical_turn e (a, ds))) (fst (logical_turn e' (a', ds')))
    \<and> list_all2 (alike M) (snd (logical_turn e (a, ds))) (snd (logical_turn e' (a', ds')))"
proof (cases e)
  case None
  with assms show ?thesis by (simp add: logical_turn_def)
next
  case (Some x)
  with assms(1) obtain act l l' where e: "e = Some (act, l)" "e' = Some (act, l')" and l: "alike M l l'"
    by (cases x; cases e') auto
  show ?thesis
    using assms(2,3) l unfolding e
    by (cases act) (simp_all add: logical_turn_def add_logical_alike list_all2_appendI)
qed

lemma logical_turns_alike:
  assumes "list_all2 (rel_option (rel_prod (=) (alike M))) es es'"
    and "alike_state M (fst st) (fst st')" and "list_all2 (alike M) (snd st) (snd st')"
  shows "alike_state M (fst (fold logical_turn es st)) (fst (fold logical_turn es' st'))
    \<and> list_all2 (alike M) (snd (fold logical_turn es st)) (snd (fold logical_turn es' st'))"
  using assms
proof (induction es es' arbitrary: st st' rule: list_all2_induct)
  case (Cons e es e' es')
  then show ?case
    using logical_turn_alike [of M e e' "fst st" "fst st'" "snd st" "snd st'"] by simp
qed simp

lemma filter_alike:
  "list_all2 (alike M) ls ls' \<Longrightarrow>
   list_all2 (alike M) (filter (\<lambda>d. \<not> empty_disk d) ls) (filter (\<lambda>d. \<not> empty_disk d) ls')"
  by (induction ls ls' rule: list_all2_induct) (simp_all add: alike_fields)

lemma higher_alike:
  "list_all2 (alike M) ls ls' \<Longrightarrow>
   list_ex (\<lambda>l. ki_higher (kind_info (lg_kind l))) ls' = list_ex (\<lambda>l. ki_higher (kind_info (lg_kind l))) ls"
  by (induction ls ls' rule: list_all2_induct) (simp_all add: alike_fields)

lemma insort_alike:
  assumes "list_all2 (alike M) ls ls'" and "alike M l l'"
  shows "list_all2 (alike M) (insort_key (\<lambda>l. (lg_kind l, lg_name l)) l ls) (insort_key (\<lambda>l. (lg_kind l, lg_name l)) l' ls')"
  using assms
proof (induction ls ls' rule: list_all2_induct)
  case (Cons x xs y ys)
  have "lg_kind y = lg_kind x" "lg_name y = lg_name x" "lg_kind l' = lg_kind l" "lg_name l' = lg_name l"
    using alike_fields [OF Cons.hyps(1)] alike_fields [OF Cons.prems] by simp_all
  with Cons show ?case by simp
qed simp

lemma sort_alike:
  "list_all2 (alike M) ls ls' \<Longrightarrow>
   list_all2 (alike M) (sort_key (\<lambda>l. (lg_kind l, lg_name l)) ls) (sort_key (\<lambda>l. (lg_kind l, lg_name l)) ls')"
proof (induction ls ls' rule: list_all2_induct)
  case (Cons l ls l' ls')
  then show ?case by (simp add: insort_alike sort_key_simps)
qed simp

lemma build_logical_alike:
  assumes "meta_agree M (build_mount_meta fs) (build_mount_meta fs')"
  shows "list_all2 (alike M) (build_logical resolve storages raid fs als) (build_logical resolve storages raid fs' als)"
proof -
  define es where "es fs = map (logical_of resolve als (build_raid_devices resolve raid) (build_mount_meta fs)) storages" for fs
  have es: "list_all2 (rel_option (rel_prod (=) (alike M))) (es fs) (es fs')"
    by (simp add: es_def list_all2_conv_all_nth logical_of_alike [OF assms])
  obtain a ds a' ds' where run: "fold logical_turn (es fs) (([], []), []) = (a, ds)"
    "fold logical_turn (es fs') (([], []), []) = (a', ds')" by (metis surj_pair)
  then have a: "alike_state M a a'" and ds: "list_all2 (alike M) ds ds'"
    using logical_turns_alike [OF es, of "(([], []), [])" "(([], []), [])"] by (simp_all add: alike_state_def)
  have "list_all2 (alike M) (snd a) (snd a')" using a by (simp add: alike_state_def)
  moreover have "list_all2 (alike M) (snd (fold add_logical (filter (\<lambda>d. \<not> empty_disk d) ds) a))
      (snd (fold add_logical (filter (\<lambda>d. \<not> empty_disk d) ds') a'))"
    using add_logicals_alike [OF filter_alike [OF ds] a] by (simp add: alike_state_def)
  ultimately have "list_all2 (alike M) (logical_entries resolve storages raid fs als) (logical_entries resolve storages raid fs' als)"
    using run higher_alike [of M "snd a" "snd a'"]
    by (simp add: logical_entries_def es_def Let_def)
  then show ?thesis unfolding build_logical_def by (rule sort_alike)
qed

lemma base_candidates_alike:
  "list_all2 (alike M) ls ls' \<Longrightarrow> build_base_candidates ls' = build_base_candidates ls"
proof (induction ls ls' rule: list_all2_induct)
  case (Cons l ls l' ls')
  have "base_candidate l' = base_candidate l"
    by (simp only: base_candidate_def alike_fields [OF Cons.hyps(1)])
  then show ?case
    using Cons by (cases "base_candidate l") (simp_all add: build_base_candidates_def List.map_filter_simps)
qed (simp add: build_base_candidates_def List.map_filter_simps)

lemma find_alike:
  assumes "list_all2 (alike M) ls ls'" and "\<And>l l'. alike M l l' \<Longrightarrow> P l' = P l"
  shows "(case List.find P ls' of Some l \<Rightarrow> lg_name l | None \<Rightarrow> d) = (case List.find P ls of Some l \<Rightarrow> lg_name l | None \<Rightarrow> d)"
  using assms(1)
proof (induction ls ls' rule: list_all2_induct)
  case (Cons l ls l' ls')
  then show ?case using assms(2) [OF Cons.hyps(1)] alike_fields(2) [OF Cons.hyps(1)] by simp
qed simp

lemma better_mounts_alike:
  "list_all2 (alike M) ls ls' \<Longrightarrow> mp \<in> M \<Longrightarrow> fold (better_mount mp) ls' best = fold (better_mount mp) ls best"
proof (induction ls ls' arbitrary: best rule: list_all2_induct)
  case (Cons l ls l' ls')
  have "mounted_on mp l' = mounted_on mp l" using Cons.hyps(1) Cons.prems by (simp add: alike_def)
  then have "better_mount mp l' best = better_mount mp l best"
    using alike_fields [OF Cons.hyps(1)] by (simp add: better_mount_def)
  then show ?case using Cons by simp
qed simp

lemma logical_name_alike:
  assumes ls: "list_all2 (alike M) ls ls'" and mp: "trim_space (du_mount u) \<in> M" "trim_space (du_mount u) \<noteq> []"
  shows "logical_name_for_fs resolve u ls' = logical_name_for_fs resolve u ls"
proof -
  let ?dev = "trim_space (du_device u)" and ?pool = "takeWhile (\<lambda>c. c \<noteq> CHR ''/'') (trim_space (du_device u))"
  have mount: "name_by_mount u ls' = name_by_mount u ls"
    using better_mounts_alike [OF ls mp(1)] mp(2) by (simp add: name_by_mount_def)
  have "(case List.find (\<lambda>l. lg_kind l = ''zfs_pool'' \<and> lg_name l = ?pool) ls' of Some l \<Rightarrow> lg_name l | None \<Rightarrow> []) =
      (case List.find (\<lambda>l. lg_kind l = ''zfs_pool'' \<and> lg_name l = ?pool) ls of Some l \<Rightarrow> lg_name l | None \<Rightarrow> [])"
    by (rule find_alike [OF ls]) (simp add: alike_fields)
  moreover have "(case List.find (owns_device resolve ?dev) ls' of Some l \<Rightarrow> lg_name l | None \<Rightarrow> name_by_mount u ls) =
      (case List.find (owns_device resolve ?dev) ls of Some l \<Rightarrow> lg_name l | None \<Rightarrow> name_by_mount u ls)"
    by (rule find_alike [OF ls]) (simp add: owns_device_def alike_fields)
  ultimately show ?thesis
    unfolding logical_name_for_fs_def Let_def mount by (cases "normalize_device_name resolve ?dev = []") simp_all
qed

lemma role_scores_alike:
  assumes ls: "list_all2 (alike M) ls ls'"
    and "list_all (\<lambda>u. trim_space (du_mount u) \<in> M \<and> trim_space (du_mount u) \<noteq> []) fs"
  shows "build_role_scores resolve ls' fs = build_role_scores resolve ls fs"
proof -
  have "logical_name_for_fs resolve u ls' = logical_name_for_fs resolve u ls" if "u \<in> set fs" for u
    using assms(2) that by (intro logical_name_alike [OF ls]) (simp_all add: list_all_iff)
  then show ?thesis
    unfolding build_role_scores_def by (intro fold_cong refl ext) (simp split: option.split)
qed

lemma filter_filesystems_mount:
  "u \<in> set (filter_filesystems resolve fs als) \<Longrightarrow> du_mount u \<in> du_mount ` set fs"
  by (auto simp: filter_filesystems_def Let_def)

lemma fill_base_io_entry [simp]:
  "bi_kind (fill_base_io resolve phys rates c) = sb_kind c" "bi_name (fill_base_io resolve phys rates c) = sb_name c"
  "bi_path (fill_base_io resolve phys rates c) = sb_path c" "bi_ref (fill_base_io resolve phys rates c) = sb_ref c"
  by (simp_all add: fill_base_io_def Let_def split: option.split)

text \<open>The base I/O of the metrics report lists the same entries in the same order as the base I/O of the
  static report built from the same storages and file systems, as long as there is an array or a pool,
  although the two start from different lists of file systems.\<close>

theorem base_io_reports_agree:
  assumes mounts: "list_all (\<lambda>u. trim_space (du_mount u) \<noteq> []) fs"
    and some: "build_base_candidates (build_logical resolve storages raid fs als) \<noteq> []"
  shows "map (\<lambda>b. (bi_kind b, bi_name b, bi_path b, bi_ref b))
      (build_base_io resolve (build_logical resolve storages raid (filter_filesystems resolve fs als) als) physical
        (filter_filesystems resolve fs als) rates)
    = map (\<lambda>c. (sb_kind c, sb_name c, sb_path c, sb_ref c))
      (build_static_base_io resolve (build_logical resolve storages raid fs als) (filter_filesystems resolve fs als))"
proof -
  let ?fs = "filter_filesystems resolve fs als"
  define M where "M = (\<lambda>u. trim_space (du_mount u)) ` set ?fs"
  have sub: "M \<subseteq> (\<lambda>u. trim_space (du_mount u)) ` set fs"
    using filter_filesystems_mount by (force simp: M_def)
  then have nonempty: "mp \<noteq> []" if "mp \<in> M" for mp
    using mounts that subsetD [OF sub that] by (auto simp: list_all_iff)
  have "meta_agree M (build_mount_meta fs) (build_mount_meta ?fs)"
    using sub nonempty unfolding meta_agree_def build_mount_meta_dom M_def by blast
  then have ls: "list_all2 (alike M) (build_logical resolve storages raid fs als) (build_logical resolve storages raid ?fs als)"
    by (rule build_logical_alike)
  have "list_all (\<lambda>u. trim_space (du_mount u) \<in> M \<and> trim_space (du_mount u) \<noteq> []) ?fs"
    using nonempty by (auto simp: M_def list_all_iff)
  then have "build_role_scores resolve (build_logical resolve storages raid ?fs als) ?fs =
      build_role_scores resolve (build_logical resolve storages raid fs als) ?fs"
    by (rule role_scores_alike [OF ls])
  then show ?thesis
    using base_candidates_alike [OF ls] some
    by (simp add: build_base_io_def build_static_base_io_def sort_base_io_def Let_def o_def)
qed

section \<open>Witnesses\<close>

definition demo_md_storage :: storage_usage where
  "demo_md_storage = zero_storage\<lparr>su_kind := ''raid'', su_name := ''md0'', su_total := 100, su_mounts := [''/'']\<rparr>"

definition demo_root :: disk_usage where
  "demo_root = \<lparr>du_path = ''/'', du_device = ''/dev/md0'', du_mount = ''/'', du_fstype = ''ext4'', du_total = 100,
     du_used = 40, du_free = 60, du_used_ratio = Fin (2 / 5), du_inodes_total = 0, du_inodes_used = 0,
     du_inodes_free = 0, du_inodes_ratio = Fin 0\<rparr>"

definition no_raid :: raid_snapshot where
  "no_raid = \<lparr>rs_supported = True, rs_available = False, rs_arrays = []\<rparr>"

lemma demo_md_static:
  "map (\<lambda>c. (sb_kind c, sb_name c, sb_role c)) (build_static_base_io (\<lambda>_. None)
     (build_logical (\<lambda>_. None) [demo_md_storage] no_raid [demo_root] []) [demo_root]) = [(''raid'', ''md0'', ''primary'')]"
  by code_simp

lemma demo_md_candidates:
  "map sb_name (build_base_candidates (build_logical (\<lambda>_. None) [demo_md_storage] no_raid [demo_root] [])) = [''md0'']"
  by code_simp

theorem base_io_primary_first_witness:
  "\<exists>c. sort_base_io (\<lambda>_. None) [\<lparr>sb_kind = ''raid'', sb_name = ''md0'', sb_path = [], sb_ref = [], sb_role = []\<rparr>] [] [] = [c]
     \<and> sb_role c = ''primary''"
proof -
  obtain c where c: "sort_base_io (\<lambda>_. None) [\<lparr>sb_kind = ''raid'', sb_name = ''md0'', sb_path = [], sb_ref = [], sb_role = []\<rparr>] [] [] = [c]"
    by (simp add: sort_base_io_def apply_roles_def)
  then show ?thesis using base_io_primary_first [OF c] by blast
qed

theorem base_io_reports_agree_witness:
  "map (\<lambda>b. (bi_kind b, bi_name b, bi_path b, bi_ref b))
      (build_base_io (\<lambda>_. None) (build_logical (\<lambda>_. None) [demo_md_storage] no_raid (filter_filesystems (\<lambda>_. None) [demo_root] []) [])
        [] (filter_filesystems (\<lambda>_. None) [demo_root] []) [])
    = map (\<lambda>c. (sb_kind c, sb_name c, sb_path c, sb_ref c))
      (build_static_base_io (\<lambda>_. None) (build_logical (\<lambda>_. None) [demo_md_storage] no_raid [demo_root] [])
        (filter_filesystems (\<lambda>_. None) [demo_root] []))"
proof (rule base_io_reports_agree)
  show "list_all (\<lambda>u. trim_space (du_mount u) \<noteq> []) [demo_root]" by code_simp
  show "build_base_candidates (build_logical (\<lambda>_. None) [demo_md_storage] no_raid [demo_root] []) \<noteq> []"
    using demo_md_candidates by auto
qed

end
