(* ===== verification/DiskStorage.thy ===== *)
theory DiskStorage
  imports DiskLayout
begin

text \<open>
  The storages of a Linux host (\<open>collect/storage_disk_linux.go\<close>, \<open>storage_lsblk_linux.go\<close>,
  \<open>storage_zfs_linux.go\<close>, \<open>storage_lvm_linux.go\<close>, \<open>storage_disk_fallback.go\<close>, \<open>storage_linux.go\<close>): the device
  tree of \<open>lsblk\<close>, the pools of \<open>zpool list\<close>, and the cache file of the LVM helper.  Decoding JSON is outside;
  \<open>read n path\<close> is the answer of the usage reader to the \<open>n\<close>-th question of a collection.
\<close>

section \<open>The device tree\<close>

datatype lsblk_dev = LsblkDev
  (lb_name: string) (lb_kname: string) (lb_type: string) (lb_size: string) (lb_model: string) (lb_serial: string)
  (lb_rota: string) (lb_mount: string) (lb_fstype: string) (lb_children: "lsblk_dev list")

definition is_raid_node :: "lsblk_dev \<Rightarrow> bool" where
  "is_raid_node d \<longleftrightarrow>
     has_prefix (trim_space (lb_kname d)) ''md'' \<or> has_prefix (to_lower (trim_space (lb_type d))) ''raid''"

definition own_mount :: "lsblk_dev \<Rightarrow> string list" where
  "own_mount d =
     (if trim_space (lb_mount d) \<noteq> [] \<and> trim_space (lb_fstype d) \<noteq> [] then [trim_space (lb_mount d)] else [])"

fun collect_mounts :: "lsblk_dev \<Rightarrow> string list" and collect_mounts_of :: "lsblk_dev list \<Rightarrow> string list" where
  "collect_mounts (LsblkDev n k t sz mo se ro mp fs cs) =
     own_mount (LsblkDev n k t sz mo se ro mp fs cs) @ collect_mounts_of cs"
| "collect_mounts_of [] = []"
| "collect_mounts_of (c # cs) = collect_mounts c @ collect_mounts_of cs"

type_synonym usage_oracle = "nat \<Rightarrow> string \<Rightarrow> usage_answer"

record space =
  sc_used :: u64
  sc_free :: u64
  sc_total :: u64

text \<open>The loop of \<open>mountUsage\<close>; the sums of the three counters wrap around.\<close>

fun add_mounts :: "usage_oracle \<Rightarrow> (string, disk_usage) gomap \<Rightarrow> string list \<Rightarrow> space \<times> nat \<Rightarrow> space \<times> nat" where
  "add_mounts read by_mount [] st = st"
| "add_mounts read by_mount (mp # mps) (c, n) =
     (case map_of by_mount mp of
        Some u \<Rightarrow> add_mounts read by_mount mps
          (\<lparr>sc_used = sc_used c + du_used u, sc_free = sc_free c + du_free u, sc_total = sc_total c + du_total u\<rparr>, n)
      | None \<Rightarrow>
          (case read n mp of
             Inr u \<Rightarrow> add_mounts read by_mount mps
               (\<lparr>sc_used = sc_used c + us_used u, sc_free = sc_free c + us_free u, sc_total = sc_total c + us_total u\<rparr>, Suc n)
           | Inl _ \<Rightarrow> add_mounts read by_mount mps (c, Suc n)))"

definition mount_usage ::
  "usage_oracle \<Rightarrow> (string, disk_usage) gomap \<Rightarrow> lsblk_dev \<Rightarrow> nat \<Rightarrow> string list \<times> space \<times> nat" where
  "mount_usage read by_mount d n =
     (let mps = sort (remdups (collect_mounts d))
      in (mps, add_mounts read by_mount mps (\<lparr>sc_used = 0, sc_free = 0, sc_total = 0\<rparr>, n)))"

definition dev_name :: "lsblk_dev \<Rightarrow> string" where
  "dev_name d = (if lb_kname d = [] then lb_name d else lb_kname d)"

definition with_space :: "lsblk_dev \<Rightarrow> string list \<Rightarrow> space \<Rightarrow> storage_usage \<Rightarrow> storage_usage" where
  "with_space d mps c s =
     s\<lparr>su_name := dev_name d, su_total := (if sc_total c = 0 then parse_u64 (lb_size d) else sc_total c),
       su_used := sc_used c, su_free := sc_free c, su_used_ratio := ratio_from_used_free (sc_used c) (sc_free c),
       su_mounts := mps\<rparr>"

definition with_model :: "lsblk_dev \<Rightarrow> storage_usage \<Rightarrow> storage_usage" where
  "with_model d s =
     s\<lparr>su_model := trim_space (lb_model d), su_serial := trim_space (lb_serial d), su_rotational := parse_bool01 (lb_rota d)\<rparr>"

text \<open>\<open>raidIndex\<close>: the last array of a name wins.\<close>

definition raid_index :: "raid_snapshot \<Rightarrow> (string, raid_array) gomap" where
  "raid_index raid = fold (\<lambda>a out. AList.update (ra_name a) a out) (rs_arrays raid) []"

definition raid_storage ::
  "usage_oracle \<Rightarrow> (string, disk_usage) gomap \<Rightarrow> (string, raid_array) gomap \<Rightarrow> lsblk_dev \<Rightarrow> nat \<Rightarrow> storage_usage \<times> nat" where
  "raid_storage read by_mount raids d n =
     (case mount_usage read by_mount d n of
        (mps, c, n') \<Rightarrow>
          (let e = with_space d mps c (zero_storage\<lparr>su_kind := ''raid''\<rparr>)
           in (case map_of raids (dev_name d) of
                 Some a \<Rightarrow> e\<lparr>su_level := ra_level a, su_health := ra_health a\<rparr>
               | None \<Rightarrow> e, n')))"

definition member_disk :: "lsblk_dev \<Rightarrow> storage_usage" where
  "member_disk d =
     with_model d (zero_storage\<lparr>su_kind := ''disk'', su_name := dev_name d, su_total := parse_u64 (lb_size d)\<rparr>)"

definition disk_storage ::
  "usage_oracle \<Rightarrow> (string, disk_usage) gomap \<Rightarrow> lsblk_dev \<Rightarrow> nat \<Rightarrow> storage_usage \<times> nat" where
  "disk_storage read by_mount d n =
     (case mount_usage read by_mount d n of
        (mps, c, n') \<Rightarrow> (with_model d (with_space d mps c (zero_storage\<lparr>su_kind := ''disk''\<rparr>)), n'))"

text \<open>What a node adds to the list once its children are done, given whether an array is at or below it.\<close>

definition node_storages ::
  "usage_oracle \<Rightarrow> (string, disk_usage) gomap \<Rightarrow> (string, raid_array) gomap \<Rightarrow> lsblk_dev \<Rightarrow> bool
   \<Rightarrow> storage_usage list \<times> nat \<Rightarrow> storage_usage list \<times> nat" where
  "node_storages read by_mount raids d has_raid st =
     (let st1 = (if is_raid_node d then
                   (case raid_storage read by_mount raids d (snd st) of (e, n) \<Rightarrow> (fst st @ [e], n))
                 else st)
      in if to_lower (trim_space (lb_type d)) = ''disk'' then
           if has_raid then (fst st1 @ [member_disk d], snd st1)
           else (case disk_storage read by_mount d (snd st1) of (e, n) \<Rightarrow> (fst st1 @ [e], n))
         else st1)"

text \<open>The closure \<open>walk\<close>, on the list \<open>out\<close> and the number of reads so far.\<close>

fun walk_dev ::
  "usage_oracle \<Rightarrow> (string, disk_usage) gomap \<Rightarrow> (string, raid_array) gomap \<Rightarrow> lsblk_dev
   \<Rightarrow> storage_usage list \<times> nat \<Rightarrow> bool \<times> storage_usage list \<times> nat"
and walk_devs ::
  "usage_oracle \<Rightarrow> (string, disk_usage) gomap \<Rightarrow> (string, raid_array) gomap \<Rightarrow> lsblk_dev list
   \<Rightarrow> storage_usage list \<times> nat \<Rightarrow> bool \<times> storage_usage list \<times> nat" where
  "walk_dev read by_mount raids (LsblkDev n k t sz mo se ro mp fs cs) st =
     (let d = LsblkDev n k t sz mo se ro mp fs cs
      in case walk_devs read by_mount raids cs st of
           (below, st1) \<Rightarrow>
             (let has_raid = (is_raid_node d \<or> below)
              in (has_raid, node_storages read by_mount raids d has_raid st1)))"
| "walk_devs read by_mount raids [] st = (False, st)"
| "walk_devs read by_mount raids (d # ds) st =
     (case walk_dev read by_mount raids d st of
        (r, st1) \<Rightarrow> (case walk_devs read by_mount raids ds st1 of (rs, st2) \<Rightarrow> (r \<or> rs, st2)))"

definition collect_block_storages ::
  "usage_oracle \<Rightarrow> (string, disk_usage) gomap \<Rightarrow> raid_snapshot \<Rightarrow> lsblk_dev list \<Rightarrow> storage_usage list" where
  "collect_block_storages read by_mount raid devs =
     fst (snd (walk_devs read by_mount (raid_index raid) devs ([], 0)))"

section \<open>Pools and volume groups\<close>

text \<open>\<open>collectZFSPools\<close> on the output of \<open>zpool list\<close>.\<close>

definition zfs_pool_of :: "string \<Rightarrow> storage_usage option" where
  "zfs_pool_of row =
     (case GoBase.fields (trim_space row) of
        name # sz # alloc # free # health # _ \<Rightarrow>
          Some (zero_storage\<lparr>su_kind := ''zfs_pool'', su_name := name, su_total := parse_u64 sz, su_used := parse_u64 alloc,
            su_free := parse_u64 free, su_used_ratio := ratio_from_used_free (parse_u64 alloc) (parse_u64 free),
            su_health := health\<rparr>)
      | _ \<Rightarrow> None)"

definition collect_zfs_pools :: "string \<Rightarrow> storage_usage list" where
  "collect_zfs_pools out = List.map_filter zfs_pool_of (split_on CHR 0x0A (trim_space out))"

record thin_pool =
  tp_name :: string
  tp_total :: u64
  tp_used :: u64
  tp_free :: u64
  tp_data_ratio :: float64
  tp_meta_ratio :: float64

record volume_group =
  vg_name :: string
  vg_total :: u64
  vg_used :: u64
  vg_free :: u64
  vg_used_ratio :: float64
  vg_devices :: "string list"

record thinpool_cache =
  tc_pools :: "thin_pool list"
  tc_vgs :: "volume_group list"

text \<open>An all-zero usage of a volume with a size means that all of it is free.\<close>

definition lvm_free :: "u64 \<Rightarrow> u64 \<Rightarrow> u64 \<Rightarrow> u64" where
  "lvm_free vol used free =
     (if used = 0 \<and> free = 0 \<and> vol > 0 \<and> vol > used then vol - used else free)"

definition vg_storage :: "volume_group \<Rightarrow> storage_usage" where
  "vg_storage vg =
     (let free = lvm_free (vg_total vg) (vg_used vg) (vg_free vg)
      in zero_storage\<lparr>su_kind := ''lvm_vg'', su_name := vg_name vg, su_total := vg_total vg, su_used := vg_used vg, su_free := free,
           su_used_ratio := (if vg_used_ratio vg = Fin 0 then ratio_from_used_free (vg_used vg) free else vg_used_ratio vg),
           su_devices := vg_devices vg\<rparr>)"

definition pool_storage :: "thin_pool \<Rightarrow> storage_usage" where
  "pool_storage p =
     (let free = lvm_free (tp_total p) (tp_used p) (tp_free p)
      in zero_storage\<lparr>su_kind := ''lvm_thinpool'', su_name := tp_name p, su_total := tp_total p, su_used := tp_used p, su_free := free,
           su_used_ratio := ratio_from_used_free (tp_used p) free,
           su_data_ratio := tp_data_ratio p, su_meta_ratio := tp_meta_ratio p\<rparr>)"

definition lvm_storages :: "thinpool_cache option \<Rightarrow> storage_usage list" where
  "lvm_storages cache =
     (case cache of
        None \<Rightarrow> []
      | Some c \<Rightarrow> map vg_storage (filter (\<lambda>v. vg_total v \<noteq> 0) (tc_vgs c)) @
                  map pool_storage (filter (\<lambda>p. tp_total p \<noteq> 0) (tc_pools c)))"

section \<open>Without \<open>lsblk\<close>\<close>

record fallback_agg =
  fa_total :: u64
  fa_used :: u64
  fa_free :: u64
  fa_mounts :: "string list"
  fa_kind :: string

definition fallback_key :: "disk_usage \<Rightarrow> string" where
  "fallback_key u =
     (if trim_space (du_device u) \<noteq> [] then trim_space (du_device u)
      else if trim_space (du_mount u) \<noteq> [] then trim_space (du_mount u)
      else trim_space (du_path u))"

definition fallback_kind :: "string \<Rightarrow> string" where
  "fallback_kind key =
     (if has_prefix (to_lower (path_base key)) ''md'' \<or> contains (to_lower key) ''/dev/md'' then ''raid'' else ''disk'')"

definition fallback_turn :: "disk_usage \<Rightarrow> (string, fallback_agg) gomap \<Rightarrow> (string, fallback_agg) gomap" where
  "fallback_turn u m =
     (let key = fallback_key u
      in if key = [] \<or> equal_fold (trim_space (du_fstype u)) ''zfs'' then m
         else
           (let a = (case map_of m key of
                       Some a \<Rightarrow> a
                     | None \<Rightarrow> \<lparr>fa_total = 0, fa_used = 0, fa_free = 0, fa_mounts = [], fa_kind = fallback_kind key\<rparr>);
                mp = trim_space (du_mount u);
                a1 = (if mp \<noteq> [] then a\<lparr>fa_mounts := List.insert mp (fa_mounts a)\<rparr> else a);
                a2 = (if du_total u > fa_total a1
                      then a1\<lparr>fa_total := du_total u, fa_used := du_used u, fa_free := du_free u\<rparr> else a1)
            in AList.update key a2 m))"

definition fallback_storages :: "disk_usage list \<Rightarrow> storage_usage list" where
  "fallback_storages fs =
     map (\<lambda>(name, a). zero_storage\<lparr>su_kind := fa_kind a, su_name := name, su_total := fa_total a, su_used := fa_used a,
            su_free := fa_free a, su_used_ratio := ratio_from_used_free (fa_used a) (fa_free a), su_mounts := sort (fa_mounts a)\<rparr>)
       (fold fallback_turn fs [])"

section \<open>All storages\<close>

definition index_key :: "disk_usage \<Rightarrow> string" where
  "index_key u = (if du_mount u = [] then du_path u else du_mount u)"

definition index_by_mount :: "disk_usage list \<Rightarrow> (string, disk_usage) gomap" where
  "index_by_mount fs =
     fold (\<lambda>u m. if index_key u = [] then m else AList.update (index_key u) u m) fs []"

text \<open>\<open>collectSlowPlatform\<close> behind its calls of the system: \<open>zpool\<close> is the output of \<open>zpool list\<close>, \<open>lsblk\<close> the
  decoded device tree.\<close>

definition collect_storages ::
  "usage_oracle \<Rightarrow> disk_usage list \<Rightarrow> raid_snapshot \<Rightarrow> string option \<Rightarrow> thinpool_cache option \<Rightarrow> lsblk_dev list option
   \<Rightarrow> storage_usage list" where
  "collect_storages read fs raid zpool lvm lsblk =
     (case zpool of Some out \<Rightarrow> collect_zfs_pools out | None \<Rightarrow> []) @ lvm_storages lvm @
     (case lsblk of
        Some devs \<Rightarrow> collect_block_storages read (index_by_mount fs) raid devs
      | None \<Rightarrow> fallback_storages fs)"

section \<open>The walk lists every node once\<close>

text \<open>The reference: the nodes of a tree in postorder, and whether an array is at or below a node.\<close>

fun has_raid :: "lsblk_dev \<Rightarrow> bool" and has_raid_below :: "lsblk_dev list \<Rightarrow> bool" where
  "has_raid (LsblkDev n k t sz mo se ro mp fs cs) \<longleftrightarrow>
     is_raid_node (LsblkDev n k t sz mo se ro mp fs cs) \<or> has_raid_below cs"
| "has_raid_below [] \<longleftrightarrow> False"
| "has_raid_below (d # ds) \<longleftrightarrow> has_raid d \<or> has_raid_below ds"

fun postorder :: "lsblk_dev \<Rightarrow> lsblk_dev list" and postorder_of :: "lsblk_dev list \<Rightarrow> lsblk_dev list" where
  "postorder (LsblkDev n k t sz mo se ro mp fs cs) = postorder_of cs @ [LsblkDev n k t sz mo se ro mp fs cs]"
| "postorder_of [] = []"
| "postorder_of (d # ds) = postorder d @ postorder_of ds"

definition node_turn ::
  "usage_oracle \<Rightarrow> (string, disk_usage) gomap \<Rightarrow> (string, raid_array) gomap \<Rightarrow> lsblk_dev
   \<Rightarrow> storage_usage list \<times> nat \<Rightarrow> storage_usage list \<times> nat" where
  "node_turn read by_mount raids d st = node_storages read by_mount raids d (has_raid d) st"

lemma walk_is_postorder:
  "walk_dev read by_mount raids d st = (has_raid d, fold (node_turn read by_mount raids) (postorder d) st)"
  "walk_devs read by_mount raids ds st = (has_raid_below ds, fold (node_turn read by_mount raids) (postorder_of ds) st)"
  by (induction read by_mount raids d st and read by_mount raids ds st rule: walk_dev_walk_devs.induct)
    (simp_all add: node_turn_def Let_def)

text \<open>What a node may add: an array of its own name, and a disk, which reports space only when no array is
  at or below it.\<close>

definition entry_of :: "lsblk_dev \<Rightarrow> storage_usage \<Rightarrow> bool" where
  "entry_of d s \<longleftrightarrow>
     su_name s = dev_name d \<and>
     (su_kind s = ''raid'' \<and> is_raid_node d \<or> su_kind s = ''disk'' \<and> (has_raid d \<longrightarrow> s = member_disk d))"

lemma raid_storage_entry: "is_raid_node d \<Longrightarrow> entry_of d (fst (raid_storage read by_mount raids d n))"
  by (simp add: raid_storage_def with_space_def entry_of_def Let_def zero_storage_def split: prod.splits option.splits)

lemma disk_storage_entry: "\<not> has_raid d \<Longrightarrow> entry_of d (fst (disk_storage read by_mount d n))"
  by (simp add: disk_storage_def with_space_def with_model_def entry_of_def zero_storage_def split: prod.splits)

lemma member_disk_entry: "entry_of d (member_disk d)"
  by (simp add: member_disk_def with_model_def entry_of_def zero_storage_def)

lemma node_turn_entries:
  "set (fst (node_turn read by_mount raids d st)) \<subseteq> set (fst st) \<union> {s. entry_of d s}"
proof -
  obtain e n where raid: "raid_storage read by_mount raids d (snd st) = (e, n)" by (metis surj_pair)
  have e: "is_raid_node d \<Longrightarrow> entry_of d e" using raid_storage_entry raid by (metis fst_conv)
  have disk: "\<not> has_raid d \<Longrightarrow> entry_of d s" if "disk_storage read by_mount d m = (s, k)" for s m k
    using disk_storage_entry that by (metis fst_conv)
  show ?thesis
    using e disk member_disk_entry [of d]
    by (auto simp: node_turn_def node_storages_def Let_def raid split: prod.splits if_splits)
qed

lemma node_turns_entries:
  "set (fst (fold (node_turn read by_mount raids) ds st)) \<subseteq> set (fst st) \<union> {s. \<exists>d \<in> set ds. entry_of d s}"
proof (induction ds arbitrary: st)
  case (Cons d ds)
  have "set (fst (fold (node_turn read by_mount raids) ds (node_turn read by_mount raids d st)))
      \<subseteq> set (fst (node_turn read by_mount raids d st)) \<union> {s. \<exists>d \<in> set ds. entry_of d s}"
    by (rule Cons.IH)
  with node_turn_entries [of read by_mount raids d st] show ?case by auto
qed simp

text \<open>A disk entry that reports space or mount points is one of a device without an array at or below it:
  the space of an array is counted by the array alone.\<close>

theorem array_space_counted_once:
  assumes "s \<in> set (collect_block_storages read by_mount raid devs)" and "su_kind s = ''disk''"
    and "su_used s \<noteq> 0 \<or> su_free s \<noteq> 0 \<or> su_mounts s \<noteq> []"
  shows "\<exists>d \<in> set (postorder_of devs). su_name s = dev_name d \<and> \<not> has_raid d"
proof -
  have "s \<in> set (fst (fold (node_turn read by_mount (raid_index raid)) (postorder_of devs) ([], 0)))"
    using assms(1) by (simp add: collect_block_storages_def walk_is_postorder)
  then obtain d where d: "d \<in> set (postorder_of devs)" "entry_of d s"
    using node_turns_entries [of read by_mount "raid_index raid" "postorder_of devs" "([], 0)"] by auto
  have "s \<noteq> member_disk d"
    using assms(3) by (auto simp: member_disk_def with_model_def zero_storage_def)
  with d assms(2) show ?thesis by (auto simp: entry_of_def)
qed

section \<open>Witnesses\<close>

definition demo_dev :: "string \<Rightarrow> string \<Rightarrow> string \<Rightarrow> lsblk_dev list \<Rightarrow> lsblk_dev" where
  "demo_dev name ty mp cs = LsblkDev name name ty ''100'' [] [] ''0'' mp (if mp = [] then [] else ''ext4'') cs"

definition demo_tree :: "lsblk_dev list" where
  "demo_tree = [demo_dev ''sda'' ''disk'' [] [demo_dev ''md0'' ''raid1'' ''/'' []],
     demo_dev ''sdb'' ''disk'' ''/data'' []]"

definition demo_read :: usage_oracle where
  "demo_read n mp = Inr demo_stat"

lemma demo_tree_storages:
  "map (\<lambda>s. (su_kind s, su_name s, su_used s, su_mounts s)) (collect_block_storages demo_read [] no_raid demo_tree)
   = [(''raid'', ''md0'', 40, [''/'']), (''disk'', ''sda'', 0, []), (''disk'', ''sdb'', 40, [''/data''])]"
  by code_simp

theorem array_space_counted_once_witness:
  "\<exists>s d. s \<in> set (collect_block_storages demo_read [] no_raid demo_tree) \<and> su_used s = 40 \<and>
     d \<in> set (postorder_of demo_tree) \<and> su_name s = dev_name d \<and> \<not> has_raid d"
proof -
  have "(''disk'', ''sdb'', 40, [''/data'']) \<in>
      (\<lambda>s. (su_kind s, su_name s, su_used s, su_mounts s)) ` set (collect_block_storages demo_read [] no_raid demo_tree)"
    unfolding set_map [symmetric] demo_tree_storages by simp
  then obtain s where s: "s \<in> set (collect_block_storages demo_read [] no_raid demo_tree)"
    "su_kind s = ''disk''" "su_used s = 40" by auto
  then have "su_used s \<noteq> 0 \<or> su_free s \<noteq> 0 \<or> su_mounts s \<noteq> []" by simp
  from array_space_counted_once [OF s(1,2) this] s show ?thesis by blast
qed

end
