(* ===== verification/IoRates.thy ===== *)
theory IoRates
  imports DiskLayout
begin

text \<open>
  Rates of disks and network interfaces (\<open>collect/io.go\<close>, \<open>diskfilter_linux.go\<close>, \<open>nic.go\<close>, \<open>nic_linux.go\<close>,
  \<open>disk_zfs_rates.go\<close>, \<open>zfs_io_sampler.go\<close>, parts of \<open>utils.go\<close>).  Counters are 64-bit words, rates are
  \<open>float64\<close> values with rounding.  \<open>exists\<close> says which paths exist, \<open>parse_float\<close> is what
  \<open>strconv.ParseFloat\<close> returns beside its error.
\<close>

section \<open>Counters\<close>

record io_counters =
  ic_read_count :: u64
  ic_write_count :: u64
  ic_read_bytes :: u64
  ic_write_bytes :: u64
  ic_read_time :: u64
  ic_write_time :: u64
  ic_io_time :: u64
  ic_weighted :: u64

record net_counters =
  nc_name :: string
  nc_bytes_sent :: u64
  nc_bytes_recv :: u64
  nc_packets_sent :: u64
  nc_packets_recv :: u64
  nc_err_in :: u64
  nc_err_out :: u64
  nc_drop_in :: u64
  nc_drop_out :: u64

definition ignored_block :: "string \<Rightarrow> bool" where
  "ignored_block name0 \<longleftrightarrow>
     (let name = to_lower (trim_space name0)
      in name = [] \<or> list_ex (has_prefix name) [''loop'', ''ram'', ''zram'', ''fd'', ''sr''])"

definition md_device :: "string \<Rightarrow> bool" where
  "md_device name \<longleftrightarrow> has_prefix (to_lower (trim_space name)) ''md''"

definition whole_block :: "(string \<Rightarrow> bool) \<Rightarrow> string \<Rightarrow> bool" where
  "whole_block exists name = exists (''/sys/block/'' @ name)"

definition device_backed :: "(string \<Rightarrow> bool) \<Rightarrow> string \<Rightarrow> bool" where
  "device_backed exists name = exists (''/sys/block/'' @ name @ ''/device'')"

definition filter_disk_counters :: "(string \<Rightarrow> bool) \<Rightarrow> (string, io_counters) gomap \<Rightarrow> (string, io_counters) gomap" where
  "filter_disk_counters exists cs =
     (let tmp = filter (\<lambda>(name, _). whole_block exists name \<and> \<not> ignored_block name) cs
      in if \<not> list_ex (\<lambda>(name, _). device_backed exists name) tmp then tmp
         else filter (\<lambda>(name, _). device_backed exists name \<or> md_device name) tmp)"

text \<open>Counters of the same name add up; the sums wrap around.\<close>

definition add_net :: "net_counters \<Rightarrow> net_counters \<Rightarrow> net_counters" where
  "add_net prev n =
     prev\<lparr>nc_bytes_recv := nc_bytes_recv prev + nc_bytes_recv n, nc_bytes_sent := nc_bytes_sent prev + nc_bytes_sent n,
       nc_packets_recv := nc_packets_recv prev + nc_packets_recv n, nc_packets_sent := nc_packets_sent prev + nc_packets_sent n,
       nc_err_in := nc_err_in prev + nc_err_in n, nc_err_out := nc_err_out prev + nc_err_out n,
       nc_drop_in := nc_drop_in prev + nc_drop_in n, nc_drop_out := nc_drop_out prev + nc_drop_out n\<rparr>"

definition merge_turn :: "net_counters \<Rightarrow> (string, net_counters) gomap \<Rightarrow> (string, net_counters) gomap" where
  "merge_turn n out =
     (if nc_name n = [] then out
      else case map_of out (nc_name n) of
             Some prev \<Rightarrow> AList.update (nc_name n) (add_net prev n) out
           | None \<Rightarrow> AList.update (nc_name n) n out)"

definition merge_net_counters :: "net_counters list \<Rightarrow> (string, net_counters) gomap" where
  "merge_net_counters ns = fold merge_turn ns []"

section \<open>Which interfaces are reported\<close>

record nic =
  nic_name :: string
  nic_hw :: string
  nic_flags :: "string list"
  nic_addrs :: nat

definition is_physical_nic :: "(string \<Rightarrow> bool) \<Rightarrow> string \<Rightarrow> bool" where
  "is_physical_nic exists name =
     (let base = ''/sys/class/net/'' @ name
      in if exists (base @ ''/bridge'') then False else exists (base @ ''/device'') \<or> exists (base @ ''/bonding''))"

definition nic_usable :: "nic \<Rightarrow> bool" where
  "nic_usable i =
     (let fs = map to_lower (nic_flags i) in \<not> List.member fs ''loopback'' \<and> (List.member fs ''up'' \<or> List.member fs ''running''))"

text \<open>\<open>selectedNICs\<close>: the names to report, or \<open>None\<close> for all; \<open>ifaces\<close> is \<open>None\<close> when they cannot be listed.\<close>

definition selected_nics :: "(string \<Rightarrow> bool) \<Rightarrow> nic list option \<Rightarrow> string list \<Rightarrow> string list option" where
  "selected_nics exists ifaces preferred =
     (let explicit = remdups (filter (\<lambda>n. n \<noteq> []) (map trim_space preferred))
      in if explicit \<noteq> [] then Some explicit
         else case ifaces of
           None \<Rightarrow> None
         | Some is \<Rightarrow>
             (let usable = filter nic_usable is;
                  physical = map nic_name (filter (\<lambda>i. is_physical_nic exists (nic_name i)) usable);
                  others = map nic_name (filter (\<lambda>i. \<not> is_physical_nic exists (nic_name i) \<and> nic_addrs i > 0) usable)
              in if physical \<noteq> [] then Some physical else if others \<noteq> [] then Some others else None))"

section \<open>Rates\<close>

text \<open>\<open>Duration.Seconds\<close>.\<close>

definition duration_seconds :: "duration \<Rightarrow> float64" where
  "duration_seconds d =
     (if d < 0 then float_neg (float_add (float_of_int (- d div second)) (float_div (float_of_int (- d mod second)) (Fin (10 ^ 9))))
      else float_add (float_of_int (d div second)) (float_div (float_of_int (d mod second)) (Fin (10 ^ 9))))"

definition float_of_u64 :: "u64 \<Rightarrow> float64" where
  "float_of_u64 w = float_of_int (uint w)"

definition rate_of :: "u64 \<Rightarrow> float64 \<Rightarrow> float64" where
  "rate_of diff dt = ceil_rate (float_div (float_of_u64 diff) dt)"

definition service_ms :: "u64 \<Rightarrow> u64 \<Rightarrow> float64" where
  "service_ms iops io_time =
     (if iops > 0 \<and> io_time > 0 then ceil_ms3 (float_div (float_of_u64 io_time) (float_of_u64 iops)) else Fin 0)"

definition wait_ms :: "u64 \<Rightarrow> u64 \<Rightarrow> u64 \<Rightarrow> float64" where
  "wait_ms iops io_time total_time =
     (if iops > 0 \<and> io_time > 0 \<and> total_time > 0 then
        (let wait = float_sub (float_of_u64 total_time) (float_of_u64 io_time)
         in if float_less (Fin 0) wait then ceil_ms3 (float_div wait (float_of_u64 iops)) else Fin 0)
      else Fin 0)"

text \<open>One turn of the disk loop of \<open>sampleIO\<close>.\<close>

definition disk_rates :: "float64 \<Rightarrow> io_counters \<Rightarrow> io_counters \<Rightarrow> disk_io" where
  "disk_rates dt now prev =
     (let reads = safe_diff (ic_read_count now) (ic_read_count prev);
          writes = safe_diff (ic_write_count now) (ic_write_count prev);
          iops = reads + writes;
          io_time = safe_diff (ic_io_time now) (ic_io_time prev);
          total_time = safe_diff (ic_read_time now + ic_write_time now) (ic_read_time prev + ic_write_time prev);
          weighted = safe_diff (ic_weighted now) (ic_weighted prev);
          dt_ms = float_mul dt (Fin 1000)
      in \<lparr>io_read_bytes = ic_read_bytes now, io_write_bytes = ic_write_bytes now,
          io_read_rate = rate_of (safe_diff (ic_read_bytes now) (ic_read_bytes prev)) dt,
          io_write_rate = rate_of (safe_diff (ic_write_bytes now) (ic_write_bytes prev)) dt,
          io_iops = rate_of iops dt, io_read_iops = rate_of reads dt, io_write_iops = rate_of writes dt,
          io_util = float_min (Fin 1) (float_div (float_of_u64 io_time) dt_ms),
          io_queue = float_div (float_of_u64 weighted) dt_ms,
          io_wait_ms = wait_ms iops io_time total_time,
          io_service_ms = service_ms iops io_time\<rparr>)"

definition net_rates :: "float64 \<Rightarrow> net_counters \<Rightarrow> net_counters \<Rightarrow> net_io" where
  "net_rates dt now prev =
     \<lparr>ni_name = nc_name now, ni_bytes_recv = nc_bytes_recv now, ni_bytes_sent = nc_bytes_sent now,
      ni_recv_rate = rate_of (safe_diff (nc_bytes_recv now) (nc_bytes_recv prev)) dt,
      ni_sent_rate = rate_of (safe_diff (nc_bytes_sent now) (nc_bytes_sent prev)) dt,
      ni_packets_recv = nc_packets_recv now, ni_packets_sent = nc_packets_sent now,
      ni_recv_packet_rate = rate_of (safe_diff (nc_packets_recv now) (nc_packets_recv prev)) dt,
      ni_sent_packet_rate = rate_of (safe_diff (nc_packets_sent now) (nc_packets_sent prev)) dt,
      ni_err_in = nc_err_in now, ni_err_out = nc_err_out now, ni_drop_in = nc_drop_in now, ni_drop_out = nc_drop_out now\<rparr>"

record io_sampler =
  sm_disk :: "(string, io_counters) gomap"
  sm_net :: "(string, net_counters) gomap"
  sm_time :: time

text \<open>The interval of a sample, and the state it is compared with: without a previous sample, or when the
  clock did not advance, every counter is compared with itself over one second.\<close>

definition sample_base :: "time \<Rightarrow> io_sampler \<Rightarrow> io_sampler \<times> float64" where
  "sample_base now s =
     (let dt = duration_seconds (time_sub now (sm_time s))
      in if is_zero_time (sm_time s) \<or> float_le dt (Fin 0)
         then (s\<lparr>sm_disk := [], sm_net := []\<rparr>, Fin 1) else (s, dt))"

definition lookup_or :: "(string, 'a) gomap \<Rightarrow> string \<Rightarrow> 'a \<Rightarrow> 'a" where
  "lookup_or m k d = (case map_of m k of Some v \<Rightarrow> v | None \<Rightarrow> d)"

definition reported_nics :: "string list option \<Rightarrow> (string, net_counters) gomap \<Rightarrow> string list" where
  "reported_nics nics net =
     filter (\<lambda>n. case nics of Some ns \<Rightarrow> List.member ns n | None \<Rightarrow> True) (sort (map fst net))"

definition counters_at :: "(string, net_counters) gomap \<Rightarrow> string \<Rightarrow> net_counters" where
  "counters_at net n =
     lookup_or net n \<lparr>nc_name = n, nc_bytes_sent = 0, nc_bytes_recv = 0, nc_packets_sent = 0, nc_packets_recv = 0,
       nc_err_in = 0, nc_err_out = 0, nc_drop_in = 0, nc_drop_out = 0\<rparr>"

text \<open>\<open>sampleIO\<close> on the counters it read: the sampler's new state and the two parts of the report.\<close>

definition sample_io ::
  "time \<Rightarrow> (string, io_counters) gomap \<Rightarrow> net_counters list \<Rightarrow> string list option \<Rightarrow> io_sampler
   \<Rightarrow> io_sampler \<times> (string, disk_io) gomap \<times> net_io list" where
  "sample_io now disks ifs nics s =
     (let net = merge_net_counters ifs; names = reported_nics nics net
      in case sample_base now s of
           (prev, dt) \<Rightarrow>
             (\<lparr>sm_disk = disks, sm_net = map (\<lambda>n. (n, counters_at net n)) names, sm_time = now\<rparr>,
              map (\<lambda>(name, c). (name, disk_rates dt c (lookup_or (sm_disk prev) name c))) disks,
              map (\<lambda>n. let c = counters_at net n in net_rates dt c (lookup_or (sm_net prev) n c)) names))"

section \<open>Rates of ZFS pools\<close>

record zfs_agg =
  za_read_bps :: float64
  za_write_bps :: float64
  za_read_iops :: float64
  za_write_iops :: float64
  za_n :: float64

definition zfs_turn :: "(string \<Rightarrow> float64) \<Rightarrow> string \<Rightarrow> (string, zfs_agg) gomap \<Rightarrow> (string, zfs_agg) gomap" where
  "zfs_turn parse_float line acc =
     (case GoBase.fields line of
        pool # _ # _ # ri # wi # rb # wb # _ \<Rightarrow>
          (let f = (\<lambda>s. parse_float (trim_space s))
           in case map_of acc pool of
                None \<Rightarrow> AList.update pool \<lparr>za_read_bps = Fin 0, za_write_bps = Fin 0, za_read_iops = Fin 0,
                                           za_write_iops = Fin 0, za_n = Fin 0\<rparr> acc
              | Some a \<Rightarrow> AList.update pool
                  \<lparr>za_read_bps = float_add (za_read_bps a) (f rb), za_write_bps = float_add (za_write_bps a) (f wb),
                   za_read_iops = float_add (za_read_iops a) (f ri), za_write_iops = float_add (za_write_iops a) (f wi),
                   za_n = float_add (za_n a) (Fin 1)\<rparr> acc)
      | _ \<Rightarrow> acc)"

definition zfs_rates_of :: "zfs_agg \<Rightarrow> zfs_io_rates option" where
  "zfs_rates_of a =
     (if za_n a = Fin 0 then None
      else Some \<lparr>zr_read_bps = ceil_rate (float_div (za_read_bps a) (za_n a)),
                 zr_write_bps = ceil_rate (float_div (za_write_bps a) (za_n a)),
                 zr_read_iops = ceil_rate (float_div (za_read_iops a) (za_n a)),
                 zr_write_iops = ceil_rate (float_div (za_write_iops a) (za_n a))\<rparr>)"

definition parse_zfs_io_rates :: "(string \<Rightarrow> float64) \<Rightarrow> string \<Rightarrow> (string, zfs_io_rates) gomap" where
  "parse_zfs_io_rates parse_float s =
     List.map_filter (\<lambda>(pool, a). map_option (Pair pool) (zfs_rates_of a))
       (fold (zfs_turn parse_float) (split_on CHR 0x0A s) [])"

text \<open>\<open>zfsIOSampler\<close>: the rates it holds, and whether its channel of capacity one holds a request.\<close>

record zfs_sampler =
  zs_rates :: "(string, zfs_io_rates) gomap"
  zs_request :: bool

definition zfs_trigger :: "zfs_sampler \<Rightarrow> zfs_sampler" where
  "zfs_trigger z = (if zs_rates z \<noteq> [] then z else z\<lparr>zs_request := True\<rparr>)"

text \<open>A turn of the loop, woken by the channel or by the ticker.\<close>

definition zfs_wake :: "bool \<Rightarrow> bool \<Rightarrow> (string, zfs_io_rates) gomap \<Rightarrow> zfs_sampler \<Rightarrow> zfs_sampler" where
  "zfs_wake by_request enabled rates z =
     (if by_request then z\<lparr>zs_request := False\<rparr> else z)\<lparr>zs_rates := (if enabled then rates else [])\<rparr>"

section \<open>Rates are finite and not negative\<close>

lemma uint_bounds: "0 \<le> uint (w :: u64) \<and> uint w < 2 ^ 64"
  using uint_bounded [of w] by simp

lemma u64_fin_le: "fin_le (2 ^ 66) (float_of_u64 w)"
  unfolding float_of_u64_def using float_of_int_fin_le uint_bounds by blast

lemma u64_lower:
  assumes "0 < (w :: u64)"
  obtains r where "float_of_u64 w = Fin r" and "1 / 2 \<le> r"
proof -
  have "1 \<le> uint w" using assms by (simp add: word_less_def)
  then show thesis using float_of_int_lower [of "uint w"] uint_bounds that by (auto simp: float_of_u64_def)
qed

text \<open>An interval that advanced is at least a tenth of a nanosecond long, also after rounding.\<close>

definition interval_ok :: "float64 \<Rightarrow> bool" where
  "interval_ok dt \<longleftrightarrow> (\<exists>d. dt = Fin d \<and> 1 / 2 ^ 33 \<le> d \<and> d \<le> 2 ^ 100)"

lemma second_parts:
  assumes "0 \<le> d" and "d \<le> 2 ^ 63"
  shows "0 \<le> d div second \<and> d div second < 2 ^ 64 \<and> 0 \<le> d mod second \<and> d mod second < 2 ^ 64"
proof -
  have "d div second \<le> d div 1"
    using assms(1) by (intro zdiv_mono2) (simp_all add: second_def)
  moreover have "d mod second < 10 ^ 9" by (simp add: second_def)
  ultimately show ?thesis using assms by (simp add: second_def pos_imp_zdiv_nonneg_iff)
qed

lemma duration_seconds_nonneg:
  assumes "0 \<le> d" and "d \<le> 2 ^ 63"
  shows "fin_le (2 ^ 100) (duration_seconds d)"
proof -
  have parts: "0 \<le> d div second" "d div second < 2 ^ 64" "0 \<le> d mod second" "d mod second < 2 ^ 64"
    using second_parts [OF assms] by auto
  obtain a where a: "float_of_int (d div second) = Fin a" "0 \<le> a" "a \<le> 2 ^ 66"
    using float_of_int_fin_le parts(1,2) by (blast elim: fin_leE)
  have "fin_le (2 * (2 ^ 66 / 10 ^ 9) + 1) (float_div (float_of_int (d mod second)) (Fin (10 ^ 9)))"
    using float_of_int_fin_le [OF parts(3,4)] by (rule float_div_fin_le) simp_all
  then obtain b where b: "float_div (float_of_int (d mod second)) (Fin (10 ^ 9)) = Fin b" "0 \<le> b" "b \<le> 2 ^ 66"
    by (auto elim!: fin_leE)
  have "fin_le (2 * (a + b) + 1) (round64 (a + b))"
    using a b by (intro round64_fin_le small_below_limit) (auto intro: order_trans [of _ "2 ^ 66 + 2 ^ 66"])
  then show ?thesis
    using a b assms(1) by (auto simp: duration_seconds_def intro: fin_le_mono)
qed

lemma duration_seconds_pos:
  assumes "0 < d" and "d < 2 ^ 63"
  shows "interval_ok (duration_seconds d)"
proof -
  have parts: "0 \<le> d div second" "d div second < 2 ^ 64" "0 \<le> d mod second" "d mod second < 2 ^ 64"
    using second_parts [of d] assms by auto
  obtain a where a: "float_of_int (d div second) = Fin a" "0 \<le> a" "a \<le> 2 ^ 66"
    using float_of_int_fin_le parts(1,2) by (blast elim: fin_leE)
  have "fin_le (2 * (2 ^ 66 / 10 ^ 9) + 1) (float_div (float_of_int (d mod second)) (Fin (10 ^ 9)))"
    using float_of_int_fin_le [OF parts(3,4)] by (rule float_div_fin_le) simp_all
  then obtain b where b: "float_div (float_of_int (d mod second)) (Fin (10 ^ 9)) = Fin b" "0 \<le> b" "b \<le> 2 ^ 66"
    by (auto elim!: fin_leE)
  have sum: "1 / (4 * 10 ^ 9) \<le> a + b"
  proof (cases "d div second = 0")
    case False
    then obtain r where "float_of_int (d div second) = Fin r" "1 / 2 \<le> r"
      using float_of_int_lower [of "d div second"] parts by auto
    then show ?thesis using a b by simp
  next
    case True
    then have "d mod second = d" by (metis add_0 mult_div_mod_eq mult_zero_right)
    then obtain r where r: "float_of_int (d mod second) = Fin r" "1 / 2 \<le> r"
      using float_of_int_lower [of "d mod second"] assms parts by auto
    have up: "r \<le> 2 ^ 66"
      using float_of_int_fin_le [OF parts(3,4)] r by (auto elim!: fin_leE)
    have "(1 :: rat) / 2 ^ 200 \<le> r / 10 ^ 9" using r(2) by (simp add: field_simps)
    then obtain q where "round64 (r / 10 ^ 9) = Fin q" "r / 10 ^ 9 / 2 \<le> q"
      by (rule round64_lower) (rule small_below_limit, use up in simp)
    then show ?thesis using a b r by simp
  qed
  have up: "a + b \<le> 2 ^ 67" using a b by simp
  have "a + b \<le> 2 ^ 200" by (rule order_trans [OF up]) simp
  moreover have "1 / 2 ^ 200 \<le> a + b" by (rule order_trans [OF _ sum]) simp
  ultimately obtain r where r: "round64 (a + b) = Fin r" "(a + b) / 2 \<le> r" "r \<le> 2 * (a + b) + 1"
    using round64_lower small_below_limit by metis
  have "duration_seconds d = Fin r"
    using assms(1) a b r by (simp add: duration_seconds_def)
  moreover have "1 / 2 ^ 33 \<le> r" using r(2) sum by simp
  moreover have "r \<le> 2 ^ 100" using r(3) up by simp
  ultimately show ?thesis by (auto simp: interval_ok_def)
qed

lemma sample_base_interval:
  assumes "sample_base now s = (prev, dt)"
  shows "interval_ok dt"
proof -
  let ?d = "time_sub now (sm_time s)"
  have range: "- (2 ^ 63) \<le> ?d" "?d < 2 ^ 63" by (auto simp: go_time)
  show ?thesis
  proof (cases "is_zero_time (sm_time s) \<or> float_le (duration_seconds ?d) (Fin 0)")
    case True
    with assms show ?thesis by (auto simp: sample_base_def Let_def interval_ok_def)
  next
    case False
    have "0 < ?d"
    proof (rule ccontr)
      assume no: "\<not> 0 < ?d"
      have "float_le (duration_seconds ?d) (Fin 0)"
      proof (cases "?d = 0")
        case True
        then show ?thesis by (simp add: duration_seconds_def float_of_int_def round64_def)
      next
        case False
        then have neg: "?d < 0" using no by simp
        then have "fin_le (2 ^ 100) (duration_seconds (- ?d))"
          using range by (intro duration_seconds_nonneg) auto
        moreover have "duration_seconds ?d = float_neg (duration_seconds (- ?d))"
          using neg by (simp add: duration_seconds_def)
        ultimately show ?thesis by (auto elim!: fin_leE)
      qed
      with False show False by simp
    qed
    with False assms range show ?thesis
      using duration_seconds_pos by (auto simp: sample_base_def Let_def)
  qed
qed

lemma rate_of_ok: "interval_ok dt \<Longrightarrow> finite_nonneg (rate_of diff dt)"
proof -
  assume "interval_ok dt"
  then obtain d where d: "dt = Fin d" "1 / 2 ^ 33 \<le> d" by (auto simp: interval_ok_def)
  have "fin_le (2 * (2 ^ 66 / (1 / 2 ^ 33)) + 1) (float_div (float_of_u64 diff) (Fin d))"
    using d(2) by (intro float_div_fin_le u64_fin_le) simp_all
  then have "finite_nonneg (float_ceil (float_div (float_of_u64 diff) (Fin d)))"
    by (rule fin_le_finite [OF float_ceil_fin_le])
  then show ?thesis by (simp add: rate_of_def ceil_rate_def d)
qed

lemma ceil_ms3_ok:
  assumes "fin_le (2 ^ 71) v"
  shows "finite_nonneg (ceil_ms3 v)"
proof -
  have "fin_le (2 * (2 ^ 71 * 1000) + 1) (float_mul v (Fin 1000))"
    using assms by (rule float_mul_fin_le) simp_all
  from float_ceil_fin_le [OF this]
  have "fin_le (2 ^ 82) (float_ceil (float_mul v (Fin 1000)))" by (rule fin_le_mono) simp
  then have "fin_le (2 * (2 ^ 82 / 1000) + 1) (float_div (float_ceil (float_mul v (Fin 1000))) (Fin 1000))"
    by (rule float_div_fin_le) simp_all
  then show ?thesis using fin_le_finite by (auto simp: ceil_ms3_def)
qed

lemma div_u64_fin_le:
  assumes "fin_le (2 ^ 68) x" and "0 < (w :: u64)"
  shows "fin_le (2 ^ 71) (float_div x (float_of_u64 w))"
proof -
  obtain r where r: "float_of_u64 w = Fin r" "1 / 2 \<le> r" using assms(2) by (rule u64_lower)
  have "fin_le (2 * (2 ^ 68 / (1 / 2)) + 1) (float_div x (Fin r))"
    using assms(1) r(2) by (intro float_div_fin_le) simp_all
  then show ?thesis unfolding r(1) by (rule fin_le_mono) simp
qed

lemma service_ms_ok: "finite_nonneg (service_ms iops io_time)"
proof -
  have "fin_le (2 ^ 68) (float_of_u64 io_time)" using u64_fin_le by (rule fin_le_mono) simp
  then have "0 < iops \<Longrightarrow> finite_nonneg (ceil_ms3 (float_div (float_of_u64 io_time) (float_of_u64 iops)))"
    by (intro ceil_ms3_ok div_u64_fin_le)
  then show ?thesis by (simp add: service_ms_def)
qed

lemma round64_nonpos: "q \<le> 0 \<Longrightarrow> \<not> float_less (Fin 0) (round64 q)"
  using round_pos_nonneg [of "\<bar>q\<bar>"] by (auto simp: round64_def Let_def sgn_if mult_le_0_iff not_less)

lemma wait_ms_ok: "finite_nonneg (wait_ms iops io_time total_time)"
proof -
  obtain t i where t: "float_of_u64 total_time = Fin t" "0 \<le> t" "t \<le> 2 ^ 66"
    and i: "float_of_u64 io_time = Fin i" "0 \<le> i" "i \<le> 2 ^ 66"
    using u64_fin_le by (meson fin_leE)
  let ?wait = "float_sub (float_of_u64 total_time) (float_of_u64 io_time)"
  have wait: "?wait = round64 (t - i)" by (simp add: float_sub_def t i)
  have "finite_nonneg (ceil_ms3 (float_div ?wait (float_of_u64 iops)))" if "float_less (Fin 0) ?wait" "0 < iops"
  proof -
    have "0 < t - i" using that(1) round64_nonpos [of "t - i"] by (auto simp: wait not_le [symmetric])
    moreover have "t - i \<le> 2 ^ 66" using t(3) i(2) by simp
    moreover have "t - i \<le> float_limit / 4"
      by (rule small_below_limit, rule order_trans [OF \<open>t - i \<le> 2 ^ 66\<close>]) simp
    ultimately have "fin_le (2 * (t - i) + 1) ?wait"
      unfolding wait by (intro round64_fin_le) simp_all
    have "t - i \<le> 2 ^ 66" by fact
    obtain r where "?wait = Fin r" "0 \<le> r" "r \<le> 2 * (t - i) + 1" using \<open>fin_le (2 * (t - i) + 1) ?wait\<close> by (rule fin_leE)
    then have "fin_le (2 ^ 68) ?wait" using \<open>t - i \<le> 2 ^ 66\<close> by simp
    then show ?thesis using that(2) by (intro ceil_ms3_ok div_u64_fin_le)
  qed
  then show ?thesis by (simp add: wait_ms_def Let_def)
qed

lemma float_min_unit: "fin_le b x \<Longrightarrow> fin_le 1 (float_min (Fin 1) x)"
  by (auto elim!: fin_leE simp: float_min_def)

lemma interval_ms:
  assumes "interval_ok dt"
  obtains d where "float_mul dt (Fin 1000) = Fin d" and "1 / 2 ^ 33 \<le> d"
proof -
  obtain d where d: "dt = Fin d" "1 / 2 ^ 33 \<le> d" "d \<le> 2 ^ 100" using assms by (auto simp: interval_ok_def)
  have "1 / 2 ^ 200 \<le> d * 1000"
  proof (rule order_trans)
    show "(1 :: rat) / 2 ^ 200 \<le> 1 / 2 ^ 33" by simp
    show "1 / 2 ^ 33 \<le> d * 1000" using d(2) by simp
  qed
  moreover have "d * 1000 \<le> float_limit / 4" by (rule small_below_limit) (use d(3) in simp)
  ultimately obtain r where "round64 (d * 1000) = Fin r" "d * 1000 / 2 \<le> r" by (rule round64_lower)
  with d that show thesis by simp
qed

lemma per_ms_fin_le:
  assumes "interval_ok dt"
  shows "fin_le (2 ^ 101) (float_div (float_of_u64 w) (float_mul dt (Fin 1000)))"
proof -
  obtain d where d: "float_mul dt (Fin 1000) = Fin d" "1 / 2 ^ 33 \<le> d" using assms by (rule interval_ms)
  have "fin_le (2 * (2 ^ 66 / (1 / 2 ^ 33)) + 1) (float_div (float_of_u64 w) (Fin d))"
    using d(2) by (intro float_div_fin_le u64_fin_le) simp_all
  then show ?thesis unfolding d(1) by (rule fin_le_mono) simp
qed

definition io_ok :: "disk_io \<Rightarrow> bool" where
  "io_ok io \<longleftrightarrow>
     list_all finite_nonneg [io_read_rate io, io_write_rate io, io_iops io, io_read_iops io, io_write_iops io,
       io_queue io, io_wait_ms io, io_service_ms io] \<and> fin_le 1 (io_util io)"

definition net_ok :: "net_io \<Rightarrow> bool" where
  "net_ok n \<longleftrightarrow>
     list_all finite_nonneg [ni_recv_rate n, ni_sent_rate n, ni_recv_packet_rate n, ni_sent_packet_rate n]"

lemma disk_rates_ok: "interval_ok dt \<Longrightarrow> io_ok (disk_rates dt now prev)"
  using per_ms_fin_le [of dt] float_min_unit fin_le_finite
  by (simp add: io_ok_def disk_rates_def Let_def rate_of_ok service_ms_ok wait_ms_ok) blast

lemma net_rates_ok: "interval_ok dt \<Longrightarrow> net_ok (net_rates dt now prev)"
  by (simp add: net_ok_def net_rates_def rate_of_ok)

lemma sample_io_ok:
  "case sample_io now disks ifs nics s of (s', dio, nio) \<Rightarrow> list_all (\<lambda>(name, io). io_ok io) dio \<and> list_all net_ok nio"
proof -
  obtain prev dt where base: "sample_base now s = (prev, dt)" by (metis surj_pair)
  then have "interval_ok dt" by (rule sample_base_interval)
  then show ?thesis
    by (auto simp: sample_io_def Let_def base list_all_iff disk_rates_ok net_rates_ok)
qed

text \<open>Whatever the counters, the clock and the previous sample were, every rate of a report is a finite
  number that is not negative, and a utilisation is at most 1: no NaN or infinity reaches the JSON encoder,
  which would reject the whole report.\<close>

theorem rates_are_finite:
  "case sample_io now disks ifs nics s of (s', dio, nio) \<Rightarrow> list_all (\<lambda>(name, io). io_ok io) dio \<and> list_all net_ok nio"
  by (rule sample_io_ok)

end
