(* ===== verification/HostReaders.thy ===== *)
theory HostReaders
  imports HostTypes
begin

text \<open>
  The smaller readers of a host: the caches other programs leave in \<open>/run\<close> (\<open>conncache/cache.go\<close>,
  \<open>smartcache/cache.go\<close>), the connection counts and the pressure files of \<open>/proc\<close> (\<open>collect/conn_linux.go\<close>,
  \<open>collect/pressure_linux.go\<close>), and the temperature sensors (\<open>collect/thermal.go\<close>).  Files come as their content
  or the reason they could not be read; JSON decoding and \<open>ParseFloat\<close> are arguments.
\<close>

datatype read_error = ErrNotExist | ErrPermission | ErrOther

type_synonym file_read = "read_error + string"

section \<open>The cache of connection counts\<close>

record conn_cache =
  cc_schema :: int
  cc_updated :: time
  cc_ttl :: int
  cc_status :: string
  cc_tcp :: int
  cc_udp :: int

text \<open>When a cache stops being valid; the product of the lifetime is an \<open>int64\<close> and wraps around.\<close>

definition cache_end :: "time \<Rightarrow> int \<Rightarrow> time" where
  "cache_end updated ttl = time_add updated (secs ttl)"

definition conn_cache_read :: "(string \<Rightarrow> conn_cache option) \<Rightarrow> file_read \<Rightarrow> time \<Rightarrow> (int \<times> int) option" where
  "conn_cache_read decode content now =
     (case content of
        Inl _ \<Rightarrow> None
      | Inr b \<Rightarrow>
          (case decode b of
             None \<Rightarrow> None
           | Some c \<Rightarrow>
               if cc_schema c \<noteq> 1 \<or> cc_status c \<noteq> ''ok'' \<or> is_zero_time (cc_updated c) then None
               else if cc_ttl c \<le> 0 \<or> cc_tcp c < 0 \<or> cc_udp c < 0 then None
               else if cache_end (cc_updated c) (cc_ttl c) < now then None
               else Some (cc_tcp c, cc_udp c)))"

section \<open>The cache of SMART data\<close>

record 'd smart_cache =
  sk_schema :: int
  sk_updated :: time
  sk_ttl :: int
  sk_status :: string
  sk_devices :: "'d list"

record 'd smart =
  sq_status :: string
  sq_updated :: "time option"
  sq_ttl :: int
  sq_devices :: "'d list"

definition smart_status :: "string \<Rightarrow> 'd smart" where
  "smart_status status = \<lparr>sq_status = status, sq_updated = None, sq_ttl = 0, sq_devices = []\<rparr>"

definition smart_from_cache :: "'d smart_cache \<Rightarrow> time \<Rightarrow> 'd smart" where
  "smart_from_cache c now =
     (let s = \<lparr>sq_status = sk_status c, sq_updated = Some (sk_updated c), sq_ttl = sk_ttl c, sq_devices = sk_devices c\<rparr>
      in if sk_ttl c > 0 \<and> cache_end (sk_updated c) (sk_ttl c) < now then s\<lparr>sq_status := ''stale''\<rparr>
         else if sq_status s = ''ok'' \<and> sk_devices c = [] then s\<lparr>sq_status := ''not_found''\<rparr>
         else s)"

definition smart_read :: "(string \<Rightarrow> 'd smart_cache option) \<Rightarrow> file_read \<Rightarrow> time \<Rightarrow> 'd smart" where
  "smart_read decode content now =
     (case content of
        Inl ErrNotExist \<Rightarrow> smart_status ''no_cache''
      | Inl ErrPermission \<Rightarrow> smart_status ''no_permission''
      | Inl ErrOther \<Rightarrow> smart_status ''error''
      | Inr b \<Rightarrow>
          (case decode b of
             None \<Rightarrow> smart_status ''error''
           | Some c \<Rightarrow>
               if sk_schema c \<noteq> 1 then smart_status ''unsupported''
               else if is_zero_time (sk_updated c) \<or> sk_status c = [] then smart_status ''error''
               else smart_from_cache c now))"

section \<open>Connection counts from \<open>/proc\<close>\<close>

text \<open>The lines a \<open>bufio.Scanner\<close> finds, or \<open>None\<close> when one does not fit its buffer of 64 KiB.\<close>

definition scan_lines :: "string \<Rightarrow> string list option" where
  "scan_lines s =
     (let ls = split_on CHR 0x0A s; lines = (if List.last ls = [] then butlast ls else ls)
      in if list_all (\<lambda>l. length l < 65536) lines then Some lines else None)"

definition count_proc_net_file :: "file_read \<Rightarrow> int option" where
  "count_proc_net_file content =
     (case content of
        Inl _ \<Rightarrow> None
      | Inr s \<Rightarrow> map_option (\<lambda>ls. int (length ls - 1)) (scan_lines s))"

text \<open>The system as the counting sees it: file contents, symbolic links and the entries of \<open>/proc\<close> with
  whether each is a directory.\<close>

record proc_fs =
  pf_read :: "string \<Rightarrow> file_read"
  pf_link :: "string \<Rightarrow> string option"
  pf_entries :: "(string \<times> bool) list option"

definition count_or_zero :: "proc_fs \<Rightarrow> string \<Rightarrow> int" where
  "count_or_zero fs path = (case count_proc_net_file (pf_read fs path) of Some n \<Rightarrow> n | None \<Rightarrow> 0)"

definition count_in_net_dir :: "proc_fs \<Rightarrow> string \<Rightarrow> int \<times> int \<times> bool" where
  "count_in_net_dir fs dir =
     (count_or_zero fs (dir @ ''/tcp'') + count_or_zero fs (dir @ ''/tcp6''),
      count_or_zero fs (dir @ ''/udp'') + count_or_zero fs (dir @ ''/udp6''),
      list_ex (\<lambda>f. count_proc_net_file (pf_read fs (dir @ f)) \<noteq> None) [''/tcp'', ''/tcp6'', ''/udp'', ''/udp6''])"

definition is_proc_pid :: "string \<Rightarrow> bool" where
  "is_proc_pid name \<longleftrightarrow> name \<noteq> [] \<and> list_all is_digit name"

definition mark_current_ns :: "proc_fs \<Rightarrow> string \<Rightarrow> string list \<Rightarrow> string list" where
  "mark_current_ns fs proc seen =
     (case pf_link fs (proc @ ''/self/ns/net'') of Some ns \<Rightarrow> ns # seen | None \<Rightarrow> seen)"

text \<open>One entry of \<open>countTCPUDPByNetNS\<close>: the namespace it adds, if it is new and readable.\<close>

definition ns_of_entry :: "proc_fs \<Rightarrow> string \<Rightarrow> string list \<Rightarrow> string \<times> bool \<Rightarrow> (string \<times> int \<times> int) option" where
  "ns_of_entry fs proc seen entry =
     (case entry of (name, dir) \<Rightarrow>
        if \<not> dir \<or> \<not> is_proc_pid name then None
        else case pf_link fs (proc @ ''/'' @ name @ ''/ns/net'') of
          None \<Rightarrow> None
        | Some ns \<Rightarrow>
            if ns \<in> set seen then None
            else case count_in_net_dir fs (proc @ ''/'' @ name @ ''/net'') of
              (tcp, udp, ok) \<Rightarrow> if ok then Some (ns, tcp, udp) else None)"

fun count_by_ns :: "proc_fs \<Rightarrow> string \<Rightarrow> string list \<Rightarrow> (string \<times> bool) list \<Rightarrow> int \<times> int \<Rightarrow> int \<times> int" where
  "count_by_ns fs proc seen [] acc = acc"
| "count_by_ns fs proc seen (e # es) acc =
     (case ns_of_entry fs proc seen e of
        None \<Rightarrow> count_by_ns fs proc seen es acc
      | Some (ns, tcp, udp) \<Rightarrow> count_by_ns fs proc (ns # seen) es (fst acc + tcp, snd acc + udp))"

definition count_from_proc :: "proc_fs \<Rightarrow> string \<Rightarrow> int \<times> int" where
  "count_from_proc fs proc =
     (case count_in_net_dir fs (proc @ ''/net'') of
        (tcp, udp, ok) \<Rightarrow>
          (let seen = (if ok then mark_current_ns fs proc [] else [])
           in count_by_ns fs proc seen (case pf_entries fs of Some es \<Rightarrow> es | None \<Rightarrow> []) (tcp, udp)))"

definition count_with_cache ::
  "(string \<Rightarrow> conn_cache option) \<Rightarrow> file_read \<Rightarrow> proc_fs \<Rightarrow> string \<Rightarrow> time \<Rightarrow> int \<times> int" where
  "count_with_cache decode cache fs proc now =
     (case conn_cache_read decode cache now of Some c \<Rightarrow> c | None \<Rightarrow> count_from_proc fs proc)"

section \<open>Pressure\<close>

definition pressure_status :: "string \<Rightarrow> pressure_resource" where
  "pressure_status status = \<lparr>pr_status = status, pr_some = None, pr_full = None\<rparr>"

definition pressure_read_error :: "read_error \<Rightarrow> pressure_resource" where
  "pressure_read_error e =
     pressure_status (case e of ErrNotExist \<Rightarrow> ''unsupported'' | ErrPermission \<Rightarrow> ''no_permission'' | ErrOther \<Rightarrow> ''error'')"

text \<open>A field of a pressure line, on the values and the keys seen so far; \<open>None\<close> is an error.\<close>

definition pressure_field ::
  "(string \<Rightarrow> float64 option) \<Rightarrow> string \<Rightarrow> pressure_stats \<times> string list \<Rightarrow> (pressure_stats \<times> string list) option" where
  "pressure_field parse_float fld st =
     (case st of (s, seen) \<Rightarrow>
        (case cut_at CHR ''='' fld of
           None \<Rightarrow> None
         | Some (key, v) \<Rightarrow>
             if key = ''avg10'' then map_option (\<lambda>x. (s\<lparr>ps_avg10 := x\<rparr>, key # seen)) (parse_float v)
             else if key = ''avg60'' then map_option (\<lambda>x. (s\<lparr>ps_avg60 := x\<rparr>, key # seen)) (parse_float v)
             else if key = ''avg300'' then map_option (\<lambda>x. (s\<lparr>ps_avg300 := x\<rparr>, key # seen)) (parse_float v)
             else if key = ''total'' then map_option (\<lambda>n. (s\<lparr>ps_total := of_int n\<rparr>, key # seen)) (parse_uint v)
             else Some (s, seen)))"

fun pressure_fields ::
  "(string \<Rightarrow> float64 option) \<Rightarrow> string list \<Rightarrow> pressure_stats \<times> string list \<Rightarrow> (pressure_stats \<times> string list) option" where
  "pressure_fields parse_float [] st = Some st"
| "pressure_fields parse_float (f # fs) st =
     (case pressure_field parse_float f st of None \<Rightarrow> None | Some st' \<Rightarrow> pressure_fields parse_float fs st')"

definition pressure_keys :: "string list" where
  "pressure_keys = [''avg10'', ''avg60'', ''avg300'', ''total'']"

definition parse_pressure_stats :: "(string \<Rightarrow> float64 option) \<Rightarrow> string list \<Rightarrow> pressure_stats option" where
  "parse_pressure_stats parse_float fs =
     (case pressure_fields parse_float fs (\<lparr>ps_avg10 = Fin 0, ps_avg60 = Fin 0, ps_avg300 = Fin 0, ps_total = 0\<rparr>, []) of
        None \<Rightarrow> None
      | Some (s, seen) \<Rightarrow> if list_all (\<lambda>k. k \<in> set seen) pressure_keys then Some s else None)"

definition pressure_line ::
  "(string \<Rightarrow> float64 option) \<Rightarrow> string \<Rightarrow> pressure_resource \<Rightarrow> pressure_resource option" where
  "pressure_line parse_float line p =
     (let fs = GoBase.fields line
      in if fs = [] then Some p
         else if length fs < 5 then None
         else case parse_pressure_stats parse_float (tl fs) of
           None \<Rightarrow> None
         | Some s \<Rightarrow>
             Some (if hd fs = ''some'' then p\<lparr>pr_some := Some s\<rparr>
                   else if hd fs = ''full'' then p\<lparr>pr_full := Some s\<rparr> else p))"

fun pressure_lines ::
  "(string \<Rightarrow> float64 option) \<Rightarrow> string list \<Rightarrow> pressure_resource \<Rightarrow> pressure_resource option" where
  "pressure_lines parse_float [] p = Some p"
| "pressure_lines parse_float (l # ls) p =
     (case pressure_line parse_float l p of None \<Rightarrow> None | Some p' \<Rightarrow> pressure_lines parse_float ls p')"

definition parse_pressure :: "(string \<Rightarrow> float64 option) \<Rightarrow> string \<Rightarrow> pressure_resource option" where
  "parse_pressure parse_float text =
     map_option (\<lambda>p. if pr_some p = None \<and> pr_full p = None then p\<lparr>pr_status := ''not_found''\<rparr> else p)
       (pressure_lines parse_float (split_on CHR 0x0A text) (pressure_status ''ok''))"

definition read_pressure_resource :: "(string \<Rightarrow> float64 option) \<Rightarrow> file_read \<Rightarrow> pressure_resource" where
  "read_pressure_resource parse_float content =
     (case content of
        Inl e \<Rightarrow> pressure_read_error e
      | Inr body \<Rightarrow> (case parse_pressure parse_float body of Some p \<Rightarrow> p | None \<Rightarrow> pressure_status ''error''))"

section \<open>Temperatures\<close>

definition thermal_rules :: "(string \<times> string list) list" where
  "thermal_rules =
     [(''cpu'', [''coretemp'', ''k10temp'', ''cpu'', ''tctl'', ''tdie'']),
      (''gpu'', [''gpu'', ''amdgpu'', ''radeon'', ''nouveau'']),
      (''chipset'', [''pch'', ''chipset'', ''northbridge'', ''southbridge'']),
      (''acpi'', [''acpi'', ''thermal_zone'']),
      (''board'', [''nct'', ''it87'', ''asus'', ''gigabyte'', ''superio''])]"

definition thermal_kind :: "string \<Rightarrow> string" where
  "thermal_kind key =
     (case List.find (\<lambda>(kind, terms). list_ex (contains (to_lower key)) terms) thermal_rules of
        Some (kind, _) \<Rightarrow> kind | None \<Rightarrow> ''unknown'')"

definition thermal_permission :: "string \<Rightarrow> bool" where
  "thermal_permission text \<longleftrightarrow>
     contains (to_lower text) ''permission denied'' \<or> contains (to_lower text) ''operation not permitted''"

record sensor_stat =
  ss_key :: string
  ss_temp :: float64
  ss_high :: float64
  ss_critical :: float64

record thermal_sensor =
  ts_kind :: string
  ts_name :: string
  ts_key :: string
  ts_source :: string
  ts_status :: string
  ts_temp :: float64
  ts_high :: "float64 option"
  ts_critical :: "float64 option"

record thermal =
  th_status :: string
  th_updated :: "time option"
  th_sensors :: "thermal_sensor list"

definition non_zero_float :: "float64 \<Rightarrow> float64 option" where
  "non_zero_float v = (if v = Fin 0 then None else Some v)"

definition thermal_sensor_of :: "sensor_stat \<Rightarrow> thermal_sensor option" where
  "thermal_sensor_of s =
     (let key = trim_space (ss_key s)
      in if key = [] then None
         else Some \<lparr>ts_kind = thermal_kind key, ts_name = key, ts_key = key, ts_source = ''gopsutil'', ts_status = ''ok'', ts_temp = ss_temp s,
                    ts_high = non_zero_float (ss_high s), ts_critical = non_zero_float (ss_critical s)\<rparr>)"

text \<open>\<open>readThermal\<close> on Linux: the sensors, or the text of the error and whether the deadline passed.\<close>

definition read_thermal :: "time \<Rightarrow> (string \<times> bool) + sensor_stat list \<Rightarrow> thermal" where
  "read_thermal now result =
     (case result of
        Inl (text, timed_out) \<Rightarrow>
          \<lparr>th_status = (if timed_out then ''timeout'' else if thermal_permission text then ''no_permission'' else ''error''),
           th_updated = Some now, th_sensors = []\<rparr>
      | Inr stats \<Rightarrow>
          (let sensors = List.map_filter thermal_sensor_of stats
           in \<lparr>th_status = (if sensors = [] then ''not_found'' else ''ok''), th_updated = Some now, th_sensors = sensors\<rparr>))"

section \<open>Properties\<close>

lemma wrap64_le: "0 \<le> x \<Longrightarrow> wrap64 x \<le> x"
proof -
  assume "0 \<le> x"
  then have "(x + 2 ^ 63) mod 2 ^ 64 \<le> x + 2 ^ 63" by (intro zmod_le_nonneg_dividend) simp
  then show ?thesis by (simp add: wrap64_def)
qed

lemma cache_end_le: "0 \<le> ttl \<Longrightarrow> cache_end updated ttl \<le> updated + ttl * second"
  unfolding cache_end_def time_add_def secs_def using wrap64_le [of "ttl * second"] by (simp add: second_def)

text \<open>Counts from the cache are only reported within the lifetime the cache states, also when the
  product of the lifetime overflows.\<close>

theorem cached_counts_fresh:
  assumes "conn_cache_read decode content now = Some (tcp, udp)"
  shows "\<exists>b c. content = Inr b \<and> decode b = Some c \<and> (tcp, udp) = (cc_tcp c, cc_udp c) \<and>
    0 \<le> tcp \<and> 0 \<le> udp \<and> now \<le> cc_updated c + cc_ttl c * second"
proof -
  obtain b c where c: "content = Inr b" "decode b = Some c" and ok: "0 < cc_ttl c" "0 \<le> cc_tcp c" "0 \<le> cc_udp c"
      "now \<le> cache_end (cc_updated c) (cc_ttl c)" and res: "tcp = cc_tcp c" "udp = cc_udp c"
    using assms by (auto simp: conn_cache_read_def not_less split: sum.splits option.splits if_splits)
  have "now \<le> cc_updated c + cc_ttl c * second"
    using ok(4) cache_end_le [of "cc_ttl c" "cc_updated c"] ok(1) by simp
  with c ok res show ?thesis by auto
qed

text \<open>The overflow itself: a lifetime of 300 years is taken as over at once.\<close>

lemma long_lifetime_is_over:
  "conn_cache_read (\<lambda>_. Some \<lparr>cc_schema = 1, cc_updated = 10 ^ 18, cc_ttl = 9460800000, cc_status = ''ok'', cc_tcp = 1, cc_udp = 1\<rparr>)
     (Inr ''x'') (10 ^ 18) = None"
  by (simp add: conn_cache_read_def cache_end_def go_time secs_def wrap64_def)

text \<open>The namespaces \<open>countTCPUDPByNetNS\<close> adds, with their counts.\<close>

fun counted_ns :: "proc_fs \<Rightarrow> string \<Rightarrow> string list \<Rightarrow> (string \<times> bool) list \<Rightarrow> (string \<times> int \<times> int) list" where
  "counted_ns fs proc seen [] = []"
| "counted_ns fs proc seen (e # es) =
     (case ns_of_entry fs proc seen e of
        None \<Rightarrow> counted_ns fs proc seen es
      | Some (ns, tcp, udp) \<Rightarrow> (ns, tcp, udp) # counted_ns fs proc (ns # seen) es)"

lemma ns_of_entry_fresh: "ns_of_entry fs proc seen e = Some (ns, tcp, udp) \<Longrightarrow> ns \<notin> set seen"
  by (auto simp: ns_of_entry_def split: prod.splits option.splits if_splits)

lemma counted_ns_fresh:
  "distinct (map fst (counted_ns fs proc seen es)) \<and> set (map fst (counted_ns fs proc seen es)) \<inter> set seen = {}"
proof (induction es arbitrary: seen)
  case (Cons e es)
  show ?case
  proof (cases "ns_of_entry fs proc seen e")
    case None
    with Cons show ?thesis by simp
  next
    case (Some x)
    obtain ns tcp udp where x: "x = (ns, tcp, udp)" by (metis surj_pair)
    show ?thesis
      using Cons [of "ns # seen"] ns_of_entry_fresh [of fs proc seen e ns tcp udp] Some x by auto
  qed
qed simp

lemma count_by_ns_sum:
  "count_by_ns fs proc seen es acc =
     (fst acc + sum_list (map (\<lambda>(ns, tcp, udp). tcp) (counted_ns fs proc seen es)),
      snd acc + sum_list (map (\<lambda>(ns, tcp, udp). udp) (counted_ns fs proc seen es)))"
proof (induction es arbitrary: seen acc)
  case (Cons e es)
  show ?case
  proof (cases "ns_of_entry fs proc seen e")
    case (Some x)
    obtain ns tcp udp where "x = (ns, tcp, udp)" by (metis surj_pair)
    with Some Cons show ?thesis by simp
  qed (simp add: Cons)
qed simp

text \<open>The connections of a network namespace are counted once, however many processes share it, and
  those of the own namespace are not counted again.\<close>

theorem namespaces_counted_once:
  "\<exists>seen es. seen = (if snd (snd (count_in_net_dir fs (proc @ ''/net''))) then mark_current_ns fs proc [] else [])
    \<and> count_from_proc fs proc =
      (fst (count_in_net_dir fs (proc @ ''/net'')) + sum_list (map (\<lambda>(ns, tcp, udp). tcp) (counted_ns fs proc seen es)),
       fst (snd (count_in_net_dir fs (proc @ ''/net''))) + sum_list (map (\<lambda>(ns, tcp, udp). udp) (counted_ns fs proc seen es)))
    \<and> distinct (map fst (counted_ns fs proc seen es))
    \<and> set (map fst (counted_ns fs proc seen es)) \<inter> set seen = {}"
proof -
  obtain tcp udp ok where own: "count_in_net_dir fs (proc @ ''/net'') = (tcp, udp, ok)" by (metis surj_pair)
  show ?thesis
    by (intro exI [of _ "if ok then mark_current_ns fs proc [] else []"]
          exI [of _ "case pf_entries fs of Some es \<Rightarrow> es | None \<Rightarrow> []"] conjI)
      (use counted_ns_fresh in \<open>simp_all add: count_from_proc_def own Let_def count_by_ns_sum\<close>)
qed

lemma pressure_line_status: "pressure_line parse_float l p = Some q \<Longrightarrow> pr_status q = pr_status p"
  by (auto simp: pressure_line_def Let_def split: if_splits option.splits)

lemma pressure_lines_status: "pressure_lines parse_float ls p = Some q \<Longrightarrow> pr_status q = pr_status p"
  by (induction ls arbitrary: p) (auto split: option.splits dest: pressure_line_status)

text \<open>A pressure resource is reported as available exactly when it holds a measurement.\<close>

theorem pressure_available_iff_measured:
  "pr_status (read_pressure_resource parse_float content) = ''ok'' \<longleftrightarrow>
   \<not> (pr_some (read_pressure_resource parse_float content) = None \<and>
     pr_full (read_pressure_resource parse_float content) = None)"
proof (cases content)
  case (Inl e)
  then show ?thesis
    by (cases e) (simp_all add: read_pressure_resource_def pressure_read_error_def pressure_status_def)
next
  case (Inr body)
  show ?thesis
  proof (cases "pressure_lines parse_float (split_on CHR 0x0A body) (pressure_status ''ok'')")
    case None
    with Inr show ?thesis by (simp add: read_pressure_resource_def parse_pressure_def pressure_status_def)
  next
    case (Some p)
    then have "pr_status p = ''ok''" using pressure_lines_status by (fastforce simp: pressure_status_def)
    with Inr Some show ?thesis by (auto simp: read_pressure_resource_def parse_pressure_def)
  qed
qed

section \<open>Witnesses\<close>

theorem cached_counts_fresh_witness:
  "(60 :: int) \<le> 50 + 30 * second"
  using cached_counts_fresh [of "\<lambda>_. Some \<lparr>cc_schema = 1, cc_updated = 50, cc_ttl = 30, cc_status = ''ok'', cc_tcp = 4, cc_udp = 2\<rparr>"
      "Inr ''x''" 60 4 2]
  by (simp add: conn_cache_read_def cache_end_def go_time secs_def wrap64_def)

end
