(* ===== verification/HostReport.thy ===== *)
theory HostReport
  imports DiskStorage IoRates HostReaders
begin

text \<open>
  What the sampler assembles (\<open>collect/sampler.go\<close>): the facts about the system and its processors, which
  are merged into what was known before, the metrics report of \<open>metrics/types.go\<close> and the static report of
  \<open>metrics/static_types.go\<close>.  The answers of gopsutil are arguments, \<open>None\<close> where a call failed.
\<close>

section \<open>System and processors\<close>

record sys_info =
  si_hostname :: string
  si_os :: string
  si_platform :: string
  si_platform_version :: string
  si_kernel :: string
  si_arch :: string

record host_info =
  hi_hostname :: string
  hi_os :: string
  hi_platform :: string
  hi_platform_version :: string
  hi_kernel :: string

definition no_system :: sys_info where
  "no_system = \<lparr>si_hostname = [], si_os = [], si_platform = [], si_platform_version = [], si_kernel = [], si_arch = []\<rparr>"

text \<open>\<open>hostname\<close> is the answer of \<open>os.Hostname\<close>, asked for only when \<open>host.Info\<close> gave no name.\<close>

definition read_system :: "host_info option \<Rightarrow> string option \<Rightarrow> string \<Rightarrow> sys_info" where
  "read_system info hostname arch =
     (let s = (case info of
                 None \<Rightarrow> no_system
               | Some h \<Rightarrow> \<lparr>si_hostname = trim_space (hi_hostname h), si_os = trim_space (hi_os h),
                            si_platform = trim_space (hi_platform h), si_platform_version = trim_space (hi_platform_version h),
                            si_kernel = trim_space (hi_kernel h), si_arch = []\<rparr>);
          s1 = (if si_hostname s = [] then
                  (case hostname of Some h \<Rightarrow> s\<lparr>si_hostname := trim_space h\<rparr> | None \<Rightarrow> s)
                else s)
      in s1\<lparr>si_arch := arch\<rparr>)"

text \<open>A text that is read again only replaces the known one when it is not empty, a number when it is
  positive.\<close>

definition or_text :: "string \<Rightarrow> string \<Rightarrow> string" where
  "or_text old new = (if new \<noteq> [] then new else old)"

definition or_count :: "int \<Rightarrow> int \<Rightarrow> int" where
  "or_count old new = (if new > 0 then new else old)"

definition merge_system :: "sys_info \<Rightarrow> sys_info \<Rightarrow> sys_info" where
  "merge_system dst src =
     \<lparr>si_hostname = or_text (si_hostname dst) (si_hostname src), si_os = or_text (si_os dst) (si_os src),
      si_platform = or_text (si_platform dst) (si_platform src),
      si_platform_version = or_text (si_platform_version dst) (si_platform_version src),
      si_kernel = or_text (si_kernel dst) (si_kernel src), si_arch = or_text (si_arch dst) (si_arch src)\<rparr>"

record cpu_stat =
  cx_model :: string
  cx_vendor :: string
  cx_physical_id :: string
  cx_mhz :: float64

definition no_cpu :: static_cpu where
  "no_cpu = \<lparr>sc_model = [], sc_vendor = [], sc_sockets = 0, sc_physical = 0, sc_logical = 0, sc_mhz = Fin 0\<rparr>"

definition normalize_cpu :: "static_cpu \<Rightarrow> static_cpu" where
  "normalize_cpu c =
     (if sc_sockets c \<le> 0 \<and> (sc_logical c > 0 \<or> sc_physical c > 0) then c\<lparr>sc_sockets := 1\<rparr> else c)"

definition count_cpu_sockets :: "cpu_stat list \<Rightarrow> int" where
  "count_cpu_sockets infos =
     (let ids = remdups (filter (\<lambda>i. i \<noteq> []) (map (\<lambda>c. trim_space (cx_physical_id c)) infos))
      in if ids \<noteq> [] then int (length ids) else if infos \<noteq> [] then 1 else 0)"

definition read_cpu_info :: "cpu_stat list option \<Rightarrow> int option \<Rightarrow> int option \<Rightarrow> static_cpu" where
  "read_cpu_info infos physical logical =
     (let c = (case infos of
                 Some (i # is) \<Rightarrow> no_cpu\<lparr>sc_model := trim_space (cx_model i), sc_vendor := trim_space (cx_vendor i),
                   sc_mhz := cx_mhz i, sc_sockets := count_cpu_sockets (i # is)\<rparr>
               | _ \<Rightarrow> no_cpu);
          c1 = (case physical of Some n \<Rightarrow> if n > 0 then c\<lparr>sc_physical := n\<rparr> else c | None \<Rightarrow> c);
          c2 = (case logical of Some n \<Rightarrow> if n > 0 then c1\<lparr>sc_logical := n\<rparr> else c1 | None \<Rightarrow> c1)
      in normalize_cpu c2)"

definition merge_cpu :: "static_cpu \<Rightarrow> static_cpu \<Rightarrow> static_cpu" where
  "merge_cpu dst src =
     normalize_cpu
       \<lparr>sc_model = or_text (sc_model dst) (sc_model src), sc_vendor = or_text (sc_vendor dst) (sc_vendor src),
        sc_sockets = or_count (sc_sockets dst) (sc_sockets src), sc_physical = or_count (sc_physical dst) (sc_physical src),
        sc_logical = or_count (sc_logical dst) (sc_logical src),
        sc_mhz = (if float_less (Fin 0) (sc_mhz src) then sc_mhz src else sc_mhz dst)\<rparr>"

text \<open>\<open>reportSecs\<close>: seconds, rounded up.\<close>

definition report_secs :: "duration \<Rightarrow> int" where
  "report_secs d =
     (if d \<le> 0 then 0 else d div second + (if d mod second \<noteq> 0 then 1 else 0))"

text \<open>\<open>formatUptime\<close>; Go's division rounds towards zero.\<close>

definition go_quot :: "int \<Rightarrow> int \<Rightarrow> int" where
  "go_quot a b = sgn a * sgn b * (\<bar>a\<bar> div \<bar>b\<bar>)"

definition format_uptime :: "u64 \<Rightarrow> string" where
  "format_uptime seconds =
     (let d = secs (wrap64 (uint seconds));
          day = 24 * 60 * minute; hour = 60 * minute;
          days = go_quot d day; d1 = d - days * day;
          hours = go_quot d1 hour; d2 = d1 - hours * hour
      in itoa days @ ''d '' @ itoa hours @ ''h '' @ itoa (go_quot d2 minute) @ ''m'')"

section \<open>The metrics report\<close>

record cpu_times =
  ct_user :: float64
  ct_system :: float64
  ct_idle :: float64
  ct_iowait :: float64
  ct_steal :: float64

record cpu_part =
  cu_ratio :: float64
  cu_load1 :: float64
  cu_load5 :: float64
  cu_load15 :: float64
  cu_times :: cpu_times

record memory_part =
  my_used :: u64
  my_available :: u64
  my_buffers :: u64
  my_cached :: u64
  my_ratio :: float64
  my_swap_used :: u64
  my_swap_free :: u64
  my_swap_ratio :: float64

record 'd disk_part =
  dk_physical :: "disk_physical list"
  dk_logical :: "disk_logical list"
  dk_filesystems :: "disk_filesystem list"
  dk_baseio :: "disk_base_io list"
  dk_smart :: "'d smart"

record system_part =
  yp_alive :: bool
  yp_uptime_secs :: u64
  yp_uptime :: string

record pressure_part =
  pp_cpu :: pressure_resource
  pp_memory :: pressure_resource
  pp_io :: pressure_resource

record raid_part =
  rp_supported :: bool
  rp_available :: bool
  rp_arrays :: "metrics_array list"

record 'd report =
  rt_cpu :: cpu_part
  rt_memory :: memory_part
  rt_disk :: "'d disk_part"
  rt_network :: "net_io list"
  rt_system :: system_part
  rt_procs :: int
  rt_conns :: "int \<times> int"
  rt_pressure :: pressure_part
  rt_raid :: raid_part
  rt_thermal :: thermal

definition build_filesystems :: "disk_usage list \<Rightarrow> disk_filesystem list" where
  "build_filesystems fs =
     map (\<lambda>u. \<lparr>df_path = du_path u, df_device = du_device u, df_mount = du_mount u, df_used = du_used u, df_free = du_free u,
        df_used_ratio = du_used_ratio u, df_inodes_used = du_inodes_used u, df_inodes_free = du_inodes_free u,
        df_inodes_ratio = du_inodes_ratio u\<rparr>) fs"

definition build_raid :: "raid_snapshot \<Rightarrow> raid_part" where
  "build_raid r =
     \<lparr>rp_supported = rs_supported r, rp_available = rs_available r,
      rp_arrays = map (\<lambda>a. \<lparr>ma_name = ra_name a, ma_status = ra_status a, ma_active = ra_active a, ma_working = ra_working a,
         ma_failed = ra_failed a, ma_health = ra_health a, ma_members = ra_members a, ma_sync = ra_sync a,
         ma_progress = ra_progress a\<rparr>) (rs_arrays r)\<rparr>"

section \<open>The static report\<close>

text \<open>\<open>pickFsType\<close>: the type of the mount point, or of the first one in the order of the paths.\<close>

definition pick_fstype :: "string \<Rightarrow> (string, disk_mountpoint) gomap \<Rightarrow> string" where
  "pick_fstype mp mps =
     (if mps = [] then []
      else case (if mp \<noteq> [] then map_of mps mp else None) of
        Some meta \<Rightarrow> dm_fstype meta
      | None \<Rightarrow> (case map_of mps (hd (sort (map fst mps))) of Some meta \<Rightarrow> dm_fstype meta | None \<Rightarrow> []))"

definition static_logical_of :: "logical \<Rightarrow> static_logical" where
  "static_logical_of l =
     \<lparr>sl_kind = lg_kind l, sl_name = lg_name l, sl_path = lg_path l, sl_ref = lg_ref l, sl_total = uint (lg_total l),
      sl_mount = lg_mount l, sl_fstype = pick_fstype (lg_mount l) (lg_mounts l), sl_devices = lg_devices l\<rparr>"

definition static_filesystem_of :: "disk_usage \<Rightarrow> static_filesystem" where
  "static_filesystem_of u =
     \<lparr>sf_path = du_path u, sf_device = du_device u, sf_mount = du_mount u, sf_total = uint (du_total u),
      sf_fstype = du_fstype u, sf_inodes = uint (du_inodes_total u)\<rparr>"

definition build_static_disk ::
  "resolver \<Rightarrow> disk_usage list \<Rightarrow> storage_usage list \<Rightarrow> raid_snapshot \<Rightarrow> 'd report option \<Rightarrow> aliases \<Rightarrow> static_disk" where
  "build_static_disk resolve fs storages raid latest als =
     (let logical = build_logical resolve storages raid fs als; filesystems = filter_filesystems resolve fs als
      in \<lparr>sd_physical = (case latest of
            None \<Rightarrow> []
          | Some m \<Rightarrow> map (\<lambda>p. \<lparr>sp_name = dp_name p, sp_path = dp_path p, sp_ref = dp_ref p\<rparr>) (dk_physical (rt_disk m))),
          sd_logical = map static_logical_of logical,
          sd_filesystems = map static_filesystem_of filesystems,
          sd_baseio = build_static_base_io resolve logical filesystems\<rparr>)"

definition static_raid_of :: "raid_snapshot \<Rightarrow> static_raid" where
  "static_raid_of r =
     \<lparr>sr_supported = rs_supported r, sr_available = rs_available r,
      sr_arrays = map (\<lambda>a. \<lparr>sa_name = ra_name a, sa_level = ra_level a, sa_devices = ra_devices a,
         sa_members = map rm_name (ra_members a)\<rparr>) (rs_arrays r)\<rparr>"

end
