(* ===== verification/Sampler.thy ===== *)
theory Sampler
  imports HostReport
begin

text \<open>
  The sampler of a host (\<open>collect/sampler.go\<close>): its state, the fast, slow, medium and thermal loops and the
  one of the ZFS rates, under any interleaving with each other, with \<open>Start\<close>, \<open>Stop\<close> and callers of
  \<open>Static\<close>.  A goroutine is a thread of the world; what it does between two holds of the lock is one step.
\<close>

section \<open>State\<close>

record 'd slow_cache =
  so_filesystems :: "disk_usage list"
  so_storages :: "storage_usage list"
  so_raid :: raid_snapshot
  so_aliases :: aliases
  so_smart :: "'d smart"

record 'd sampler =
  sp_nics :: "string list"
  sp_fast :: duration
  sp_medium :: duration
  sp_slow_interval :: duration
  sp_offset :: duration
  sp_delay :: duration
  sp_io :: io_sampler
  sp_zfs :: zfs_sampler
  sp_latest :: "'d report option"
  sp_latest_ts :: time
  sp_slow :: "'d slow_cache"
  sp_thermal :: thermal
  sp_cpu :: static_cpu
  sp_sys :: sys_info
  sp_version :: string
  sp_procs :: int

text \<open>What one refresh of the static facts read.\<close>

record static_read =
  sx_host :: "host_info option"
  sx_hostname :: "string option"
  sx_cpus :: "cpu_stat list option"
  sx_physical :: "int option"
  sx_logical :: "int option"

text \<open>\<open>runtime.GOARCH\<close>, a constant of the build.\<close>

definition goarch :: string where "goarch = ''amd64''"

definition refresh_static :: "static_read \<Rightarrow> 'd sampler \<Rightarrow> 'd sampler" where
  "refresh_static x s =
     s\<lparr>sp_sys := merge_system (sp_sys s) (read_system (sx_host x) (sx_hostname x) goarch),
       sp_cpu := merge_cpu (sp_cpu s) (read_cpu_info (sx_cpus x) (sx_physical x) (sx_logical x))\<rparr>"

definition proc_count :: "int list option \<Rightarrow> int" where
  "proc_count pids = (case pids of Some ps \<Rightarrow> int (length ps) | None \<Rightarrow> 0)"

definition default_thermal :: thermal where
  "default_thermal = \<lparr>th_status = ''not_found'', th_updated = None, th_sensors = []\<rparr>"

definition new_sampler ::
  "duration \<Rightarrow> duration \<Rightarrow> duration \<Rightarrow> string list \<Rightarrow> string \<Rightarrow> static_read \<Rightarrow> int list option \<Rightarrow> 'd sampler" where
  "new_sampler fast0 offset delay nics version x pids =
     (let fast = (if fast0 \<le> 0 then second else fast0)
      in refresh_static x
           \<lparr>sp_nics = nics, sp_fast = fast, sp_medium = wrap64 (fast * 8), sp_slow_interval = min minute (wrap64 (fast * 20)),
            sp_offset = offset, sp_delay = delay, sp_io = \<lparr>sm_disk = [], sm_net = [], sm_time = time_zero\<rparr>,
            sp_zfs = \<lparr>zs_rates = [], zs_request = False\<rparr>, sp_latest = None, sp_latest_ts = time_zero,
            sp_slow = \<lparr>so_filesystems = [], so_storages = [],
              so_raid = \<lparr>rs_supported = False, rs_available = False, rs_arrays = []\<rparr>, so_aliases = [],
              so_smart = smart_status ''no_cache''\<rparr>,
            sp_thermal = default_thermal, sp_cpu = no_cpu, sp_sys = no_system, sp_version = version,
            sp_procs = proc_count pids\<rparr>)"

section \<open>The fast loop\<close>

record mem_stat =
  mt_total :: u64
  mt_used :: u64
  mt_available :: u64
  mt_buffers :: u64
  mt_cached :: u64
  mt_percent :: float64

record swap_stat =
  wt_total :: u64
  wt_used :: u64
  wt_free :: u64
  wt_percent :: float64

text \<open>What the first half of \<open>collectFast\<close> read from the host.\<close>

record host_now =
  hn_ts :: time
  hn_percent :: "float64 list option"
  hn_load :: "(float64 \<times> float64 \<times> float64) option"
  hn_times :: "cpu_times list option"
  hn_mem :: "mem_stat option"
  hn_swap :: "swap_stat option"
  hn_io_time :: time
  hn_disks :: "(string, io_counters) gomap option"
  hn_ifs :: "net_counters list option"
  hn_nics :: "nic list option"
  hn_exists :: "string \<Rightarrow> bool"
  hn_uptime :: "u64 option"

definition zero_mem :: mem_stat where
  "zero_mem = \<lparr>mt_total = 0, mt_used = 0, mt_available = 0, mt_buffers = 0, mt_cached = 0, mt_percent = Fin 0\<rparr>"

definition zero_swap :: swap_stat where
  "zero_swap = \<lparr>wt_total = 0, wt_used = 0, wt_free = 0, wt_percent = Fin 0\<rparr>"

definition or_else :: "'a option \<Rightarrow> 'a \<Rightarrow> 'a" where
  "or_else x d = (case x of Some v \<Rightarrow> v | None \<Rightarrow> d)"

definition cpu_part_of :: "host_now \<Rightarrow> cpu_part" where
  "cpu_part_of h =
     (let ratio = (case hn_percent h of Some (p # _) \<Rightarrow> percent_to_ratio p | _ \<Rightarrow> Fin 0)
      in case or_else (hn_load h) (Fin (- 1), Fin (- 1), Fin (- 1)) of (l1, l5, l15) \<Rightarrow>
           \<lparr>cu_ratio = ratio, cu_load1 = l1, cu_load5 = l5, cu_load15 = l15,
            cu_times = (case hn_times h of Some (t # _) \<Rightarrow> t
              | _ \<Rightarrow> \<lparr>ct_user = Fin 0, ct_system = Fin 0, ct_idle = Fin 0, ct_iowait = Fin 0, ct_steal = Fin 0\<rparr>)\<rparr>)"

definition memory_part_of :: "host_now \<Rightarrow> memory_part" where
  "memory_part_of h =
     (let vm = or_else (hn_mem h) zero_mem; swap = or_else (hn_swap h) zero_swap
      in \<lparr>my_used = mt_used vm, my_available = mt_available vm, my_buffers = mt_buffers vm, my_cached = mt_cached vm,
          my_ratio = percent_to_ratio (mt_percent vm), my_swap_used = wt_used swap, my_swap_free = wt_free swap,
          my_swap_ratio = percent_to_ratio (wt_percent swap)\<rparr>)"

text \<open>What a collection has read when it releases the lock for the first time.\<close>

record 'd fast_view =
  fv_ts :: time
  fv_cpu :: cpu_part
  fv_memory :: memory_part
  fv_disk_io :: "(string, disk_io) gomap"
  fv_net :: "net_io list"
  fv_uptime :: u64
  fv_procs :: int
  fv_slow :: "'d slow_cache"
  fv_thermal :: thermal

definition collect_fast_read :: "host_now \<Rightarrow> 'd sampler \<Rightarrow> 'd sampler \<times> 'd fast_view" where
  "collect_fast_read h s =
     (case sample_io (hn_io_time h) (filter_disk_counters (hn_exists h) (or_else (hn_disks h) []))
             (or_else (hn_ifs h) []) (selected_nics (hn_exists h) (hn_nics h) (sp_nics s)) (sp_io s) of
        (io, disk_io, net_io) \<Rightarrow>
          (s\<lparr>sp_io := io\<rparr>,
           \<lparr>fv_ts = hn_ts h, fv_cpu = cpu_part_of h, fv_memory = memory_part_of h, fv_disk_io = disk_io, fv_net = net_io,
            fv_uptime = or_else (hn_uptime h) 0, fv_procs = sp_procs s, fv_slow = sp_slow s, fv_thermal = sp_thermal s\<rparr>))"

text \<open>The second half: connections and pressure are read, the report is built and published.\<close>

record host_tail =
  ht_conn_cache :: file_read
  ht_conn_decode :: "string \<Rightarrow> conn_cache option"
  ht_now :: time
  ht_proc :: proc_fs
  ht_pressure :: "string \<Rightarrow> file_read"
  ht_parse_float :: "string \<Rightarrow> float64 option"
  ht_resolve :: resolver

definition read_pressure :: "(string \<Rightarrow> float64 option) \<Rightarrow> (string \<Rightarrow> file_read) \<Rightarrow> pressure_part" where
  "read_pressure parse_float content =
     \<lparr>pp_cpu = read_pressure_resource parse_float (content ''/proc/pressure/cpu''),
      pp_memory = read_pressure_resource parse_float (content ''/proc/pressure/memory''),
      pp_io = read_pressure_resource parse_float (content ''/proc/pressure/io'')\<rparr>"

definition collect_fast_report :: "host_tail \<Rightarrow> (string, zfs_io_rates) gomap \<Rightarrow> 'd fast_view \<Rightarrow> 'd report" where
  "collect_fast_report h zfs v =
     (let slow = fv_slow v; als = so_aliases slow;
          physical = build_physical (fv_disk_io v);
          filesystems = filter_filesystems (ht_resolve h) (so_filesystems slow) als;
          logicals = build_logical (ht_resolve h) (so_storages slow) (so_raid slow) filesystems als;
          rates = (if list_ex (\<lambda>l. lg_kind l = ''zfs_pool'') logicals then zfs else [])
      in \<lparr>rt_cpu = fv_cpu v, rt_memory = fv_memory v,
          rt_disk = \<lparr>dk_physical = physical, dk_logical = build_logical_metrics logicals,
            dk_filesystems = build_filesystems filesystems,
            dk_baseio = build_base_io (ht_resolve h) logicals physical filesystems rates, dk_smart = so_smart slow\<rparr>,
          rt_network = fv_net v,
          rt_system = \<lparr>yp_alive = True, yp_uptime_secs = fv_uptime v, yp_uptime = format_uptime (fv_uptime v)\<rparr>,
          rt_procs = fv_procs v,
          rt_conns = count_with_cache (ht_conn_decode h) (ht_conn_cache h) (ht_proc h) ''/proc'' (ht_now h),
          rt_pressure = read_pressure (ht_parse_float h) (ht_pressure h),
          rt_raid = build_raid (so_raid slow), rt_thermal = fv_thermal v\<rparr>)"

definition collect_fast_publish :: "host_tail \<Rightarrow> 'd fast_view \<Rightarrow> 'd sampler \<Rightarrow> 'd sampler" where
  "collect_fast_publish h v s =
     s\<lparr>sp_latest := Some (collect_fast_report h (zs_rates (sp_zfs s)) v), sp_latest_ts := fv_ts v\<rparr>"

section \<open>The slow loop\<close>

definition kind_rank :: "string \<Rightarrow> int" where
  "kind_rank k =
     (if k = ''zfs_pool'' then 0 else if k = ''lvm_thinpool'' then 1 else if k = ''raid'' then 2
      else if k = ''disk'' then 3 else 9)"

definition storage_order :: "storage_usage \<Rightarrow> int \<times> string \<times> string" where
  "storage_order u = (kind_rank (su_kind u), su_kind u, su_name u)"

text \<open>What \<open>sort.Slice\<close> may return: it need not be stable, and two storages may have the same kind and name.\<close>

definition sorted_storages :: "storage_usage list \<Rightarrow> storage_usage list \<Rightarrow> bool" where
  "sorted_storages xs ys \<longleftrightarrow> mset ys = mset xs \<and> sorted (map storage_order ys)"

definition has_zfs :: "storage_usage list \<Rightarrow> bool" where
  "has_zfs us \<longleftrightarrow> list_ex (\<lambda>u. su_kind u = ''zfs_pool'') us"

text \<open>The file systems of a collection: the results of the usage reader in the order they arrived.\<close>

definition slow_filesystems :: "partition list option \<Rightarrow> (string \<Rightarrow> usage_answer) \<Rightarrow> disk_usage list \<Rightarrow> disk_usage list \<Rightarrow> bool" where
  "slow_filesystems parts answer results fs \<longleftrightarrow>
     (case parts of
        None \<Rightarrow> fs = []
      | Some ps \<Rightarrow> mset results = mset (usage_results answer (usage_jobs True [] ps)) \<and> fs = collect_usage results)"

definition collect_slow_publish :: "'d slow_cache \<Rightarrow> 'd sampler \<Rightarrow> 'd sampler" where
  "collect_slow_publish c s = s\<lparr>sp_slow := c\<rparr>"

definition collect_slow_trigger :: "storage_usage list \<Rightarrow> 'd sampler \<Rightarrow> 'd sampler" where
  "collect_slow_trigger us s = (if has_zfs us then s\<lparr>sp_zfs := zfs_trigger (sp_zfs s)\<rparr> else s)"

section \<open>The static report\<close>

text \<open>\<open>Static\<close> is \<open>refresh_static\<close> and then, once it holds the lock again, this report of the state it finds.\<close>

definition sampler_static ::
  "resolver \<Rightarrow> mem_stat option \<Rightarrow> swap_stat option \<Rightarrow> time \<Rightarrow> 'd sampler \<Rightarrow> static" where
  "sampler_static resolve vm swap now s =
     \<lparr>st_version = sp_version s, st_timestamp = now, st_interval = report_secs (sp_fast s), st_cpu = sp_cpu s,
      st_memory = \<lparr>sm_total = uint (mt_total (or_else vm zero_mem)), sm_swap = uint (wt_total (or_else swap zero_swap))\<rparr>,
      st_disk = build_static_disk resolve (so_filesystems (sp_slow s)) (so_storages (sp_slow s)) (so_raid (sp_slow s))
        (sp_latest s) (so_aliases (sp_slow s)),
      st_system = \<lparr>sy_hostname = si_hostname (sp_sys s), sy_os = si_os (sp_sys s), sy_platform = si_platform (sp_sys s),
        sy_platform_version = si_platform_version (sp_sys s), sy_kernel = si_kernel (sp_sys s), sy_arch = si_arch (sp_sys s)\<rparr>,
      st_raid = static_raid_of (so_raid (sp_slow s))\<rparr>"

section \<open>Threads\<close>

datatype run_state = Created | Running | Stopped

text \<open>A call of \<open>Start\<close> past its guard, before, within and after its collection, and the five loops: waiting,
  within a collection, or on the way to one.\<close>

datatype 'd thread =
    Starting | StartCollecting "'d fast_view" | Started
  | ZfsWaiting | ZfsReading bool
  | FastWaiting | FastCollecting "'d fast_view"
  | SlowDelaying | SlowCollecting | SlowTriggering "storage_usage list" | SlowWaiting
  | MediumWaiting
  | ThermalReading | ThermalWaiting

record 'd sampler_world =
  sw_data :: "'d sampler"
  sw_run :: run_state
  sw_cancelled :: bool
  sw_threads :: "'d thread list"

definition sampler_start :: "'d sampler_world \<Rightarrow> 'd sampler_world" where
  "sampler_start w =
     (if sw_run w \<noteq> Created then w else w\<lparr>sw_run := Running, sw_threads := sw_threads w @ [Starting]\<rparr>)"

definition sampler_stop :: "'d sampler_world \<Rightarrow> 'd sampler_world" where
  "sampler_stop w = (if sw_run w \<noteq> Running then w else w\<lparr>sw_run := Stopped, sw_cancelled := True\<rparr>)"

text \<open>A step of one thread: the threads it goes on as and the state of the sampler it leaves.  A \<open>select\<close> may
  still take a tick when the context is already done.\<close>

inductive thread_step :: "bool \<Rightarrow> 'd thread \<Rightarrow> 'd sampler \<Rightarrow> 'd thread list \<Rightarrow> 'd sampler \<Rightarrow> bool" where
  start_read: "collect_fast_read h s = (s', v) \<Longrightarrow> thread_step c Starting s [StartCollecting v] s'"
| start_publish: "thread_step c (StartCollecting v) s [Started] (collect_fast_publish t v s)"
| start_loops: "thread_step c Started s [ZfsWaiting, FastWaiting, SlowDelaying, MediumWaiting, ThermalReading] s"
| fast_tick: "collect_fast_read h s = (s', v) \<Longrightarrow> thread_step c FastWaiting s [FastCollecting v] s'"
| fast_publish: "thread_step c (FastCollecting v) s [FastWaiting] (collect_fast_publish t v s)"
| slow_delay: "thread_step c SlowDelaying s [SlowCollecting] s"
| slow_publish:
    "slow_filesystems parts answer results fs \<Longrightarrow>
     sorted_storages (collect_storages read fs raid zpool lvm lsblk) us \<Longrightarrow>
     thread_step c SlowCollecting s [SlowTriggering us]
       (collect_slow_publish \<lparr>so_filesystems = fs, so_storages = us, so_raid = raid,
          so_aliases = build_mapper_aliases resolve ents, so_smart = smart_read decode content now\<rparr> s)"
| slow_trigger: "thread_step c (SlowTriggering us) s [SlowWaiting] (collect_slow_trigger us s)"
| slow_tick: "thread_step c SlowWaiting s [SlowCollecting] s"
| medium_tick: "thread_step c MediumWaiting s [MediumWaiting] (s\<lparr>sp_procs := proc_count pids\<rparr>)"
| thermal_read: "thread_step c ThermalReading s [ThermalWaiting] (s\<lparr>sp_thermal := read_thermal now sensors\<rparr>)"
| thermal_tick: "thread_step c ThermalWaiting s [ThermalReading] s"
| zfs_request: "zs_request (sp_zfs s) \<Longrightarrow>
     thread_step c ZfsWaiting s [ZfsReading (has_zfs (so_storages (sp_slow s)))] (s\<lparr>sp_zfs := (sp_zfs s)\<lparr>zs_request := False\<rparr>\<rparr>)"
| zfs_tick: "thread_step c ZfsWaiting s [ZfsReading (has_zfs (so_storages (sp_slow s)))] s"
| zfs_set: "thread_step c (ZfsReading enabled) s [ZfsWaiting] (s\<lparr>sp_zfs := zfs_wake False enabled rates (sp_zfs s)\<rparr>)"
| done_zfs: "thread_step True ZfsWaiting s [] s"
| done_fast: "thread_step True FastWaiting s [] s"
| done_delay: "thread_step True SlowDelaying s [] s"
| done_slow: "thread_step True SlowWaiting s [] s"
| done_medium: "thread_step True MediumWaiting s [] s"
| done_thermal: "thread_step True ThermalWaiting s [] s"

inductive sampler_step :: "'d sampler_world \<Rightarrow> 'd sampler_world \<Rightarrow> bool" where
  run_thread: "sw_threads w = ts @ t # us \<Longrightarrow> thread_step (sw_cancelled w) t (sw_data w) ts' s' \<Longrightarrow>
     sampler_step w (w\<lparr>sw_data := s', sw_threads := ts @ ts' @ us\<rparr>)"
| start_call: "sampler_step w (sampler_start w)"
| stop_call: "sampler_step w (sampler_stop w)"
| static_call: "sampler_step w (w\<lparr>sw_data := refresh_static x (sw_data w)\<rparr>)"

definition new_world :: "'d sampler \<Rightarrow> 'd sampler_world" where
  "new_world s = \<lparr>sw_data = s, sw_run = Created, sw_cancelled = False, sw_threads = []\<rparr>"

section \<open>The threads of a sampler\<close>

text \<open>The loop a thread belongs to; 0 is the call of \<open>Start\<close>.\<close>

fun loop_of :: "'d thread \<Rightarrow> nat" where
  "loop_of Starting = 0" | "loop_of (StartCollecting v) = 0" | "loop_of Started = 0"
| "loop_of ZfsWaiting = 1" | "loop_of (ZfsReading b) = 1"
| "loop_of FastWaiting = 2" | "loop_of (FastCollecting v) = 2"
| "loop_of SlowDelaying = 3" | "loop_of SlowCollecting = 3" | "loop_of (SlowTriggering us) = 3" | "loop_of SlowWaiting = 3"
| "loop_of MediumWaiting = 4"
| "loop_of ThermalReading = 5" | "loop_of ThermalWaiting = 5"

fun collecting :: "'d thread \<Rightarrow> bool" where
  "collecting (StartCollecting v) = True"
| "collecting (FastCollecting v) = True"
| "collecting _ = False"

definition threads_ok :: "'d sampler_world \<Rightarrow> bool" where
  "threads_ok w \<longleftrightarrow>
     (sw_run w = Created \<longrightarrow> sw_threads w = []) \<and> (sw_cancelled w \<longleftrightarrow> sw_run w = Stopped) \<and>
     distinct (map loop_of (sw_threads w)) \<and>
     (0 \<in> set (map loop_of (sw_threads w)) \<longrightarrow> map loop_of (sw_threads w) = [0])"

lemma thread_step_loops:
  "thread_step c t s ts s' \<Longrightarrow> map loop_of ts = [loop_of t] \<or> ts = [] \<or> (loop_of t = 0 \<and> map loop_of ts = [1, 2, 3, 4, 5])"
  by (induction rule: thread_step.induct) simp_all

lemma threads_ok_step:
  assumes ok: "threads_ok w" and step: "sampler_step w w'"
  shows "threads_ok w'"
  using step
proof (cases rule: sampler_step.cases)
  case (run_thread ts t us ts' s')
  from thread_step_loops [OF run_thread(3)]
  consider "map loop_of ts' = [loop_of t]" | "ts' = []" | "loop_of t = 0" "map loop_of ts' = [1, 2, 3, 4, 5]" by (elim disjE conjE)
  then show ?thesis
  proof cases
    case 1
    then have "map loop_of (sw_threads w') = map loop_of (sw_threads w)" using run_thread(1,2) by simp
    with ok run_thread(1,2) show ?thesis by (auto simp: threads_ok_def simp del: set_map)
  next
    case 2
    have "map loop_of (sw_threads w) \<noteq> [0]" if "0 \<in> set (map loop_of (ts @ us))"
      using that run_thread(2) by (cases ts) auto
    with 2 ok run_thread(1,2) show ?thesis by (auto simp: threads_ok_def)
  next
    case 3
    then have "map loop_of (sw_threads w) = [0]" using ok run_thread(2) by (force simp: threads_ok_def)
    then have "ts = [] \<and> us = []" using run_thread(2) by (cases ts) auto
    with 3 ok run_thread(1,2) show ?thesis by (auto simp: threads_ok_def)
  qed
qed (use ok in \<open>auto simp: threads_ok_def sampler_start_def sampler_stop_def\<close>)

lemma threads_ok_reach:
  assumes "sampler_step\<^sup>*\<^sup>* (new_world s) w"
  shows "threads_ok w"
  using assms
proof (induction rule: rtranclp_induct)
  case base
  show ?case by (simp add: new_world_def threads_ok_def)
next
  case (step w w')
  then show ?case by (blast intro: threads_ok_step)
qed

lemma collecting_loop: "collecting t \<Longrightarrow> loop_of t = 0 \<or> loop_of t = 2"
  by (cases t) auto

text \<open>\<open>Start\<close> has an effect once: in every reachable state each loop runs at most once and at most one
  collection of the fast loop is in progress, however often \<open>Start\<close> and \<open>Stop\<close> are called, so no two
  collections share the counters of the I/O sampler.\<close>

theorem loops_run_once:
  assumes "sampler_step\<^sup>*\<^sup>* (new_world s) w"
  shows "distinct (map loop_of (sw_threads w)) \<and> length (filter collecting (sw_threads w)) \<le> 1"
proof
  have ok: "threads_ok w" by (rule threads_ok_reach [OF assms])
  then show dist: "distinct (map loop_of (sw_threads w))" by (simp add: threads_ok_def)
  define ls where "ls = map loop_of (filter collecting (sw_threads w))"
  have sub: "set ls \<subseteq> {0, 2}" by (auto simp: ls_def dest: collecting_loop)
  have "ls = [] \<or> set ls \<subseteq> {0} \<or> set ls \<subseteq> {2}"
  proof (cases "0 \<in> set (map loop_of (sw_threads w))")
    case True
    then have "set (map loop_of (sw_threads w)) = {0}" using ok by (simp add: threads_ok_def)
    then have "set ls \<subseteq> {0}" by (auto simp: ls_def)
    then show ?thesis by blast
  next
    case False
    then have "0 \<notin> set ls" by (auto simp: ls_def)
    then show ?thesis using sub by blast
  qed
  then have "card (set ls) \<le> 1" using card_mono [of "{0 :: nat}" "set ls"] card_mono [of "{2 :: nat}" "set ls"] by auto
  moreover have "distinct ls" using dist by (simp add: ls_def distinct_map_filter)
  ultimately show "length (filter collecting (sw_threads w)) \<le> 1"
    using distinct_card [of ls] by (simp add: ls_def)
qed

section \<open>Stopping\<close>

text \<open>How many steps a thread still needs once the context is done, when it is given no more ticks.\<close>

fun steps_left :: "'d thread \<Rightarrow> nat" where
  "steps_left Starting = 9" | "steps_left (StartCollecting v) = 8" | "steps_left Started = 7"
| "steps_left ZfsWaiting = 1" | "steps_left (ZfsReading b) = 2"
| "steps_left FastWaiting = 1" | "steps_left (FastCollecting v) = 2"
| "steps_left SlowDelaying = 1" | "steps_left SlowCollecting = 3" | "steps_left (SlowTriggering us) = 2" | "steps_left SlowWaiting = 1"
| "steps_left MediumWaiting = 1"
| "steps_left ThermalReading = 2" | "steps_left ThermalWaiting = 1"

lemma sorted_storages_exist: "sorted_storages xs (sort_key storage_order xs)"
  by (simp add: sorted_storages_def)

lemma no_filesystems: "slow_filesystems None answer results []"
  by (simp add: slow_filesystems_def)

lemma thread_can_step: "\<exists>ts s'. thread_step True t s ts s' \<and> sum_list (map steps_left ts) < steps_left t"
proof (cases t)
  case Starting
  obtain s' v where "collect_fast_read undefined s = (s', v)" by (metis surj_pair)
  then show ?thesis using Starting thread_step.start_read by fastforce
next
  case (StartCollecting v)
  then show ?thesis using thread_step.start_publish by fastforce
next
  case Started
  then show ?thesis using thread_step.start_loops by fastforce
next
  case ZfsWaiting
  then show ?thesis using thread_step.done_zfs by fastforce
next
  case (ZfsReading b)
  then show ?thesis using thread_step.zfs_set by fastforce
next
  case FastWaiting
  then show ?thesis using thread_step.done_fast by fastforce
next
  case (FastCollecting v)
  then show ?thesis using thread_step.fast_publish by fastforce
next
  case SlowDelaying
  then show ?thesis using thread_step.done_delay by fastforce
next
  case SlowCollecting
  then show ?thesis using thread_step.slow_publish [OF no_filesystems sorted_storages_exist] by fastforce
next
  case (SlowTriggering us)
  then show ?thesis using thread_step.slow_trigger by fastforce
next
  case SlowWaiting
  then show ?thesis using thread_step.done_slow by fastforce
next
  case MediumWaiting
  then show ?thesis using thread_step.done_medium by fastforce
next
  case ThermalReading
  then show ?thesis using thread_step.thermal_read by fastforce
next
  case ThermalWaiting
  then show ?thesis using thread_step.done_thermal by fastforce
qed

lemma threads_can_end:
  "sw_cancelled w \<Longrightarrow>
   \<exists>n w'. (sampler_step ^^ n) w w' \<and> n \<le> sum_list (map steps_left (sw_threads w)) \<and> sw_threads w' = [] \<and> sw_run w' = sw_run w"
proof (induction "sum_list (map steps_left (sw_threads w))" arbitrary: w rule: less_induct)
  case less
  show ?case
  proof (cases "sw_threads w")
    case Nil
    have "(sampler_step ^^ 0) w w" by simp
    with Nil show ?thesis by (metis le0)
  next
    case (Cons t us)
    obtain ts s' where ts: "thread_step True t (sw_data w) ts s'" "sum_list (map steps_left ts) < steps_left t"
      using thread_can_step by blast
    let ?w = "w\<lparr>sw_data := s', sw_threads := ts @ us\<rparr>"
    have step: "sampler_step w ?w"
      using sampler_step.run_thread [of w "[]" t us ts s'] Cons ts(1) less.prems by simp
    have smaller: "sum_list (map steps_left (sw_threads ?w)) < sum_list (map steps_left (sw_threads w))"
      using ts(2) Cons by simp
    obtain n w' where n: "(sampler_step ^^ n) ?w w'" "n \<le> sum_list (map steps_left (sw_threads ?w))"
        "sw_threads w' = []" "sw_run w' = sw_run ?w"
      using less.hyps [OF smaller] less.prems by auto
    have "(sampler_step ^^ Suc n) w w'" using step n(1) by (metis relpowp_Suc_I2)
    moreover have "Suc n \<le> sum_list (map steps_left (sw_threads w))" using n(2) smaller by simp
    ultimately show ?thesis using n(3,4) by fastforce
  qed
qed

lemma steps_left_le: "steps_left t \<le> 9"
  by (cases t) simp_all

lemma loop_of_le: "loop_of t \<le> 5"
  by (cases t) simp_all

text \<open>C40. Once a running sampler is stopped, all its goroutines can end, from every reachable state and whatever
  they are doing, in a bounded number of steps, none of which waits for another; and \<open>Start\<close> does not
  bring them back.\<close>

theorem stopped_sampler_ends:
  assumes "sampler_step\<^sup>*\<^sup>* (new_world s) w" and "sw_run w = Stopped"
  shows "\<exists>n w'. (sampler_step ^^ n) w w' \<and> n \<le> 54 \<and> sw_threads w' = [] \<and> sampler_start w' = w'"
proof -
  have ok: "threads_ok w" by (rule threads_ok_reach [OF assms(1)])
  then have c: "sw_cancelled w" using assms(2) by (simp add: threads_ok_def)
  have fam: "set (map loop_of (sw_threads w)) \<subseteq> {0..5}" using loop_of_le by fastforce
  have "length (sw_threads w) = card (set (map loop_of (sw_threads w)))"
    using ok distinct_card [of "map loop_of (sw_threads w)"] by (simp add: threads_ok_def)
  also have "\<dots> \<le> 6" using card_mono [OF _ fam] by simp
  finally have len: "length (sw_threads w) \<le> 6" .
  have "sum_list (map steps_left (sw_threads w)) \<le> sum_list (map (\<lambda>_. 9) (sw_threads w))"
    by (rule sum_list_mono) (rule steps_left_le)
  then have "sum_list (map steps_left (sw_threads w)) \<le> 54" using len by (simp add: sum_list_triv)
  moreover obtain n w' where "(sampler_step ^^ n) w w'" "n \<le> sum_list (map steps_left (sw_threads w))"
      "sw_threads w' = []" "sw_run w' = sw_run w"
    using threads_can_end [OF c] by blast
  ultimately show ?thesis using assms(2) by (fastforce simp: sampler_start_def)
qed

section \<open>What is published\<close>

definition view_ok :: "'d fast_view \<Rightarrow> bool" where
  "view_ok v \<longleftrightarrow> list_all (\<lambda>(name, io). io_ok io) (fv_disk_io v) \<and> list_all net_ok (fv_net v)"

text \<open>The rates of a report that come from counters; the base entries of kind \<open>logical\<close> hold what \<open>zpool\<close>
  printed.\<close>

definition report_ok :: "'d report \<Rightarrow> bool" where
  "report_ok m \<longleftrightarrow>
     list_all (\<lambda>p. io_ok (dp_io p)) (dk_physical (rt_disk m)) \<and> list_all net_ok (rt_network m) \<and>
     list_all (\<lambda>b. bi_kind b = ''logical'' \<or> io_ok (bi_io b)) (dk_baseio (rt_disk m))"

fun thread_ok :: "'d thread \<Rightarrow> bool" where
  "thread_ok (StartCollecting v) = view_ok v"
| "thread_ok (FastCollecting v) = view_ok v"
| "thread_ok _ = True"

definition reports_ok :: "'d sampler_world \<Rightarrow> bool" where
  "reports_ok w \<longleftrightarrow> list_all thread_ok (sw_threads w) \<and> pred_option report_ok (sp_latest (sw_data w))"

lemma zero_io_ok: "io_ok zero_io"
  by (simp add: io_ok_def zero_io_def fin_le_def finite_nonneg.simps)

lemma collect_fast_read_ok: "collect_fast_read h s = (s', v) \<Longrightarrow> view_ok v \<and> sp_latest s' = sp_latest s"
  using sample_io_ok [of "hn_io_time h" "filter_disk_counters (hn_exists h) (or_else (hn_disks h) [])" "or_else (hn_ifs h) []"
      "selected_nics (hn_exists h) (hn_nics h) (sp_nics s)" "sp_io s"]
  by (auto simp: collect_fast_read_def view_ok_def split: prod.splits)

lemma build_physical_ok: "list_all (\<lambda>(name, io). io_ok io) m \<Longrightarrow> list_all (\<lambda>p. io_ok (dp_io p)) (build_physical m)"
  by (auto simp: build_physical_def list_all_iff zero_io_ok split: option.splits dest: map_of_SomeD)

lemma physical_map_ok:
  assumes "list_all (\<lambda>p. io_ok (dp_io p)) ps" and "map_of (physical_map resolve ps) n = Some io"
  shows "io_ok io"
proof -
  have "list_all (\<lambda>p. io_ok (dp_io p)) ps \<Longrightarrow> (\<forall>n io. map_of out n = Some io \<longrightarrow> io_ok io) \<Longrightarrow>
      map_of (fold (\<lambda>p out. let name = normalize_device_name resolve (dp_name p)
        in if name = [] then out else AList.update name (dp_io p) out) ps out) n = Some io \<Longrightarrow> io_ok io" for out
  proof (induction ps arbitrary: out)
    case (Cons p ps)
    let ?out = "let name = normalize_device_name resolve (dp_name p)
        in if name = [] then out else AList.update name (dp_io p) out"
    have "\<forall>n io. map_of ?out n = Some io \<longrightarrow> io_ok io" using Cons.prems(1,2) by (auto simp: Let_def)
    then show ?case using Cons.IH [of ?out] Cons.prems(1,3) by simp
  qed simp
  from this [of "[]"] assms show ?thesis by (simp add: physical_map_def)
qed

lemma build_base_io_ok:
  assumes "list_all (\<lambda>p. io_ok (dp_io p)) physical"
  shows "list_all (\<lambda>b. bi_kind b = ''logical'' \<or> io_ok (bi_io b)) (build_base_io resolve logical physical fs rates)"
proof -
  have "bi_kind (fill_base_io resolve (physical_map resolve physical) rates c) = ''logical'' \<or>
      io_ok (bi_io (fill_base_io resolve (physical_map resolve physical) rates c))" for c
    using physical_map_ok [OF assms] zero_io_ok
    by (auto simp: fill_base_io_def Let_def split: option.split)
  then show ?thesis by (simp add: build_base_io_def Let_def list_all_iff)
qed

lemma collect_fast_report_ok: "view_ok v \<Longrightarrow> report_ok (collect_fast_report h zfs v)"
  by (simp add: report_ok_def collect_fast_report_def Let_def view_ok_def build_physical_ok build_base_io_ok)

lemma thread_step_reports:
  "thread_step c t s ts s' \<Longrightarrow> thread_ok t \<Longrightarrow> pred_option report_ok (sp_latest s) \<Longrightarrow>
   list_all thread_ok ts \<and> pred_option report_ok (sp_latest s')"
  by (induction rule: thread_step.induct)
    (auto simp: collect_fast_publish_def collect_slow_publish_def collect_slow_trigger_def collect_fast_report_ok dest: collect_fast_read_ok)

lemma reports_ok_step:
  assumes ok: "reports_ok w" and step: "sampler_step w w'"
  shows "reports_ok w'"
  using step
proof (cases rule: sampler_step.cases)
  case (run_thread ts t us ts' s')
  then show ?thesis using thread_step_reports [OF run_thread(3)] ok by (auto simp: reports_ok_def)
qed (use ok in \<open>auto simp: reports_ok_def sampler_start_def sampler_stop_def refresh_static_def\<close>)

text \<open>C8. In every reachable state the published report has only finite rates that are not negative, and no
  utilisation above 1, for every physical disk, every network interface, and every base device that is a
  physical disk or an array, whatever the counters and the clock did and however the loops interleaved.
  The base devices of kind \<open>logical\<close> are left out: their rates are the numbers \<open>zpool iostat\<close> printed.\<close>

theorem published_rates_finite:
  assumes "sampler_step\<^sup>*\<^sup>* (new_world (new_sampler fast offset delay nics version x pids)) w"
    and "sp_latest (sw_data w) = Some m"
  shows "report_ok m"
proof -
  have "reports_ok w"
    using assms(1)
  proof (induction rule: rtranclp_induct)
    case base
    show ?case by (simp add: reports_ok_def new_world_def new_sampler_def refresh_static_def Let_def)
  next
    case (step w w')
    then show ?case by (blast intro: reports_ok_step)
  qed
  with assms(2) show ?thesis by (simp add: reports_ok_def)
qed

section \<open>The static report\<close>

lemmas facts_simps = refresh_static_def merge_system_def merge_cpu_def normalize_cpu_def or_text_def or_count_def

text \<open>Only a refresh touches what is known of the system and the processors, and no step the settings.\<close>

lemma thread_step_facts:
  "thread_step c t s ts s' \<Longrightarrow> sp_sys s' = sp_sys s \<and> sp_cpu s' = sp_cpu s \<and> sp_version s' = sp_version s \<and> sp_fast s' = sp_fast s"
  by (induction rule: thread_step.induct)
    (auto simp: collect_fast_publish_def collect_slow_publish_def collect_slow_trigger_def collect_fast_read_def split: prod.splits)

lemma sampler_step_facts:
  assumes "sampler_step w w'"
  shows "sp_version (sw_data w') = sp_version (sw_data w) \<and> sp_fast (sw_data w') = sp_fast (sw_data w) \<and>
    (sp_sys (sw_data w') = sp_sys (sw_data w) \<and> sp_cpu (sw_data w') = sp_cpu (sw_data w) \<or>
     (\<exists>x. sw_data w' = refresh_static x (sw_data w)))"
  using assms
proof (cases rule: sampler_step.cases)
  case (run_thread ts t us ts' s')
  then show ?thesis using thread_step_facts [OF run_thread(3)] by simp
qed (auto simp: sampler_start_def sampler_stop_def refresh_static_def)

lemma settings_kept:
  assumes "sampler_step\<^sup>*\<^sup>* w w'"
  shows "sp_version (sw_data w') = sp_version (sw_data w) \<and> sp_fast (sw_data w') = sp_fast (sw_data w)"
  using assms
proof (induction rule: rtranclp_induct)
  case (step w' w'')
  then show ?case using sampler_step_facts [OF step(2)] by simp
qed simp

lemma report_secs_ceiling: "0 < d \<Longrightarrow> 0 < report_secs d \<and> d \<le> report_secs d * second \<and> report_secs d * second < d + second"
proof -
  assume d: "0 < d"
  have eq: "d = d div second * second + d mod second" by simp
  have m: "0 \<le> d mod second \<and> d mod second < second" by (simp add: second_def)
  have q: "0 \<le> d div second" using d by (simp add: pos_imp_zdiv_nonneg_iff second_def)
  have rs: "report_secs d = d div second + (if d mod second \<noteq> 0 then 1 else 0)" using d by (simp add: report_secs_def)
  have pos: "0 < report_secs d"
  proof (cases "d mod second = 0")
    case True
    then have "d div second \<noteq> 0" using d eq by auto
    with q rs True show ?thesis by simp
  qed (use q rs in simp)
  have "report_secs d * second = d div second * second + (if d mod second \<noteq> 0 then second else 0)"
    using rs by (simp add: algebra_simps)
  then have "report_secs d * second = d div second * second + (if d mod second = 0 then 0 else second)" by simp
  then have "d mod second = 0 \<and> report_secs d * second = d div second * second \<or> report_secs d * second = d div second * second + second \<and> 0 < d mod second"
    using m by (cases "d mod second = 0") auto
  then show ?thesis using pos eq m by (elim disjE conjE) (intro conjI; linarith)+
qed

text \<open>C31. Whatever interval the sampler was made with and however long it has run, its static report is one the
  agent can send: the validation accepts it, and the interval it states is the one of the fast loop in
  seconds, rounded up.\<close>

theorem static_is_sendable:
  assumes "sampler_step\<^sup>*\<^sup>* (new_world (new_sampler fast offset delay nics version x pids)) w"
    and "trim_space version \<noteq> []" and "\<not> is_zero_time now"
  shows "validate_static (Some (sampler_static resolve vm swap now (sw_data w))) = Inr ()
    \<and> sp_fast (sw_data w) \<le> st_interval (sampler_static resolve vm swap now (sw_data w)) * second
    \<and> st_interval (sampler_static resolve vm swap now (sw_data w)) * second < sp_fast (sw_data w) + second"
proof -
  have set: "sp_version (sw_data w) = version" "sp_fast (sw_data w) = (if fast \<le> 0 then second else fast)"
    using settings_kept [OF assms(1)] by (simp_all add: new_world_def new_sampler_def refresh_static_def Let_def)
  then have "0 < sp_fast (sw_data w)" by (simp add: second_def)
  from report_secs_ceiling [OF this] set(1) assms(2,3) show ?thesis
    by (simp add: validate_static_def sampler_static_def missing_if_def)
qed

text \<open>The fields a target waits for that do not depend on the memory read with the report.\<close>

definition facts_missing :: "'d sampler \<Rightarrow> string set" where
  "facts_missing s = set (missing_complete_fields (sampler_static (\<lambda>_. None) (Some (zero_mem\<lparr>mt_total := 1\<rparr>)) None 1 s))"

text \<open>Everything the sampler remembers about the system and the processors.\<close>

definition known_if :: "bool \<Rightarrow> string \<Rightarrow> string set" where
  "known_if b name = (if b then {name} else {})"

definition known_text :: "string \<Rightarrow> bool" where
  "known_text t \<longleftrightarrow> trim_space t \<noteq> []"

definition facts_known :: "'d sampler \<Rightarrow> string set" where
  "facts_known s =
     known_if (known_text (si_hostname (sp_sys s))) ''system.hostname'' \<union>
     known_if (known_text (si_os (sp_sys s))) ''system.os'' \<union>
     known_if (known_text (si_platform (sp_sys s))) ''system.platform'' \<union>
     known_if (known_text (si_platform_version (sp_sys s))) ''system.platform_version'' \<union>
     known_if (known_text (si_kernel (sp_sys s))) ''system.kernel_version'' \<union>
     known_if (known_text (si_arch (sp_sys s))) ''system.arch'' \<union>
     known_if (known_text (sc_model (sp_cpu s))) ''cpu.info.model_name'' \<union>
     known_if (known_text (sc_vendor (sp_cpu s))) ''cpu.info.vendor_id'' \<union>
     known_if (0 < sc_sockets (sp_cpu s)) ''cpu.info.sockets'' \<union>
     known_if (0 < sc_physical (sp_cpu s)) ''cpu.info.cores_physical'' \<union>
     known_if (0 < sc_logical (sp_cpu s)) ''cpu.info.cores_logical'' \<union>
     known_if (float_less (Fin 0) (sc_mhz (sp_cpu s))) ''cpu.info.frequency_mhz''"

lemma known_if_mono: "(b \<Longrightarrow> b') \<Longrightarrow> known_if b name \<subseteq> known_if b' name"
  by (auto simp: known_if_def)

lemma known_text_kept: "known_text old \<Longrightarrow> trim_space new = new \<Longrightarrow> known_text (or_text old new)"
  by (auto simp: known_text_def or_text_def)

lemma missing_if_mono: "(b' \<Longrightarrow> b) \<Longrightarrow> set (missing_if b' name) \<subseteq> set (missing_if b name)"
  by (auto simp: missing_if_def)

lemma refresh_fields:
  "sp_cpu (refresh_static x s) = merge_cpu (sp_cpu s) (read_cpu_info (sx_cpus x) (sx_physical x) (sx_logical x))"
  "sp_sys (refresh_static x s) = merge_system (sp_sys s) (read_system (sx_host x) (sx_hostname x) goarch)"
  "si_hostname (merge_system a b) = or_text (si_hostname a) (si_hostname b)"
  "si_os (merge_system a b) = or_text (si_os a) (si_os b)"
  "si_platform (merge_system a b) = or_text (si_platform a) (si_platform b)"
  "si_platform_version (merge_system a b) = or_text (si_platform_version a) (si_platform_version b)"
  "si_kernel (merge_system a b) = or_text (si_kernel a) (si_kernel b)"
  "si_arch (merge_system a b) = or_text (si_arch a) (si_arch b)"
  by (simp_all add: refresh_static_def merge_system_def)

lemma refresh_keeps_facts: "facts_missing (refresh_static x s) \<subseteq> facts_missing s"
proof -
  let ?new = "read_system (sx_host x) (sx_hostname x) goarch"
  have trimmed: "trim_space (si_hostname ?new) = si_hostname ?new" "trim_space (si_os ?new) = si_os ?new"
    "trim_space (si_platform ?new) = si_platform ?new" "trim_space (si_platform_version ?new) = si_platform_version ?new"
    "trim_space (si_kernel ?new) = si_kernel ?new"
    by (auto simp: read_system_def no_system_def Let_def split: option.splits)
  have arch: "si_arch ?new = goarch" by (simp add: read_system_def Let_def)
  have blank: "trim_space (or_text old new) = [] \<Longrightarrow> trim_space new = new \<Longrightarrow> trim_space old = []" for old new
    by (auto simp: or_text_def split: if_splits)
  have goarch: "trim_space goarch \<noteq> []" by code_simp
  have cpu: "sc_logical (merge_cpu dst src) \<le> 0 \<Longrightarrow> sc_logical dst \<le> 0"
    "sc_physical (merge_cpu dst src) \<le> 0 \<Longrightarrow> sc_physical dst \<le> 0"
    "sc_sockets (merge_cpu dst src) \<le> 0 \<Longrightarrow> sc_sockets dst \<le> 0" for dst src
    by (auto simp: merge_cpu_def normalize_cpu_def or_count_def split: if_splits)
  note kept = blank [OF _ trimmed(1)] blank [OF _ trimmed(2)] blank [OF _ trimmed(3)] blank [OF _ trimmed(4)] blank [OF _ trimmed(5)] cpu
  have arch': "trim_space (or_text old goarch) = [] \<Longrightarrow> P" for old P
    using goarch by (auto simp: or_text_def split: if_splits)
  show ?thesis
    unfolding facts_missing_def missing_complete_fields_def sampler_static_def Let_def set_append
    apply (intro Un_mono missing_if_mono)
    apply (simp_all only: static.simps static_system.simps refresh_fields arch)
    apply (erule kept | erule arch' | assumption)+
    done
qed

lemma read_trimmed:
  "trim_space (si_hostname (read_system h n goarch)) = si_hostname (read_system h n goarch)"
  "trim_space (si_os (read_system h n goarch)) = si_os (read_system h n goarch)"
  "trim_space (si_platform (read_system h n goarch)) = si_platform (read_system h n goarch)"
  "trim_space (si_platform_version (read_system h n goarch)) = si_platform_version (read_system h n goarch)"
  "trim_space (si_kernel (read_system h n goarch)) = si_kernel (read_system h n goarch)"
  "trim_space (si_arch (read_system h n goarch)) = si_arch (read_system h n goarch)"
  by (auto simp: read_system_def no_system_def Let_def split: option.splits) (code_simp)

lemma read_cpu_trimmed:
  "trim_space (sc_model (read_cpu_info is p l)) = sc_model (read_cpu_info is p l)"
  "trim_space (sc_vendor (read_cpu_info is p l)) = sc_vendor (read_cpu_info is p l)"
  by (auto simp: read_cpu_info_def no_cpu_def normalize_cpu_def Let_def split: option.splits list.splits)

lemma merge_cpu_known:
  "known_text (sc_model dst) \<Longrightarrow> trim_space (sc_model src) = sc_model src \<Longrightarrow> known_text (sc_model (merge_cpu dst src))"
  "known_text (sc_vendor dst) \<Longrightarrow> trim_space (sc_vendor src) = sc_vendor src \<Longrightarrow> known_text (sc_vendor (merge_cpu dst src))"
  "0 < sc_sockets dst \<Longrightarrow> 0 < sc_sockets (merge_cpu dst src)"
  "0 < sc_physical dst \<Longrightarrow> 0 < sc_physical (merge_cpu dst src)"
  "0 < sc_logical dst \<Longrightarrow> 0 < sc_logical (merge_cpu dst src)"
  "float_less (Fin 0) (sc_mhz dst) \<Longrightarrow> float_less (Fin 0) (sc_mhz (merge_cpu dst src))"
  by (auto simp: merge_cpu_def normalize_cpu_def or_count_def known_text_kept)

lemma refresh_keeps_known: "facts_known s \<subseteq> facts_known (refresh_static x s)"
  unfolding facts_known_def refresh_fields
  by (intro Un_mono known_if_mono) (auto intro!: known_text_kept merge_cpu_known read_trimmed read_cpu_trimmed)


text \<open>The mount points of the file systems the sampler holds are never blank: the jobs of the usage reader
  skip those.\<close>

definition mounts_ok :: "disk_usage list \<Rightarrow> bool" where
  "mounts_ok fs \<longleftrightarrow> list_all (\<lambda>u. trim_space (du_mount u) \<noteq> []) fs"

lemma usage_jobs_mounts: "j \<in> set (usage_jobs skip seen ps) \<Longrightarrow> trim_space (pt_mount j) \<noteq> []"
  by (induction skip seen ps rule: usage_jobs.induct) (auto simp: Let_def split: if_splits)

lemma slow_filesystems_ok:
  assumes "slow_filesystems parts answer results fs"
  shows "mounts_ok fs"
proof (cases parts)
  case (Some ps)
  then have fs: "set fs = set (usage_results answer (usage_jobs True [] ps))"
    using assms by (auto simp: slow_filesystems_def collect_usage_def dest: mset_eq_setD)
  have "trim_space (du_mount u) \<noteq> []" if "u \<in> set fs" for u
  proof -
    have "du_mount u \<in> set (map pt_mount (usage_jobs True [] ps))"
      using that fs usage_results_mounts [of answer "usage_jobs True [] ps"] by auto
    then show ?thesis using usage_jobs_mounts [of _ True "[]" ps] by auto
  qed
  then show ?thesis by (simp add: mounts_ok_def list_all_iff)
qed (use assms in \<open>simp add: slow_filesystems_def mounts_ok_def\<close>)

lemma thread_step_mounts:
  "thread_step c t s ts s' \<Longrightarrow> mounts_ok (so_filesystems (sp_slow s)) \<Longrightarrow> mounts_ok (so_filesystems (sp_slow s'))"
  by (induction rule: thread_step.induct)
    (auto simp: collect_fast_publish_def collect_slow_publish_def collect_slow_trigger_def collect_fast_read_def slow_filesystems_ok
      split: prod.splits)

lemma mounts_ok_reach:
  assumes "sampler_step\<^sup>*\<^sup>* (new_world (new_sampler fast offset delay nics version x pids)) w"
  shows "mounts_ok (so_filesystems (sp_slow (sw_data w)))"
  using assms
proof (induction rule: rtranclp_induct)
  case base
  show ?case by (simp add: mounts_ok_def new_world_def new_sampler_def refresh_static_def Let_def)
next
  case (step w w')
  from step(2) show ?case
  proof (cases rule: sampler_step.cases)
    case (run_thread ts t us ts' s')
    then show ?thesis using thread_step_mounts [OF run_thread(3)] step(3) by simp
  qed (use step(3) in \<open>auto simp: sampler_start_def sampler_stop_def refresh_static_def\<close>)
qed

text \<open>The base devices of the two reports, as a target identifies them.\<close>

definition metrics_base :: "'d report \<Rightarrow> (string \<times> string \<times> string \<times> string) list" where
  "metrics_base m = map (\<lambda>b. (bi_kind b, bi_name b, bi_path b, bi_ref b)) (dk_baseio (rt_disk m))"

definition static_base :: "static \<Rightarrow> (string \<times> string \<times> string \<times> string) list" where
  "static_base st = map (\<lambda>b. (sb_kind b, sb_name b, sb_path b, sb_ref b)) (sd_baseio (st_disk st))"

lemma sort_base_io_entries:
  "mset (map (\<lambda>c. (sb_kind c, sb_name c, sb_path c, sb_ref c)) (sort_base_io resolve cs logical fs)) =
   mset (map (\<lambda>c. (sb_kind c, sb_name c, sb_path c, sb_ref c)) cs)"
proof -
  have same: "map (\<lambda>c. (sb_kind c, sb_name c, sb_path c, sb_ref c)) (apply_roles sc cs) =
      map (\<lambda>c. (sb_kind c, sb_name c, sb_path c, sb_ref c)) cs" for sc
    by (rule nth_equalityI) (simp_all add: apply_roles_def Let_def nth_enumerate_eq)
  have "image_mset (\<lambda>c. (sb_kind c, sb_name c, sb_path c, sb_ref c)) (mset (apply_roles sc cs)) =
      image_mset (\<lambda>c. (sb_kind c, sb_name c, sb_path c, sb_ref c)) (mset cs)" for sc
    using arg_cong [OF same [of sc], of mset] by simp
  then show ?thesis by (simp add: sort_base_io_def)
qed

text \<open>The base devices of a host without arrays and pools: its disks.\<close>

definition disk_base :: "string \<Rightarrow> string \<times> string \<times> string \<times> string" where
  "disk_base name = (''physical'', name, build_device_path name, build_ref ''disk'' name)"

lemma build_base_io_disks:
  assumes "build_base_candidates logical = []"
  shows "mset (map (\<lambda>b. (bi_kind b, bi_name b, bi_path b, bi_ref b)) (build_base_io resolve logical (build_physical m) fs rates)) =
    mset (map disk_base (filter (\<lambda>n. trim_space n \<noteq> []) (map fst m)))"
proof -
  have phys: "map (\<lambda>c. (sb_kind c, sb_name c, sb_path c, sb_ref c)) (physical_candidates (build_physical m)) =
      map disk_base (filter (\<lambda>n. trim_space n \<noteq> []) (sort (map fst m)))"
    by (simp add: physical_candidates_def build_physical_def filter_map disk_base_def o_def)
  have "mset (map disk_base (filter P (sort ns))) = mset (map disk_base (filter P ns))" for P ns
    by simp
  then show ?thesis
    using assms phys sort_base_io_entries [of resolve "physical_candidates (build_physical m)" logical fs]
    by (simp add: build_base_io_def Let_def o_def)
qed

lemma base_candidates_filtered:
  assumes "list_all (\<lambda>u. trim_space (du_mount u) \<noteq> []) fs"
  shows "build_base_candidates (build_logical resolve storages raid (filter_filesystems resolve fs als) als) =
    build_base_candidates (build_logical resolve storages raid fs als)"
proof -
  define M where "M = (\<lambda>u. trim_space (du_mount u)) ` set (filter_filesystems resolve fs als)"
  have sub: "M \<subseteq> (\<lambda>u. trim_space (du_mount u)) ` set fs"
    using filter_filesystems_mount by (force simp: M_def)
  then have "mp \<noteq> []" if "mp \<in> M" for mp
    using assms that by (force simp: list_all_iff)
  then have "meta_agree M (build_mount_meta fs) (build_mount_meta (filter_filesystems resolve fs als))"
    using sub unfolding meta_agree_def build_mount_meta_dom M_def by blast
  then show ?thesis using base_candidates_alike [OF build_logical_alike] by blast
qed

text \<open>C10. A collection of the fast loop and the static report made from the same slow cache name the same base
  devices in the same order whenever the static report names any, although the one filters the file
  systems first and the other does not: a target can join the rates of the one with the roles of the
  other by position.  On a host without arrays and pools the static report names no base device, while
  the metrics name every physical disk with counters, once.\<close>

theorem reports_agree:
  assumes "sampler_step\<^sup>*\<^sup>* (new_world (new_sampler fast offset delay nics version x pids)) w"
    and "collect_fast_read h (sw_data w) = (s', v)"
  shows "if static_base (sampler_static (ht_resolve t) vm swap now (sw_data w)) \<noteq> []
    then metrics_base (collect_fast_report t zfs v) = static_base (sampler_static (ht_resolve t) vm swap now (sw_data w))
    else mset (metrics_base (collect_fast_report t zfs v)) =
      mset (map disk_base (filter (\<lambda>n. trim_space n \<noteq> []) (map fst (fv_disk_io v))))"
proof -
  have slow: "fv_slow v = sp_slow (sw_data w)"
    using assms(2) by (auto simp: collect_fast_read_def split: prod.splits)
  note mounts = mounts_ok_reach [OF assms(1), unfolded mounts_ok_def]
  let ?cs = "build_base_candidates (build_logical (ht_resolve t) (so_storages (sp_slow (sw_data w))) (so_raid (sp_slow (sw_data w)))
      (so_filesystems (sp_slow (sw_data w))) (so_aliases (sp_slow (sw_data w))))"
  show ?thesis
  proof (cases "?cs = []")
    case True
    then have "static_base (sampler_static (ht_resolve t) vm swap now (sw_data w)) = []"
      by (simp add: static_base_def sampler_static_def build_static_disk_def build_static_base_io_def sort_base_io_def
          apply_roles_def Let_def)
    moreover have "mset (metrics_base (collect_fast_report t zfs v)) =
      mset (map disk_base (filter (\<lambda>n. trim_space n \<noteq> []) (map fst (fv_disk_io v))))"
      using build_base_io_disks base_candidates_filtered [OF mounts] True
      by (simp add: metrics_base_def collect_fast_report_def Let_def slow)
    ultimately show ?thesis by simp
  next
    case False
    have eq: "metrics_base (collect_fast_report t zfs v) = static_base (sampler_static (ht_resolve t) vm swap now (sw_data w))"
      using base_io_reports_agree [OF mounts False]
      by (simp add: metrics_base_def static_base_def collect_fast_report_def sampler_static_def build_static_disk_def Let_def slow)
    moreover have "mset (static_base (sampler_static (ht_resolve t) vm swap now (sw_data w))) =
        mset (map (\<lambda>c. (sb_kind c, sb_name c, sb_path c, sb_ref c)) ?cs)"
      by (simp add: static_base_def sampler_static_def build_static_disk_def build_static_base_io_def Let_def
          sort_base_io_entries del: mset_map)
    then have "static_base (sampler_static (ht_resolve t) vm swap now (sw_data w)) \<noteq> []"
      using False by auto
    ultimately show ?thesis by simp
  qed
qed

section \<open>Intervals\<close>

text \<open>\<open>time.NewTicker\<close> panics when its interval is not positive.\<close>

definition start_panics :: "'d sampler \<Rightarrow> bool" where
  "start_panics s \<longleftrightarrow> sp_fast s \<le> 0 \<or> sp_medium s \<le> 0 \<or> sp_slow_interval s \<le> 0"

lemma new_sampler_calm:
  assumes "fast \<le> max_int64 div 20"
  shows "\<not> start_panics (new_sampler fast offset delay nics version x pids)"
proof -
  let ?f = "if fast \<le> 0 then second else fast"
  have f: "0 < ?f" "?f * 20 \<le> max_int64" using assms by (auto simp: second_def max_int64_def)
  then have "is_int64 (?f * 8)" "is_int64 (?f * 20)" by (auto simp: is_int64_def max_int64_def min_int64_def)
  then have "wrap64 (?f * 8) = ?f * 8" "wrap64 (?f * 20) = ?f * 20" by (simp_all only: wrap64_id)
  with f show ?thesis by (simp add: start_panics_def new_sampler_def refresh_static_def Let_def minute_def second_def)
qed

text \<open>C30. The intervals of the loops are multiples of the fast one, computed in 64 bits: they are positive, and
  \<open>Start\<close> does not panic, for every interval up to fourteen years; the first whole number of seconds
  beyond does panic.\<close>

theorem intervals_positive:
  assumes "fast \<le> max_int64 div 20"
  shows "\<not> start_panics (new_sampler fast offset delay nics version x pids)
    \<and> start_panics (new_sampler (secs 461168602) offset delay nics version x pids)"
proof
  show "\<not> start_panics (new_sampler fast offset delay nics version x pids)" by (rule new_sampler_calm [OF assms])
  show "start_panics (new_sampler (secs 461168602) offset delay nics version x pids)"
    by (simp add: start_panics_def new_sampler_def refresh_static_def Let_def secs_def second_def wrap64_def)
qed

section \<open>Witnesses\<close>

definition demo_facts :: static_read where
  "demo_facts = \<lparr>sx_host = None, sx_hostname = Some ''node1'', sx_cpus = None, sx_physical = Some 4, sx_logical = Some 8\<rparr>"

definition demo_sampler :: "unit sampler" where
  "demo_sampler = new_sampler (3 * second) (2 * second) (5 * second) [] ''1.2.3'' demo_facts (Some [1, 2])"

text \<open>A run: the sampler is started, its loops run, the slow one finds a pool.\<close>

definition demo_pools :: "storage_usage list" where
  "demo_pools = collect_storages (\<lambda>_ _. Inl undefined) [] \<lparr>rs_supported = True, rs_available = False, rs_arrays = []\<rparr>
     (Some ''tank 10 4 6 ONLINE'') None (Some [])"

definition demo_slow :: "unit slow_cache" where
  "demo_slow = \<lparr>so_filesystems = [], so_storages = demo_pools,
     so_raid = \<lparr>rs_supported = True, rs_available = False, rs_arrays = []\<rparr>,
     so_aliases = build_mapper_aliases (\<lambda>_. None) None, so_smart = smart_read (\<lambda>_. None) (Inl ErrNotExist) 1\<rparr>"

lemma demo_pools_eval: "map su_name demo_pools = [''tank'']"
  unfolding demo_pools_def collect_storages_def by code_simp

lemma demo_candidates:
  "map sb_name (build_base_candidates (build_logical (\<lambda>_. None) demo_pools \<lparr>rs_supported = True, rs_available = False, rs_arrays = []\<rparr> []
     (build_mapper_aliases (\<lambda>_. None) None))) = [''tank'']"
  unfolding demo_pools_def collect_storages_def by code_simp

lemma demo_pools_sorted: "sorted_storages demo_pools demo_pools"
proof -
  have "length demo_pools = 1" using arg_cong [OF demo_pools_eval, of length] by simp
  then obtain u where u: "demo_pools = [u]" by (metis One_nat_def length_0_conv length_Suc_conv)
  show ?thesis unfolding u sorted_storages_def by simp
qed

definition demo_tail :: host_tail where
  "demo_tail = \<lparr>ht_conn_cache = Inl ErrNotExist, ht_conn_decode = (\<lambda>_. None), ht_now = 1,
     ht_proc = \<lparr>pf_read = (\<lambda>_. Inl ErrNotExist), pf_link = (\<lambda>_. None), pf_entries = None\<rparr>,
     ht_pressure = (\<lambda>_. Inl ErrNotExist), ht_parse_float = (\<lambda>_. None), ht_resolve = (\<lambda>_. None)\<rparr>"

lemma demo_running:
  "\<exists>w. sampler_step\<^sup>*\<^sup>* (new_world demo_sampler) w \<and> length (sw_threads w) = 5 \<and> filter collecting (sw_threads w) \<noteq> []
     \<and> sw_run w = Running \<and> sp_latest (sw_data w) \<noteq> None \<and> sp_slow (sw_data w) = demo_slow"
proof -
  obtain s1 v1 where v1: "collect_fast_read undefined demo_sampler = (s1, v1)" by (metis surj_pair)
  define s2 where "s2 = collect_fast_publish undefined v1 s1"
  define s3 where "s3 = collect_slow_publish demo_slow s2"
  obtain s4 v4 where v4: "collect_fast_read undefined s3 = (s4, v4)" by (metis surj_pair)
  have s4: "sp_latest s4 \<noteq> None \<and> sp_slow s4 = demo_slow"
    using v4 by (auto simp: collect_fast_read_def s3_def s2_def collect_fast_publish_def collect_slow_publish_def split: prod.splits)
  define w :: "unit sampler \<Rightarrow> unit thread list \<Rightarrow> unit sampler_world" where "w = (\<lambda>s ts. \<lparr>sw_data = s, sw_run = Running, sw_cancelled = False, sw_threads = ts\<rparr>)"
  have run: "sampler_step (w s (ts @ t # us)) (w s' (ts @ ts' @ us))" if "thread_step False t s ts' s'" for ts us t ts' s s'
    using sampler_step.run_thread [of "w s (ts @ t # us)" ts t us ts' s'] that by (simp add: w_def)
  let ?a = "new_world demo_sampler"
  have 1: "sampler_step ?a (w demo_sampler [Starting])"
    using sampler_step.start_call [of ?a] by (simp add: sampler_start_def new_world_def w_def)
  have 2: "sampler_step (w demo_sampler [Starting]) (w s1 [StartCollecting v1])"
    using run [OF thread_step.start_read [OF v1], where ts = "[]" and us = "[]"] by simp
  have 3: "sampler_step (w s1 [StartCollecting v1]) (w s2 [Started])"
    using run [OF thread_step.start_publish [of False v1 s1 undefined], where ts = "[]" and us = "[]"] by (simp add: s2_def)
  have 4: "sampler_step (w s2 [Started]) (w s2 [ZfsWaiting, FastWaiting, SlowDelaying, MediumWaiting, ThermalReading])"
    using run [OF thread_step.start_loops, where ts = "[]" and us = "[]"] by simp
  have 5: "sampler_step (w s2 [ZfsWaiting, FastWaiting, SlowDelaying, MediumWaiting, ThermalReading])
      (w s2 [ZfsWaiting, FastWaiting, SlowCollecting, MediumWaiting, ThermalReading])"
    using run [OF thread_step.slow_delay, where ts = "[ZfsWaiting, FastWaiting]" and us = "[MediumWaiting, ThermalReading]"] by simp
  have 6: "sampler_step (w s2 [ZfsWaiting, FastWaiting, SlowCollecting, MediumWaiting, ThermalReading])
      (w s3 [ZfsWaiting, FastWaiting, SlowTriggering demo_pools, MediumWaiting, ThermalReading])"
    using run [OF thread_step.slow_publish [OF no_filesystems demo_pools_sorted [unfolded demo_pools_def], of False s2 "\<lambda>_. None" None "\<lambda>_. None" "Inl ErrNotExist" 1],
        where ts = "[ZfsWaiting, FastWaiting]" and us = "[MediumWaiting, ThermalReading]"]
    by (simp add: s3_def demo_slow_def demo_pools_def)
  have 7: "sampler_step (w s3 [ZfsWaiting, FastWaiting, SlowTriggering demo_pools, MediumWaiting, ThermalReading])
      (w s4 [ZfsWaiting, FastCollecting v4, SlowTriggering demo_pools, MediumWaiting, ThermalReading])"
    using run [OF thread_step.fast_tick [OF v4], where ts = "[ZfsWaiting]" and us = "[SlowTriggering demo_pools, MediumWaiting, ThermalReading]"] by simp
  have "sampler_step\<^sup>*\<^sup>* ?a (w s4 [ZfsWaiting, FastCollecting v4, SlowTriggering demo_pools, MediumWaiting, ThermalReading])"
    using 1 2 3 4 5 6 7 by (meson rtranclp.rtrancl_into_rtrancl rtranclp.rtrancl_refl)
  then show ?thesis using s4 by (intro exI conjI) (assumption | simp add: w_def)+
qed

theorem loops_run_once_witness:
  "\<exists>w :: unit sampler_world. length (sw_threads w) = 5 \<and> length (filter collecting (sw_threads w)) = 1"
proof -
  obtain w where w: "sampler_step\<^sup>*\<^sup>* (new_world demo_sampler) w" "length (sw_threads w) = 5"
      "filter collecting (sw_threads w) \<noteq> []"
    using demo_running by blast
  have "length (filter collecting (sw_threads w)) = 1"
    using loops_run_once [OF w(1)] w(3) by (cases "filter collecting (sw_threads w)") auto
  with w(2) show ?thesis by blast
qed

theorem stopped_sampler_ends_witness:
  "\<exists>(w :: unit sampler_world) n w'. length (sw_threads w) = 5 \<and> sw_run w = Stopped \<and> (sampler_step ^^ n) w w' \<and> sw_threads w' = []"
proof -
  obtain w where w: "sampler_step\<^sup>*\<^sup>* (new_world demo_sampler) w" "length (sw_threads w) = 5" "sw_run w = Running"
    using demo_running by blast
  have reach: "sampler_step\<^sup>*\<^sup>* (new_world demo_sampler) (sampler_stop w)"
    using w(1) sampler_step.stop_call by (rule rtranclp.rtrancl_into_rtrancl)
  have stop: "sw_run (sampler_stop w) = Stopped" "length (sw_threads (sampler_stop w)) = 5"
    using w(2,3) by (simp_all add: sampler_stop_def)
  from stopped_sampler_ends [OF reach stop(1)] stop show ?thesis by blast
qed

theorem published_rates_finite_witness:
  "\<exists>(w :: unit sampler_world) m. sp_latest (sw_data w) = Some m \<and> report_ok m"
proof -
  obtain w m where w: "sampler_step\<^sup>*\<^sup>* (new_world demo_sampler) w" "sp_latest (sw_data w) = Some m"
    using demo_running by blast
  with published_rates_finite [OF w(1) [unfolded demo_sampler_def] w(2)] show ?thesis by blast
qed

theorem static_is_sendable_witness:
  "validate_static (Some (sampler_static (\<lambda>_. None) None None 1 demo_sampler)) = Inr ()"
proof -
  have "sw_data (new_world demo_sampler) = demo_sampler" by (simp add: new_world_def)
  moreover have "trim_space ''1.2.3'' \<noteq> []" by code_simp
  ultimately show ?thesis
    using static_is_sendable [of "3 * second" "2 * second" "5 * second" "[]" "''1.2.3''" demo_facts "Some [1, 2]"
        "new_world demo_sampler" 1 "\<lambda>_. None" None None]
    by (simp add: demo_sampler_def is_zero_time_def)
qed

definition demo_cpu_read :: static_read where
  "demo_cpu_read = \<lparr>sx_host = None, sx_hostname = Some ''node1'',
     sx_cpus = Some [\<lparr>cx_model = ''EPYC'', cx_vendor = ''AMD'', cx_physical_id = ''0'', cx_mhz = Fin 3000\<rparr>],
     sx_physical = Some 4, sx_logical = Some 8\<rparr>"

definition no_read :: static_read where
  "no_read = \<lparr>sx_host = None, sx_hostname = None, sx_cpus = None, sx_physical = None, sx_logical = None\<rparr>"


theorem reports_agree_witness:
  "\<exists>(w :: unit sampler_world) s' v. collect_fast_read undefined (sw_data w) = (s', v) \<and>
     static_base (sampler_static (\<lambda>_. None) None None 1 (sw_data w)) \<noteq> [] \<and>
     metrics_base (collect_fast_report demo_tail [] v) = static_base (sampler_static (\<lambda>_. None) None None 1 (sw_data w))"
proof -
  obtain w where w: "sampler_step\<^sup>*\<^sup>* (new_world demo_sampler) w" "sp_slow (sw_data w) = demo_slow"
    using demo_running by blast
  obtain s' v where v: "collect_fast_read undefined (sw_data w) = (s', v)" by (metis surj_pair)
  have "mset (static_base (sampler_static (\<lambda>_. None) None None 1 (sw_data w))) =
     mset (map (\<lambda>c. (sb_kind c, sb_name c, sb_path c, sb_ref c)) (build_base_candidates (build_logical (\<lambda>_. None) demo_pools
       \<lparr>rs_supported = True, rs_available = False, rs_arrays = []\<rparr> [] (build_mapper_aliases (\<lambda>_. None) None))))"
    by (simp add: w(2) demo_slow_def static_base_def sampler_static_def build_static_disk_def build_static_base_io_def Let_def
        sort_base_io_entries del: mset_map)
  then have some: "static_base (sampler_static (\<lambda>_. None) None None 1 (sw_data w)) \<noteq> []"
    using demo_candidates by auto
  from reports_agree [OF w(1) [unfolded demo_sampler_def] v, of demo_tail None None 1 "[]"] some v show ?thesis
    by (fastforce simp: demo_tail_def)
qed

theorem intervals_positive_witness: "\<not> start_panics demo_sampler"
  unfolding demo_sampler_def
  by (rule conjunct1 [OF intervals_positive]) (simp add: second_def max_int64_def)

end
