(* ===== verification/LocalServer.thy ===== *)
theory LocalServer
  imports Sampler VirtSnapshot
begin

text \<open>
  The HTTP server of local mode and of push debug mode (\<open>server/server.go\<close>), as a function from a request to
  the answer a handler chooses: \<open>net/http\<close> turns it into bytes.  Of \<open>http.ServeMux\<close> the model has what the
  patterns of this server need: unclean paths are redirected, a pattern with a final slash is a prefix.
\<close>

section \<open>Requests and answers\<close>

record http_request =
  hq_method :: string
  hq_path :: string

text \<open>The two file systems of a page: its root and its assets.\<close>

datatype page_part = PageRoot | PageAssets

datatype ('r, 's) http_answer =
    NotFound
  | MethodNotAllowed
  | Unavailable string
  | ReportJson 'r
  | StaticJson 's
  | ServePage page_part string
  | RedirectTo string

definition allow_get :: "http_request \<Rightarrow> bool" where
  "allow_get r \<longleftrightarrow> hq_method r = ''GET'' \<or> hq_method r = ''HEAD''"

section \<open>Handlers\<close>

definition report_handler :: "'r option \<Rightarrow> http_request \<Rightarrow> ('r, 's) http_answer" where
  "report_handler report r =
     (if \<not> allow_get r then MethodNotAllowed
      else case report of None \<Rightarrow> Unavailable ''metrics not ready'' | Some m \<Rightarrow> ReportJson m)"

text \<open>\<open>source\<close> is \<open>None\<close> when the source has no \<open>Static\<close> method.\<close>

definition static_handler :: "'s option option \<Rightarrow> http_request \<Rightarrow> ('r, 's) http_answer" where
  "static_handler source r =
     (if \<not> allow_get r then MethodNotAllowed
      else case source of
        Some (Some st) \<Rightarrow> StaticJson st
      | _ \<Rightarrow> Unavailable ''static not ready'')"

definition exact :: "string \<Rightarrow> (http_request \<Rightarrow> ('r, 's) http_answer) \<Rightarrow> http_request \<Rightarrow> ('r, 's) http_answer" where
  "exact path h r = (if hq_path r \<noteq> path then NotFound else h r)"

definition local_handler :: "http_request \<Rightarrow> ('r, 's) http_answer" where
  "local_handler r =
     (if \<not> allow_get r then MethodNotAllowed
      else if hq_path r \<noteq> ''/'' \<and> hq_path r \<noteq> ''/local'' then NotFound
      else ServePage PageRoot ''page.html'')"

text \<open>\<open>fs.ValidPath\<close>.\<close>

definition valid_elem :: "string \<Rightarrow> bool" where
  "valid_elem e \<longleftrightarrow> e \<noteq> [] \<and> e \<noteq> ''.'' \<and> e \<noteq> ''..''"

definition valid_path :: "string \<Rightarrow> bool" where
  "valid_path name \<longleftrightarrow>
     to_valid_utf8 name = name \<and> (name = ''.'' \<or> list_all valid_elem (split_on CHR ''/'' name))"

text \<open>\<open>stat\<close> says whether a name is a directory, or nothing when it cannot be found.\<close>

definition asset_handler :: "string \<Rightarrow> (string \<Rightarrow> bool option) \<Rightarrow> http_request \<Rightarrow> ('r, 's) http_answer" where
  "asset_handler pre stat r =
     (if \<not> allow_get r then MethodNotAllowed
      else let name = drop (length pre) (hq_path r)
           in if name = [] \<or> name = ''.'' \<or> \<not> valid_path name then NotFound
              else case stat name of
                Some False \<Rightarrow> ServePage PageAssets name
              | _ \<Rightarrow> NotFound)"

section \<open>The page\<close>

datatype local_page = EmbeddedPage | DirPage string

definition has_local_page :: "(string \<Rightarrow> bool option) \<Rightarrow> bool" where
  "has_local_page stat \<longleftrightarrow> stat ''page.html'' = Some False"

text \<open>\<open>env\<close> is the variable \<open>ITHILTIR_NODE_LOCAL_PAGE_DIR\<close>, \<open>exe_dir\<close> the directory of the executable.\<close>

definition resolve_local_page :: "string \<Rightarrow> string option \<Rightarrow> (string \<Rightarrow> string \<Rightarrow> bool option) \<Rightarrow> local_page" where
  "resolve_local_page env exe_dir stat_in =
     (if env \<noteq> [] then (if has_local_page (stat_in env) then DirPage env else EmbeddedPage)
      else case exe_dir of
        None \<Rightarrow> EmbeddedPage
      | Some d \<Rightarrow> if has_local_page (stat_in (d @ ''/localpage'')) then DirPage (d @ ''/localpage'') else EmbeddedPage)"

section \<open>Routing\<close>

text \<open>\<open>path.Clean\<close> on a rooted path, and the canonical form of the mux, which keeps a final slash.\<close>

definition clean_turn :: "string \<Rightarrow> string list \<Rightarrow> string list" where
  "clean_turn e es =
     (if e = [] \<or> e = ''.'' then es else if e = ''..'' then butlast es else es @ [e])"

definition clean_path :: "string \<Rightarrow> string" where
  "clean_path p =
     (let q = (if has_prefix p ''/'' then p else CHR ''/'' # p);
          np = CHR ''/'' # join_with ''/'' (fold clean_turn (split_on CHR ''/'' (tl q)) [])
      in if has_suffix q ''/'' \<and> np \<noteq> ''/'' then np @ ''/'' else np)"

record ('r, 's) local_server =
  lo_report :: "'r option"
  lo_static :: "'s option option"
  lo_assets :: "string \<Rightarrow> bool option"

definition asset_prefix :: string where "asset_prefix = ''/local-assets/''"

text \<open>The mux of \<open>NewServer\<close>: its five patterns, on a path it did not redirect.\<close>

definition local_routes :: "('r, 's) local_server \<Rightarrow> http_request \<Rightarrow> ('r, 's) http_answer" where
  "local_routes s r =
     (let p = hq_path r
      in if p = ''/local'' then exact ''/local'' local_handler r
         else if p = ''/metrics'' then exact ''/metrics'' (report_handler (lo_report s)) r
         else if p = ''/static'' then exact ''/static'' (static_handler (lo_static s)) r
         else if has_prefix p asset_prefix then asset_handler asset_prefix (lo_assets s) r
         else local_handler r)"

definition local_serve :: "('r, 's) local_server \<Rightarrow> http_request \<Rightarrow> ('r, 's) http_answer" where
  "local_serve s r =
     (let p = hq_path r
      in if hq_method r = ''CONNECT'' then (if p = ''/local-assets'' then RedirectTo ''/local-assets/'' else local_routes s r)
         else if clean_path p = ''/local-assets'' then RedirectTo ''/local-assets/''
         else if clean_path p \<noteq> p then RedirectTo (clean_path p)
         else local_routes s r)"

definition push_serve :: "'r option \<Rightarrow> http_request \<Rightarrow> ('r, 's) http_answer" where
  "push_serve report r =
     (if hq_method r \<noteq> ''CONNECT'' \<and> clean_path (hq_path r) \<noteq> hq_path r then RedirectTo (clean_path (hq_path r))
      else exact ''/'' (report_handler report) r)"

section \<open>The report of a sampler\<close>

text \<open>\<open>metricsHandler\<close> asks the sampler four times, each time holding its lock anew: the states it finds.\<close>

definition metrics_report ::
  "'d sampler \<Rightarrow> 'd sampler \<Rightarrow> 'd sampler \<Rightarrow> 'd report node_report option" where
  "metrics_report at_snapshot at_hostname at_time =
     (case sp_latest at_snapshot of
        None \<Rightarrow> None
      | Some m \<Rightarrow> Some \<lparr>nr_version = sp_version at_snapshot, nr_hostname = si_hostname (sp_sys at_hostname),
                        nr_timestamp = sp_latest_ts at_time, nr_metrics = m\<rparr>)"

section \<open>What is served\<close>

lemma split_on_append: "c \<notin> set a \<Longrightarrow> split_on c (a @ c # b) = a # split_on c b"
  by (induction a) auto

lemma split_on_last: "List.last (split_on c (q @ [c])) = [] \<and> 2 \<le> length (split_on c (q @ [c]))"
proof (induction q)
  case (Cons a q)
  then have "tl (split_on c (q @ [c])) \<noteq> []" by (cases "split_on c (q @ [c])") auto
  with Cons show ?case by (auto simp: last_tl)
qed simp

lemma clean_turns_valid: "list_all valid_elem es \<Longrightarrow> fold clean_turn es out = out @ es"
  by (induction es arbitrary: out) (auto simp: clean_turn_def valid_elem_def)

lemma clean_path_valid:
  assumes "list_all valid_elem (split_on CHR ''/'' p)"
  shows "clean_path (CHR ''/'' # p) = CHR ''/'' # p"
proof -
  have no: "\<not> has_suffix (CHR ''/'' # p) ''/''"
  proof
    assume "has_suffix (CHR ''/'' # p) ''/''"
    then obtain t where t: "CHR ''/'' # p = t @ ''/''" by (auto simp: has_suffix_iff)
    have last: "List.last (split_on CHR ''/'' (q @ ''/'')) = []" for q
      using split_on_last [of "CHR ''/''" q] by simp
    have "p = [] \<or> (\<exists>q. p = q @ ''/'')" using t by (cases t) auto
    then have "List.last (split_on CHR ''/'' p) = []" using last by auto
    then have "[] \<in> set (split_on CHR ''/'' p)" by (metis last_in_set split_on_nonempty)
    then show False using assms by (auto simp: list_all_iff valid_elem_def)
  qed
  have prefix: "has_prefix (CHR ''/'' # p) ''/''" by (simp add: has_prefix_iff)
  show ?thesis
    using no prefix by (simp add: clean_path_def Let_def clean_turns_valid [OF assms] split_on_join)
qed

lemma asset_path_clean:
  assumes "name \<noteq> ''.''" and "valid_path name"
  shows "clean_path (asset_prefix @ name) = asset_prefix @ name"
proof -
  have "split_on CHR ''/'' (''local-assets'' @ CHR ''/'' # name) = ''local-assets'' # split_on CHR ''/'' name"
    by (rule split_on_append) simp
  moreover have "list_all valid_elem (split_on CHR ''/'' name)" using assms by (simp add: valid_path_def)
  ultimately have "list_all valid_elem (split_on CHR ''/'' (''local-assets'' @ CHR ''/'' # name))"
    by (simp add: valid_elem_def)
  from clean_path_valid [OF this] show ?thesis by (simp add: asset_prefix_def)
qed

lemma asset_prefix_paths:
  "asset_prefix @ name \<noteq> ''/local''" "asset_prefix @ name \<noteq> ''/metrics''" "asset_prefix @ name \<noteq> ''/static''"
  "asset_prefix @ name \<noteq> ''/local-assets''"
  by (simp_all add: asset_prefix_def)

lemma asset_route:
  "local_routes s \<lparr>hq_method = m, hq_path = asset_prefix @ name\<rparr> =
   asset_handler asset_prefix (lo_assets s) \<lparr>hq_method = m, hq_path = asset_prefix @ name\<rparr>"
  by (simp add: local_routes_def Let_def asset_prefix_paths)

text \<open>An asset is served exactly when its name is a valid path of a file in the directory of the assets: the
  mux redirects no such path, and no other name, like one with \<open>..\<close>, an empty or an absolute part, reaches the
  file system.\<close>

theorem asset_served_iff:
  "local_serve s \<lparr>hq_method = ''GET'', hq_path = asset_prefix @ name\<rparr> = ServePage PageAssets name \<longleftrightarrow>
   name \<noteq> [] \<and> name \<noteq> ''.'' \<and> valid_path name \<and> lo_assets s name = Some False"
proof
  assume served: "local_serve s \<lparr>hq_method = ''GET'', hq_path = asset_prefix @ name\<rparr> = ServePage PageAssets name"
  then have "local_routes s \<lparr>hq_method = ''GET'', hq_path = asset_prefix @ name\<rparr> = ServePage PageAssets name"
    unfolding local_serve_def Let_def by (simp split: if_splits)
  then show "name \<noteq> [] \<and> name \<noteq> ''.'' \<and> valid_path name \<and> lo_assets s name = Some False"
    unfolding asset_route by (simp add: asset_handler_def Let_def split: if_splits option.splits bool.splits)
next
  assume ok: "name \<noteq> [] \<and> name \<noteq> ''.'' \<and> valid_path name \<and> lo_assets s name = Some False"
  then have "clean_path (asset_prefix @ name) = asset_prefix @ name" by (blast intro: asset_path_clean)
  then have "local_serve s \<lparr>hq_method = ''GET'', hq_path = asset_prefix @ name\<rparr> =
      asset_handler asset_prefix (lo_assets s) \<lparr>hq_method = ''GET'', hq_path = asset_prefix @ name\<rparr>"
    using asset_route [of s "''GET''" name] asset_prefix_paths(4) [of name] by (simp add: local_serve_def Let_def)
  then show "local_serve s \<lparr>hq_method = ''GET'', hq_path = asset_prefix @ name\<rparr> = ServePage PageAssets name"
    using ok by (simp add: asset_handler_def allow_get_def)
qed

text \<open>Whatever the request, the server answers with content only to \<open>GET\<close> and \<open>HEAD\<close>: the report at its
  own path and once there is one, the static report at its path, the page, and files below the directory
  of the assets, whose name has no part \<open>..\<close> that would lead out of it.\<close>

theorem server_serves_only:
  fixes s :: "('r, 's) local_server"
  shows "case local_serve s r of
     ReportJson m \<Rightarrow> allow_get r \<and> hq_path r = ''/metrics'' \<and> lo_report s = Some m
   | StaticJson st \<Rightarrow> allow_get r \<and> hq_path r = ''/static'' \<and> lo_static s = Some (Some st)
   | ServePage PageRoot name \<Rightarrow> allow_get r \<and> hq_path r \<in> {''/'', ''/local''} \<and> name = ''page.html''
   | ServePage PageAssets name \<Rightarrow> allow_get r \<and> hq_path r = asset_prefix @ name \<and>
       ''..'' \<notin> set (split_on CHR ''/'' name) \<and> lo_assets s name = Some False
   | _ \<Rightarrow> True"
proof -
  let ?ok = "\<lambda>a :: ('r, 's) http_answer. case a of
     ReportJson m \<Rightarrow> allow_get r \<and> hq_path r = ''/metrics'' \<and> lo_report s = Some m
   | StaticJson st \<Rightarrow> allow_get r \<and> hq_path r = ''/static'' \<and> lo_static s = Some (Some st)
   | ServePage PageRoot name \<Rightarrow> allow_get r \<and> hq_path r \<in> {''/'', ''/local''} \<and> name = ''page.html''
   | ServePage PageAssets name \<Rightarrow> allow_get r \<and> hq_path r = asset_prefix @ name \<and>
       ''..'' \<notin> set (split_on CHR ''/'' name) \<and> lo_assets s name = Some False
   | _ \<Rightarrow> True"
  have dots: "''..'' \<notin> set (split_on CHR ''/'' name)" if "valid_path name" "name \<noteq> ''.''" for name
    using that by (auto simp: valid_path_def list_all_iff valid_elem_def)
  have page: "?ok (local_handler r)" by (simp add: local_handler_def)
  have assets: "?ok (asset_handler asset_prefix (lo_assets s) r)" if pre: "has_prefix (hq_path r) asset_prefix"
  proof -
    obtain name where name: "hq_path r = asset_prefix @ name" using pre by (auto simp: has_prefix_iff)
    show ?thesis
      using dots [of name] by (simp add: asset_handler_def name split: option.split bool.split)
  qed
  have routes: "?ok (local_routes s r)"
  proof -
    consider "hq_path r = ''/local''" | "hq_path r = ''/metrics''" | "hq_path r = ''/static''"
      | "hq_path r \<notin> {''/local'', ''/metrics'', ''/static''}" by blast
    then show ?thesis
    proof cases
      case 1
      with page show ?thesis by (simp add: local_routes_def exact_def)
    next
      case 2
      then show ?thesis by (simp add: local_routes_def exact_def report_handler_def split: option.split)
    next
      case 3
      then show ?thesis by (simp add: local_routes_def exact_def static_handler_def split: option.split)
    next
      case 4
      with page assets show ?thesis by (simp add: local_routes_def Let_def)
    qed
  qed
  show ?thesis using routes by (simp add: local_serve_def Let_def)
qed

section \<open>A report of two collections\<close>

text \<open>C29. The four questions of \<open>metricsHandler\<close> are not one: when a collection is published between \<open>Snapshot\<close>
  and \<open>Time\<close>, the report carries the metrics of one collection with the time of the next.\<close>

theorem report_can_be_torn:
  "\<exists>(w1 :: unit sampler_world) w2 m r. sampler_step\<^sup>*\<^sup>* (new_world demo_sampler) w1 \<and> sampler_step\<^sup>*\<^sup>* w1 w2
     \<and> sp_latest (sw_data w1) = Some m \<and> sp_latest_ts (sw_data w1) = 1
     \<and> metrics_report (sw_data w1) (sw_data w1) (sw_data w2) = Some r \<and> nr_metrics r = m \<and> nr_timestamp r = 4"
proof -
  have v: "\<exists>s' v. collect_fast_read (h\<lparr>hn_ts := t\<rparr>) s = (s', v) \<and> fv_ts v = t" for h t and s :: "unit sampler"
    by (auto simp: collect_fast_read_def split: prod.splits)
  obtain s1 v1 where v1: "collect_fast_read (undefined\<lparr>hn_ts := 1\<rparr>) demo_sampler = (s1, v1)" "fv_ts v1 = 1" using v by blast
  define s2 where "s2 = collect_fast_publish undefined v1 s1"
  obtain s3 v3 where v3: "collect_fast_read (undefined\<lparr>hn_ts := 4\<rparr>) s2 = (s3, v3)" "fv_ts v3 = 4" using v by blast
  define s4 where "s4 = collect_fast_publish undefined v3 s3"
  define w :: "unit sampler \<Rightarrow> unit thread list \<Rightarrow> unit sampler_world" where "w = (\<lambda>s ts.
    \<lparr>sw_data = s, sw_run = Running, sw_cancelled = False, sw_threads = ts\<rparr>)"
  have run: "sampler_step (w s (ts @ t # us)) (w s' (ts @ ts' @ us))" if "thread_step False t s ts' s'" for ts us t ts' s s'
    using sampler_step.run_thread [of "w s (ts @ t # us)" ts t us ts' s'] that by (simp add: w_def)
  let ?a = "new_world demo_sampler" and ?loops = "[SlowDelaying, MediumWaiting, ThermalReading]"
  have 1: "sampler_step ?a (w demo_sampler [Starting])"
    using sampler_step.start_call [of ?a] by (simp add: sampler_start_def new_world_def w_def)
  have 2: "sampler_step (w demo_sampler [Starting]) (w s1 [StartCollecting v1])"
    using run [OF thread_step.start_read [OF v1(1)], where ts = "[]" and us = "[]"] by simp
  have 3: "sampler_step (w s1 [StartCollecting v1]) (w s2 [Started])"
    using run [OF thread_step.start_publish [of False v1 s1 undefined], where ts = "[]" and us = "[]"] by (simp add: s2_def)
  have 4: "sampler_step (w s2 [Started]) (w s2 (ZfsWaiting # FastWaiting # ?loops))"
    using run [OF thread_step.start_loops, where ts = "[]" and us = "[]"] by simp
  have 5: "sampler_step (w s2 (ZfsWaiting # FastWaiting # ?loops)) (w s3 (ZfsWaiting # FastCollecting v3 # ?loops))"
    using run [OF thread_step.fast_tick [OF v3(1)], where ts = "[ZfsWaiting]" and us = ?loops] by simp
  have 6: "sampler_step (w s3 (ZfsWaiting # FastCollecting v3 # ?loops)) (w s4 (ZfsWaiting # FastWaiting # ?loops))"
    using run [OF thread_step.fast_publish [of False v3 s3 undefined], where ts = "[ZfsWaiting]" and us = ?loops]
    by (simp add: s4_def)
  have "sampler_step\<^sup>*\<^sup>* ?a (w s2 (ZfsWaiting # FastWaiting # ?loops))"
    using 1 2 3 4 by (meson rtranclp.rtrancl_into_rtrancl rtranclp.rtrancl_refl)
  moreover have "sampler_step\<^sup>*\<^sup>* (w s2 (ZfsWaiting # FastWaiting # ?loops)) (w s4 (ZfsWaiting # FastWaiting # ?loops))"
    using 5 6 by (meson rtranclp.rtrancl_into_rtrancl rtranclp.rtrancl_refl)
  moreover have "sp_latest_ts s2 = 1" "sp_latest_ts s4 = 4" "sp_latest s2 = Some (collect_fast_report undefined (zs_rates (sp_zfs s1)) v1)"
    using v1(2) v3(2) by (simp_all add: s2_def s4_def collect_fast_publish_def)
  ultimately show ?thesis
    by (intro exI conjI) (assumption | simp add: w_def metrics_report_def)+
qed

end
