(* ===== verification/AppRun.thy ===== *)
theory AppRun
  imports LocalServer ReportInstall
begin

text \<open>
  The command line (\<open>cli/netflag.go\<close>) and the three modes of the node (\<open>app/run.go\<close>, \<open>app/signals.go\<close>,
  \<open>app/restart_unix.go\<close>).  A mode is a function from what it met to the actions it took, in their order,
  and the way it ended; the deferred calls are the last actions.
\<close>

section \<open>The command line\<close>

record cli_options =
  cl_args :: "string list"
  cl_nics :: "string list"
  cl_debug :: bool
  cl_version :: bool
  cl_https :: bool
  cl_warnings :: "string list"

definition no_options :: cli_options where
  "no_options = \<lparr>cl_args = [], cl_nics = [], cl_debug = False, cl_version = False, cl_https = False, cl_warnings = []\<rparr>"

definition append_nics :: "string \<Rightarrow> cli_options \<Rightarrow> cli_options" where
  "append_nics v c = c\<lparr>cl_nics := cl_nics c @ filter (\<lambda>n. n \<noteq> []) (map trim_space (split_on CHR '','' v))\<rparr>"

fun cli_parse :: "string list \<Rightarrow> cli_options \<Rightarrow> cli_options" where
  "cli_parse [] c = c"
| "cli_parse (arg # args) c =
     (if arg = ''--version'' \<or> arg = ''-v'' then cli_parse args (c\<lparr>cl_version := True\<rparr>)
      else if arg = ''--debug'' then cli_parse args (c\<lparr>cl_debug := True\<rparr>)
      else if arg = ''--require-https'' then cli_parse args (c\<lparr>cl_https := True\<rparr>)
      else if arg = ''--net'' then
        (case args of
           [] \<Rightarrow> cli_parse args (c\<lparr>cl_warnings := cl_warnings c @ [''--net missing value, ignored'']\<rparr>)
         | v # rest \<Rightarrow>
             if has_prefix v ''-'' then cli_parse args (c\<lparr>cl_warnings := cl_warnings c @ [''--net missing value, ignored'']\<rparr>)
             else cli_parse rest (append_nics v c))
      else cli_parse args (c\<lparr>cl_args := cl_args c @ [arg]\<rparr>))"

section \<open>Ways to end\<close>

datatype os_signal = Interrupt | Terminate | OtherSignal

definition exit_code_for_signal :: "os_signal \<Rightarrow> int" where
  "exit_code_for_signal sig = (case sig of Interrupt \<Rightarrow> 130 | Terminate \<Rightarrow> 143 | OtherSignal \<Rightarrow> 1)"

text \<open>A process exits, panics, or is replaced by another program.\<close>

datatype ending = Exit int | Panicked | Replaced

datatype app_action =
    StartSampler duration
  | StopSampler
  | Listen string string
  | ShutServer
  | StartPush duration
  | CancelPush
  | ExecNode

section \<open>Local mode\<close>

datatype local_event = LocalSignal os_signal | LocalFailed | LocalClosed

text \<open>The variables \<open>NODE_HOST\<close> and \<open>NODE_PORT\<close> come before the defaults, the arguments before both.\<close>

definition listen_on :: "string \<Rightarrow> string \<Rightarrow> string list \<Rightarrow> string \<times> string" where
  "listen_on env_host env_port args =
     (let ip = (if env_host \<noteq> [] then env_host else ''0.0.0.0'');
          port = (if env_port \<noteq> [] then env_port else ''9100'')
      in (if length args \<ge> 2 then args ! 1 else ip, if length args \<ge> 3 then args ! 2 else port))"

definition run_local :: "string \<Rightarrow> string \<Rightarrow> string list \<Rightarrow> local_event \<Rightarrow> app_action list \<times> ending" where
  "run_local env_host env_port args ev =
     (case listen_on env_host env_port args of
        (ip, port) \<Rightarrow>
          (let started = [StartSampler (3 * second), Listen ip port]
           in case ev of
                LocalSignal sig \<Rightarrow> (started @ [ShutServer, StopSampler], Exit (exit_code_for_signal sig))
              | LocalFailed \<Rightarrow> (started @ [StopSampler], Exit 1)
              | LocalClosed \<Rightarrow> (started @ [StopSampler], Exit 0)))"

section \<open>Push mode\<close>

text \<open>How \<open>push.StartWithCache\<close> returned, if no signal came first.\<close>

datatype push_event = PushSignal os_signal | PushRestart | PushCanceled | PushFailed | PushDone

definition push_seconds :: "string list \<Rightarrow> int" where
  "push_seconds args =
     (if length args = 2 then
        (case parse_int (args ! 1) of Some v \<Rightarrow> if v > 0 then v else 3 | None \<Rightarrow> 3)
      else 3)"

definition shut_debug :: "bool \<Rightarrow> app_action list" where
  "shut_debug debug = (if debug then [ShutServer] else [])"

text \<open>\<open>loaded\<close> says whether the report configuration could be read, \<open>exec_fails\<close> whether the new program
  could not be started.  The loop of the targets refuses an interval that is not positive.  The restart is
  the one of Unix; on other systems \<open>restartForUpdate\<close> does nothing and the process exits with 0.\<close>

definition run_push ::
  "string \<Rightarrow> string list \<Rightarrow> bool \<Rightarrow> bool \<Rightarrow> 'd sampler \<Rightarrow> push_event \<Rightarrow> bool \<Rightarrow> app_action list \<times> ending" where
  "run_push env_port args debug loaded s ev exec_fails =
     (if length args > 2 then ([], Exit 1)
      else if \<not> loaded then ([], Exit 1)
      else if start_panics s then ([StartSampler (secs (push_seconds args))], Panicked)
      else
        (let interval = secs (push_seconds args);
             started = StartSampler interval #
               (if debug then [Listen ''127.0.0.1'' (if env_port \<noteq> [] then env_port else ''9101'')] else []) @ [StartPush interval];
             deferred = [CancelPush, StopSampler];
             event = (case ev of PushSignal sig \<Rightarrow> ev | _ \<Rightarrow> if interval \<le> 0 then PushFailed else ev)
         in case event of
              PushSignal sig \<Rightarrow> (started @ CancelPush # shut_debug debug @ deferred, Exit (exit_code_for_signal sig))
            | PushRestart \<Rightarrow>
                (let before = started @ CancelPush # shut_debug debug @ [StopSampler, ExecNode]
                 in if exec_fails then (before @ deferred, Exit 1) else (before, Replaced))
            | PushFailed \<Rightarrow> (started @ deferred, Exit 1)
            | PushCanceled \<Rightarrow> (started @ shut_debug debug @ deferred, Exit 0)
            | PushDone \<Rightarrow> (started @ shut_debug debug @ deferred, Exit 0)))"

text \<open>The report of the debug page: the last one sent, or else one made from the sampler.\<close>

definition push_local_report ::
  "'d report node_report option \<Rightarrow> 'd sampler \<Rightarrow> 'd sampler \<Rightarrow> 'd sampler \<Rightarrow> 'd report node_report option" where
  "push_local_report cached at_snapshot at_hostname at_time =
     (case cached of Some r \<Rightarrow> Some r | None \<Rightarrow> metrics_report at_snapshot at_hostname at_time)"

section \<open>The program\<close>

text \<open>What a run of the program met: the environment, the sampler it made and how the mode ended.\<close>

record 'd app_env =
  ae_host :: string
  ae_port :: string
  ae_local :: local_event
  ae_push :: push_event
  ae_exec_fails :: bool
  ae_static :: static_read
  ae_pids :: "int list option"
  ae_release :: string

definition made_sampler :: "'d app_env \<Rightarrow> string list \<Rightarrow> string list \<Rightarrow> 'd sampler" where
  "made_sampler env nics args =
     new_sampler (secs (push_seconds args)) (2 * second) (5 * second) nics (ae_release env) (ae_static env) (ae_pids env)"

definition app_run ::
  "url_parser \<Rightarrow> ('s \<Rightarrow> 'e + rconfig) \<Rightarrow> (rconfig \<Rightarrow> 's \<Rightarrow> 's \<times> ('e + unit)) \<Rightarrow> (bool \<Rightarrow> rtarget \<Rightarrow> identity_error + identity)
   \<Rightarrow> prompt_input option \<Rightarrow> 'd app_env \<Rightarrow> string list \<Rightarrow> 's \<Rightarrow> 's \<times> app_action list \<times> ending" where
  "app_run url_parse load save fetch prompt env raw s =
     (let c = cli_parse raw no_options
      in if cl_version c then (s, [], Exit 0)
         else case cl_args c of
           [] \<Rightarrow> (s, run_local (ae_host env) (ae_port env) [] (ae_local env))
         | a # as \<Rightarrow>
             if a = ''local'' then (s, run_local (ae_host env) (ae_port env) (a # as) (ae_local env))
             else if a = ''push'' then
               (s, run_push (ae_port env) (a # as) (cl_debug c) (case load s of Inl _ \<Rightarrow> False | Inr _ \<Rightarrow> True)
                     (made_sampler env (cl_nics c) (a # as)) (ae_push env) (ae_exec_fails env))
             else if a = ''report'' then
               (case run_report url_parse load save (fetch (cl_https c)) prompt (a # as) s of (s', code, _) \<Rightarrow> (s', [], Exit code))
             else (s, [], Exit 1))"

section \<open>Flags\<close>

definition is_flag :: "string \<Rightarrow> bool" where
  "is_flag a \<longleftrightarrow> a \<in> {''--version'', ''-v'', ''--debug'', ''--require-https'', ''--net''}"

lemma plain_step: "\<not> is_flag a \<Longrightarrow> cli_parse (a # as) c = cli_parse as (c\<lparr>cl_args := cl_args c @ [a]\<rparr>)"
  by (simp add: is_flag_def)

lemma flag_step:
  assumes "is_flag a"
  shows "\<exists>c'. cl_args c' = cl_args c \<and>
    (cli_parse (a # as) c = cli_parse as c' \<or> (\<exists>v rest. as = v # rest \<and> cli_parse (a # as) c = cli_parse rest c'))"
proof -
  consider "a = ''--version'' \<or> a = ''-v''" | "a = ''--debug''" | "a = ''--require-https''" | "a = ''--net''"
    using assms by (auto simp: is_flag_def)
  then show ?thesis
  proof cases
    case 1
    then show ?thesis by (intro exI [of _ "c\<lparr>cl_version := True\<rparr>"]) auto
  next
    case 2
    then show ?thesis by (intro exI [of _ "c\<lparr>cl_debug := True\<rparr>"]) simp
  next
    case 3
    then show ?thesis by (intro exI [of _ "c\<lparr>cl_https := True\<rparr>"]) simp
  next
    case 4
    let ?w = "c\<lparr>cl_warnings := cl_warnings c @ [''--net missing value, ignored'']\<rparr>"
    show ?thesis
    proof (cases as)
      case Nil
      with 4 show ?thesis by (intro exI [of _ ?w]) simp
    next
      case (Cons v rest)
      show ?thesis
      proof (cases "has_prefix v ''-''")
        case True
        with 4 Cons show ?thesis by (intro exI [of _ ?w]) simp
      next
        case False
        have "cl_args (append_nics v c) = cl_args c" by (simp add: append_nics_def)
        moreover have "cli_parse (a # as) c = cli_parse rest (append_nics v c)" using 4 Cons False by simp
        ultimately show ?thesis using Cons by blast
      qed
    qed
  qed
qed

lemma cli_parse_plain:
  "list_all (\<lambda>a. \<not> is_flag a) as \<Longrightarrow> cli_parse as c = c\<lparr>cl_args := cl_args c @ as\<rparr>"
proof (induction as arbitrary: c)
  case (Cons a as)
  then show ?case unfolding plain_step [of a as c, OF Cons.prems [simplified, THEN conjunct1]] by simp
qed simp

lemma cli_parse_kept:
  "\<exists>kept. cl_args (cli_parse as c) = cl_args c @ kept \<and> subseq kept as \<and> list_all (\<lambda>a. \<not> is_flag a) kept"
proof (induction "length as" arbitrary: as c rule: less_induct)
  case less
  show ?case
  proof (cases as)
    case (Cons a rest)
    show ?thesis
    proof (cases "is_flag a")
      case False
      obtain kept where "cl_args (cli_parse rest (c\<lparr>cl_args := cl_args c @ [a]\<rparr>)) = cl_args c @ a # kept"
          "subseq kept rest" "list_all (\<lambda>a. \<not> is_flag a) kept"
        using less [of rest "c\<lparr>cl_args := cl_args c @ [a]\<rparr>"] Cons by auto
      then show ?thesis using False unfolding Cons plain_step [OF False] by (intro exI [of _ "a # kept"]) simp
    next
      case True
      from flag_step [OF True, of c rest] obtain c' rest' where c': "cl_args c' = cl_args c"
          "cli_parse as c = cli_parse rest' c'" "rest' = rest \<or> (\<exists>v. rest = v # rest')"
        unfolding Cons by blast
      then have "length rest' < length as" using Cons by auto
      from less [OF this, of c'] obtain kept where "cl_args (cli_parse as c) = cl_args c @ kept" "subseq kept rest'"
          "list_all (\<lambda>a. \<not> is_flag a) kept"
        using c' by auto
      moreover have "subseq rest' as" using c'(3) Cons by (auto intro: list_emb_Cons)
      ultimately show ?thesis using subseq_order.order_trans by blast
    qed
  qed simp
qed

text \<open>Flags are taken out wherever they stand: what is left holds none, parsing it again changes nothing,
  and the arguments keep their order.\<close>

theorem flags_are_removed:
  "list_all (\<lambda>a. \<not> is_flag a) (cl_args (cli_parse raw no_options))
   \<and> cli_parse (cl_args (cli_parse raw no_options)) no_options = no_options\<lparr>cl_args := cl_args (cli_parse raw no_options)\<rparr>
   \<and> subseq (cl_args (cli_parse raw no_options)) raw"
proof -
  obtain kept where kept: "cl_args (cli_parse raw no_options) = kept" "subseq kept raw" "list_all (\<lambda>a. \<not> is_flag a) kept"
    using cli_parse_kept [of raw no_options] by (auto simp: no_options_def)
  have "cli_parse kept no_options = no_options\<lparr>cl_args := kept\<rparr>"
    using cli_parse_plain [OF kept(3), of no_options] by (simp add: no_options_def)
  with kept show ?thesis by simp
qed

section \<open>How push mode ends\<close>

lemma push_seconds_pos: "0 < push_seconds args"
  by (auto simp: push_seconds_def split: option.split)

lemma push_interval:
  assumes "push_seconds args \<le> 461168601"
  shows "secs (push_seconds args) = push_seconds args * second \<and> secs (push_seconds args) \<le> max_int64 div 20"
proof -
  have "is_int64 (push_seconds args * second)"
    using assms push_seconds_pos [of args] by (simp add: is_int64_def max_int64_def min_int64_def second_def)
  then show ?thesis using assms by (simp add: secs_def wrap64_id max_int64_def second_def)
qed

text \<open>Whether an action is taken after another one.\<close>

definition follows :: "app_action \<Rightarrow> app_action \<Rightarrow> app_action list \<Rightarrow> bool" where
  "follows b a acts \<longleftrightarrow> b \<in> set (tl (dropWhile (\<lambda>x. x \<noteq> a) acts))"

lemma follows_Cons [simp]: "follows b a [] = False" "follows b a (x # xs) = (if x = a then b \<in> set xs else follows b a xs)"
  by (simp_all add: follows_def)

text \<open>C39. How push mode ends on Unix, for every interval up to 461168601 seconds, fourteen years (beyond, \<open>Start\<close>
  may panic).  With a third argument or without a readable configuration it exits with 1 and starts
  nothing.  Otherwise it starts the sampler with the interval on the command line, and exits with 130 on
  an interrupt, 143 on SIGTERM, 1 on another signal, 1 when the loop of the targets fails, and 0 when it
  is cancelled or returns; when the loop asks for a restart, the process is replaced by the new program,
  or exits with 1 if that cannot be started.  In every case the loop was started, is cancelled, and the
  sampler is stopped after that; the new program is only started after both, and only on a restart.
  The debug server is shut down, too, unless the loop failed.\<close>

theorem push_mode_ends:
  assumes "push_seconds args \<le> 461168601" and "s = new_sampler (secs (push_seconds args)) offset delay nics version x pids"
    and "run_push env_port args debug loaded s ev exec_fails = (acts, how)"
  shows "if length args > 2 \<or> \<not> loaded then acts = [] \<and> how = Exit 1
    else how = (case ev of
        PushSignal Interrupt \<Rightarrow> Exit 130 | PushSignal Terminate \<Rightarrow> Exit 143 | PushSignal OtherSignal \<Rightarrow> Exit 1
      | PushFailed \<Rightarrow> Exit 1 | PushCanceled \<Rightarrow> Exit 0 | PushDone \<Rightarrow> Exit 0
      | PushRestart \<Rightarrow> if exec_fails then Exit 1 else Replaced)
    \<and> hd acts = StartSampler (push_seconds args * second)
    \<and> StartPush (push_seconds args * second) \<in> set acts
    \<and> follows CancelPush (StartPush (push_seconds args * second)) acts \<and> follows StopSampler CancelPush acts
    \<and> (ExecNode \<in> set acts \<longleftrightarrow> ev = PushRestart) \<and> (ev = PushRestart \<longrightarrow> follows ExecNode StopSampler acts)
    \<and> (ShutServer \<in> set acts \<longleftrightarrow> debug \<and> ev \<noteq> PushFailed)"
proof -
  let ?i = "push_seconds args * second"
  have i: "secs (push_seconds args) = ?i" using push_interval [OF assms(1)] by simp
  have calm: "\<not> start_panics s" unfolding assms(2) by (rule new_sampler_calm) (use push_interval [OF assms(1)] in blast)
  have pos: "\<not> ?i \<le> 0" using push_seconds_pos [of args] by (simp add: second_def)
  show ?thesis
  proof (cases "length args > 2 \<or> \<not> loaded")
    case True
    then have "run_push env_port args debug loaded s ev exec_fails = ([], Exit 1)" by (auto simp: run_push_def)
    with True assms(3) show ?thesis by auto
  next
    case False
    then have ok: "\<not> length args > 2" "loaded" by auto
    note run = assms(3) [unfolded run_push_def i Let_def, simplified ok calm pos if_False if_True simp_thms]
    show ?thesis
    proof (cases ev)
      case (PushSignal sig)
      then show ?thesis using run ok by (cases sig; cases debug) (auto simp: exit_code_for_signal_def shut_debug_def)
    next
      case PushRestart
      then show ?thesis using run ok by (cases exec_fails; cases debug) (auto simp: shut_debug_def)
    qed (use run ok in \<open>cases debug; auto simp: shut_debug_def\<close>)+
  qed
qed

theorem push_mode_ends_witness:
  "run_push [] [''push''] False True demo_sampler (PushSignal Terminate) False =
     ([StartSampler (3 * second), StartPush (3 * second), CancelPush, CancelPush, StopSampler], Exit 143)
   \<and> follows StopSampler CancelPush [StartSampler (3 * second), StartPush (3 * second), CancelPush, CancelPush, StopSampler]"
proof -
  have three: "push_seconds [''push''] = 3" by (simp add: push_seconds_def)
  have secs: "secs (push_seconds [''push'']) = 3 * second"
    by (simp add: push_seconds_def secs_def second_def wrap64_def)
  have small: "push_seconds [''push''] \<le> 461168601" by (simp add: three)
  have calm: "\<not> start_panics demo_sampler"
    unfolding demo_sampler_def by (rule new_sampler_calm) (simp add: second_def max_int64_def)
  have run: "run_push [] [''push''] False True demo_sampler (PushSignal Terminate) False =
     ([StartSampler (3 * second), StartPush (3 * second), CancelPush, CancelPush, StopSampler], Exit 143)"
    using calm by (simp add: run_push_def secs Let_def shut_debug_def second_def exit_code_for_signal_def)
  from push_mode_ends [OF small demo_sampler_def [folded secs] run] run show ?thesis unfolding three by simp
qed

end
