(* ===== verification/ReportClone.thy ===== *)
theory ReportClone
  imports HostReport
begin

text \<open>
  The copies of a report (\<open>Clone\<close> of \<open>metrics/types.go\<close>) and the cache that hands them out (\<open>push/last.go\<close>),
  with the memory they live in: a pointer or slice is the address of a cell beside its content, and a copy
  allocates the next free addresses.  Two values share memory when an address occurs in both.
\<close>

section \<open>Pointers\<close>

datatype 'a ref = Null | At nat 'a

text \<open>\<open>slices.Clone\<close> copies the elements as they are; the loops over the copy then replace their pointers, here
  by \<open>c\<close>.  An empty slice shares no element.\<close>

definition clone_ptr :: "'a ref \<Rightarrow> nat \<Rightarrow> 'a ref \<times> nat" where
  "clone_ptr p n = (case p of Null \<Rightarrow> (Null, n) | At _ x \<Rightarrow> (At n x, Suc n))"

fun clone_each :: "('a \<Rightarrow> nat \<Rightarrow> 'a \<times> nat) \<Rightarrow> 'a list \<Rightarrow> nat \<Rightarrow> 'a list \<times> nat" where
  "clone_each c [] n = ([], n)"
| "clone_each c (x # xs) n = (case c x n of (y, m) \<Rightarrow> (case clone_each c xs m of (ys, k) \<Rightarrow> (y # ys, k)))"

definition clone_slice :: "('a \<Rightarrow> nat \<Rightarrow> 'a \<times> nat) \<Rightarrow> 'a list ref \<Rightarrow> nat \<Rightarrow> 'a list ref \<times> nat" where
  "clone_slice c s n =
     (case s of Null \<Rightarrow> (Null, n) | At _ xs \<Rightarrow> (case clone_each c xs (Suc n) of (ys, k) \<Rightarrow> (At n ys, k)))"

section \<open>The report in memory\<close>

record smart_attr =
  za_id :: int
  za_name :: string
  za_when :: string

record smart_device =
  zd_ref :: string
  zd_name :: string
  zd_path :: string
  zd_type :: string
  zd_protocol :: string
  zd_model :: string
  zd_serial :: string
  zd_wwn :: string
  zd_source :: string
  zd_status :: string
  zd_exit :: "int ref"
  zd_health :: "string ref"
  zd_temp :: "float64 ref"
  zd_hours :: "u64 ref"
  zd_lifetime :: "float64 ref"
  zd_warning :: "u64 ref"
  zd_media :: "u64 ref"
  zd_attrs :: "smart_attr list ref"

record mem_smart =
  zm_status :: string
  zm_updated :: "time ref"
  zm_ttl :: int
  zm_devices :: "smart_device list ref"

record mem_array =
  zr_name :: string
  zr_status :: string
  zr_active :: int
  zr_working :: int
  zr_failed :: int
  zr_health :: string
  zr_members :: "raid_member list ref"
  zr_sync :: string
  zr_progress :: string

record mem_sensor =
  zs_kind :: string
  zs_name :: string
  zs_key :: string
  zs_source :: string
  zs_status :: string
  zs_temp :: "float64 ref"
  zs_high :: "float64 ref"
  zs_critical :: "float64 ref"

record mem_thermal =
  zt_status :: string
  zt_updated :: "time ref"
  zt_sensors :: "mem_sensor list ref"

record mem_pressure =
  zp_status :: string
  zp_some :: "pressure_stats ref"
  zp_full :: "pressure_stats ref"

record mem_snapshot =
  zn_cpu :: cpu_part
  zn_memory :: memory_part
  zn_physical :: "disk_physical list ref"
  zn_logical :: "disk_logical list ref"
  zn_filesystems :: "disk_filesystem list ref"
  zn_baseio :: "disk_base_io list ref"
  zn_smart :: mem_smart
  zn_network :: "net_io list ref"
  zn_system :: system_part
  zn_procs :: int
  zn_conns :: "int \<times> int"
  zn_pressure_cpu :: mem_pressure
  zn_pressure_memory :: mem_pressure
  zn_pressure_io :: mem_pressure
  zn_raid_supported :: bool
  zn_raid_available :: bool
  zn_raid_arrays :: "mem_array list ref"
  zn_thermal :: mem_thermal

record mem_report =
  zo_version :: string
  zo_hostname :: string
  zo_timestamp :: time
  zo_metrics :: "mem_snapshot ref"

section \<open>Copies\<close>

text \<open>Elements without pointers are copied with their slice.\<close>

definition plain :: "'a \<Rightarrow> nat \<Rightarrow> 'a \<times> nat" where "plain x n = (x, n)"

definition clone_device :: "smart_device \<Rightarrow> nat \<Rightarrow> smart_device \<times> nat" where
  "clone_device d n0 =
     (let (a, n1) = clone_ptr (zd_exit d) n0; (b, n2) = clone_ptr (zd_health d) n1;
          (c, n3) = clone_ptr (zd_temp d) n2; (e, n4) = clone_ptr (zd_hours d) n3;
          (f, n5) = clone_ptr (zd_lifetime d) n4; (g, n6) = clone_ptr (zd_warning d) n5;
          (h, n7) = clone_ptr (zd_media d) n6; (i, n8) = clone_slice plain (zd_attrs d) n7
      in (d\<lparr>zd_exit := a, zd_health := b, zd_temp := c, zd_hours := e, zd_lifetime := f, zd_warning := g, zd_media := h,
            zd_attrs := i\<rparr>, n8))"

definition clone_smart :: "mem_smart \<Rightarrow> nat \<Rightarrow> mem_smart \<times> nat" where
  "clone_smart s n0 =
     (let (a, n1) = clone_ptr (zm_updated s) n0; (b, n2) = clone_slice clone_device (zm_devices s) n1
      in (s\<lparr>zm_updated := a, zm_devices := b\<rparr>, n2))"

definition clone_array :: "mem_array \<Rightarrow> nat \<Rightarrow> mem_array \<times> nat" where
  "clone_array a n = (let (ms, n1) = clone_slice plain (zr_members a) n in (a\<lparr>zr_members := ms\<rparr>, n1))"

definition clone_sensor :: "mem_sensor \<Rightarrow> nat \<Rightarrow> mem_sensor \<times> nat" where
  "clone_sensor s n0 =
     (let (a, n1) = clone_ptr (zs_temp s) n0; (b, n2) = clone_ptr (zs_high s) n1; (c, n3) = clone_ptr (zs_critical s) n2
      in (s\<lparr>zs_temp := a, zs_high := b, zs_critical := c\<rparr>, n3))"

definition clone_thermal :: "mem_thermal \<Rightarrow> nat \<Rightarrow> mem_thermal \<times> nat" where
  "clone_thermal t n0 =
     (let (a, n1) = clone_ptr (zt_updated t) n0; (b, n2) = clone_slice clone_sensor (zt_sensors t) n1
      in (t\<lparr>zt_updated := a, zt_sensors := b\<rparr>, n2))"

definition clone_pressure :: "mem_pressure \<Rightarrow> nat \<Rightarrow> mem_pressure \<times> nat" where
  "clone_pressure p n0 =
     (let (a, n1) = clone_ptr (zp_some p) n0; (b, n2) = clone_ptr (zp_full p) n1
      in (p\<lparr>zp_some := a, zp_full := b\<rparr>, n2))"

definition clone_snapshot :: "mem_snapshot \<Rightarrow> nat \<Rightarrow> mem_snapshot \<times> nat" where
  "clone_snapshot s n0 =
     (let (a, n1) = clone_slice plain (zn_physical s) n0; (b, n2) = clone_slice plain (zn_logical s) n1;
          (c, n3) = clone_slice plain (zn_filesystems s) n2; (d, n4) = clone_slice plain (zn_baseio s) n3;
          (e, n5) = clone_smart (zn_smart s) n4; (f, n6) = clone_slice plain (zn_network s) n5;
          (g, n7) = clone_slice clone_array (zn_raid_arrays s) n6; (h, n8) = clone_thermal (zn_thermal s) n7;
          (i, n9) = clone_pressure (zn_pressure_cpu s) n8; (j, n10) = clone_pressure (zn_pressure_memory s) n9;
          (k, n11) = clone_pressure (zn_pressure_io s) n10
      in (s\<lparr>zn_physical := a, zn_logical := b, zn_filesystems := c, zn_baseio := d, zn_smart := e, zn_network := f,
            zn_raid_arrays := g, zn_thermal := h, zn_pressure_cpu := i, zn_pressure_memory := j, zn_pressure_io := k\<rparr>, n11))"

text \<open>\<open>(*Snapshot).Clone\<close> and \<open>(*NodeReport).Clone\<close> on pointers that may be nil.\<close>

definition clone_snapshot_ptr :: "mem_snapshot ref \<Rightarrow> nat \<Rightarrow> mem_snapshot ref \<times> nat" where
  "clone_snapshot_ptr p n =
     (case p of Null \<Rightarrow> (Null, n) | At _ s \<Rightarrow> (let (c, k) = clone_snapshot s (Suc n) in (At n c, k)))"

definition clone_report :: "mem_report ref \<Rightarrow> nat \<Rightarrow> mem_report ref \<times> nat" where
  "clone_report p n =
     (case p of
        Null \<Rightarrow> (Null, n)
      | At _ r \<Rightarrow> (let (m, k) = clone_snapshot_ptr (zo_metrics r) (Suc n) in (At n (r\<lparr>zo_metrics := m\<rparr>), k)))"

section \<open>The cache\<close>

text \<open>The cell of the cache and the next free address.\<close>

record report_memory =
  zc_report :: "mem_report ref"
  zc_next :: nat

definition cache_put :: "mem_report ref \<Rightarrow> report_memory \<Rightarrow> report_memory" where
  "cache_put r c = (let (copy, n) = clone_report r (zc_next c) in c\<lparr>zc_report := copy, zc_next := n\<rparr>)"

definition cache_take :: "report_memory \<Rightarrow> report_memory \<times> mem_report ref" where
  "cache_take c = (let (copy, n) = clone_report (zc_report c) (zc_next c) in (c\<lparr>zc_next := n\<rparr>, copy))"

section \<open>What a copy is\<close>

text \<open>The addresses of a value were allocated between \<open>n\<close> and \<open>k\<close>, each once.\<close>

definition block :: "nat \<Rightarrow> nat \<Rightarrow> nat list \<Rightarrow> bool" where
  "block n k as \<longleftrightarrow> n \<le> k \<and> distinct as \<and> set as \<subseteq> {n..<k}"

lemma block_Nil: "block n n []"
  by (simp add: block_def)

lemma block_one: "block n (Suc n) [n]"
  by (simp add: block_def)

lemma block_append: "block n m as \<Longrightarrow> block m k bs \<Longrightarrow> block n k (as @ bs)"
  by (fastforce simp: block_def)

lemma block_Cons: "block (Suc n) k as \<Longrightarrow> block n k (n # as)"
  by (fastforce simp: block_def)

text \<open>The contract of a copy: the same content (what remains when addresses are erased) at fresh
  addresses.\<close>

locale copier =
  fixes clone :: "'a \<Rightarrow> nat \<Rightarrow> 'a \<times> nat"
    and addrs :: "'a \<Rightarrow> nat list"
    and erase :: "'a \<Rightarrow> 'a"
  assumes copy_same: "clone x n = (y, k) \<Longrightarrow> erase y = erase x"
    and copy_fresh: "clone x n = (y, k) \<Longrightarrow> block n k (addrs y)"
begin

lemma copy_grows: "clone x n = (y, k) \<Longrightarrow> n \<le> k"
  using copy_fresh by (auto simp: block_def)

lemma copy_bounds: "clone x n = (y, k) \<Longrightarrow> a \<in> set (addrs y) \<Longrightarrow> n \<le> a \<and> a < k"
  using copy_fresh by (force simp: block_def)

lemma copy_apart:
  assumes "clone x n = (y, k)" and "\<And>a. a \<in> set as \<Longrightarrow> a < n"
  shows "set (addrs y) \<inter> set as = {}"
  using copy_bounds [OF assms(1)] assms(2) by (force simp: disjoint_iff)

lemma copies_apart:
  assumes "clone x n = (y, k)" and "clone x' k' = (z, l)" and "k \<le> k'"
  shows "set (addrs y) \<inter> set (addrs z) = {}"
proof -
  have "a < k'" if "a \<in> set (addrs y)" for a using copy_bounds [OF assms(1) that] assms(3) by simp
  then show ?thesis using copy_apart [OF assms(2)] by blast
qed

end

section \<open>Pointers and slices\<close>

fun ptr_addrs :: "('a \<Rightarrow> nat list) \<Rightarrow> 'a ref \<Rightarrow> nat list" where
  "ptr_addrs f Null = []"
| "ptr_addrs f (At a x) = a # f x"

fun erase_ptr :: "('a \<Rightarrow> 'a) \<Rightarrow> 'a ref \<Rightarrow> 'a ref" where
  "erase_ptr f Null = Null"
| "erase_ptr f (At a x) = At 0 (f x)"

abbreviation no_addrs :: "'a \<Rightarrow> nat list" where "no_addrs \<equiv> \<lambda>_. []"

abbreviation flat_addrs :: "'a ref \<Rightarrow> nat list" where "flat_addrs \<equiv> ptr_addrs no_addrs"

abbreviation flat :: "'a ref \<Rightarrow> 'a ref" where "flat \<equiv> erase_ptr id"

abbreviation slice_addrs :: "('a \<Rightarrow> nat list) \<Rightarrow> 'a list ref \<Rightarrow> nat list" where
  "slice_addrs f \<equiv> ptr_addrs (\<lambda>xs. concat (map f xs))"

interpretation plain: copier plain no_addrs id
  by unfold_locales (auto simp: plain_def block_Nil)

interpretation ptr: copier clone_ptr flat_addrs flat
  by unfold_locales (auto simp: clone_ptr_def block_Nil block_one split: ref.splits)

lemma copier_each:
  assumes "copier c addrs erase" and "clone_each c xs n = (ys, k)"
  shows "map erase ys = map erase xs \<and> block n k (concat (map addrs ys))"
  using assms(2)
proof (induction xs arbitrary: n ys k)
  case (Cons x xs)
  obtain y m where y: "c x n = (y, m)" by (metis surj_pair)
  obtain zs where zs: "clone_each c xs m = (zs, k)" "ys = y # zs"
    using Cons.prems y by (auto split: prod.splits)
  show ?case
    using Cons.IH [OF zs(1)] zs(2) copier.copy_same [OF assms(1) y] block_append [OF copier.copy_fresh [OF assms(1) y]] by simp
qed (simp add: block_Nil)

lemma copier_slice:
  assumes "copier c addrs erase"
  shows "copier (clone_slice c) (slice_addrs addrs) (erase_ptr (map erase))"
proof
  fix x :: "'a list ref" and n y k
  assume copy: "clone_slice c x n = (y, k)"
  have "erase_ptr (map erase) y = erase_ptr (map erase) x \<and> block n k (slice_addrs addrs y)"
  proof (cases x)
    case Null
    with copy show ?thesis by (simp add: clone_slice_def block_Nil)
  next
    case (At a xs)
    obtain ys where ys: "clone_each c xs (Suc n) = (ys, k)" "y = At n ys"
      using copy At by (auto simp: clone_slice_def split: prod.splits)
    from copier_each [OF assms ys(1)] ys(2) At block_Cons show ?thesis by auto
  qed
  then show "erase_ptr (map erase) y = erase_ptr (map erase) x" and "block n k (slice_addrs addrs y)" by auto
qed

lemmas plain_slice = copier_slice [OF plain.copier_axioms]

section \<open>The parts of a report\<close>

definition device_addrs :: "smart_device \<Rightarrow> nat list" where
  "device_addrs d = flat_addrs (zd_exit d) @ flat_addrs (zd_health d) @ flat_addrs (zd_temp d) @ flat_addrs (zd_hours d) @
     flat_addrs (zd_lifetime d) @ flat_addrs (zd_warning d) @ flat_addrs (zd_media d) @ slice_addrs no_addrs (zd_attrs d)"

definition erase_device :: "smart_device \<Rightarrow> smart_device" where
  "erase_device d = d\<lparr>zd_exit := flat (zd_exit d), zd_health := flat (zd_health d), zd_temp := flat (zd_temp d),
     zd_hours := flat (zd_hours d), zd_lifetime := flat (zd_lifetime d), zd_warning := flat (zd_warning d),
     zd_media := flat (zd_media d), zd_attrs := erase_ptr (map id) (zd_attrs d)\<rparr>"

lemmas fresh_parts = ptr.copy_fresh copier.copy_fresh [OF plain_slice]

lemmas copy_parts = ptr.copy_same copier.copy_same [OF plain_slice]

interpretation device: copier clone_device device_addrs erase_device
proof
  fix d n0 e k
  assume copy: "clone_device d n0 = (e, k)"
  show "erase_device e = erase_device d"
    using copy by (auto simp: clone_device_def erase_device_def Let_def dest!: copy_parts split: prod.splits)
  show "block n0 k (device_addrs e)"
    using copy
    by (auto simp: clone_device_def device_addrs_def Let_def split: prod.splits
        intro!: block_append dest!: fresh_parts)
qed

lemmas device_slice = copier_slice [OF device.copier_axioms]

definition smart_addrs :: "mem_smart \<Rightarrow> nat list" where
  "smart_addrs s = flat_addrs (zm_updated s) @ slice_addrs device_addrs (zm_devices s)"

definition erase_smart :: "mem_smart \<Rightarrow> mem_smart" where
  "erase_smart s = s\<lparr>zm_updated := flat (zm_updated s), zm_devices := erase_ptr (map erase_device) (zm_devices s)\<rparr>"

interpretation smart: copier clone_smart smart_addrs erase_smart
proof
  fix s n0 e k
  assume copy: "clone_smart s n0 = (e, k)"
  show "erase_smart e = erase_smart s"
    using copy
    by (auto simp: clone_smart_def erase_smart_def Let_def split: prod.splits dest!: copy_parts
      copier.copy_same [OF device_slice])
  show "block n0 k (smart_addrs e)"
    using copy
    by (auto simp: clone_smart_def smart_addrs_def Let_def split: prod.splits
        intro!: block_append dest!: fresh_parts
        copier.copy_fresh [OF device_slice])
qed

definition array_addrs :: "mem_array \<Rightarrow> nat list" where
  "array_addrs a = slice_addrs no_addrs (zr_members a)"

definition erase_array :: "mem_array \<Rightarrow> mem_array" where
  "erase_array a = a\<lparr>zr_members := erase_ptr (map id) (zr_members a)\<rparr>"

interpretation array: copier clone_array array_addrs erase_array
proof
  fix a n0 e k
  assume copy: "clone_array a n0 = (e, k)"
  show "erase_array e = erase_array a"
    using copy
    by (auto simp: clone_array_def erase_array_def Let_def split: prod.splits dest!: copy_parts)
  show "block n0 k (array_addrs e)"
    using copy
    by (auto simp: clone_array_def array_addrs_def Let_def split: prod.splits
        intro!: block_append dest!: fresh_parts)
qed

definition sensor_addrs :: "mem_sensor \<Rightarrow> nat list" where
  "sensor_addrs s = flat_addrs (zs_temp s) @ flat_addrs (zs_high s) @ flat_addrs (zs_critical s)"

definition erase_sensor :: "mem_sensor \<Rightarrow> mem_sensor" where
  "erase_sensor s = s\<lparr>zs_temp := flat (zs_temp s), zs_high := flat (zs_high s), zs_critical := flat (zs_critical s)\<rparr>"

interpretation sensor: copier clone_sensor sensor_addrs erase_sensor
proof
  fix s n0 e k
  assume copy: "clone_sensor s n0 = (e, k)"
  show "erase_sensor e = erase_sensor s"
    using copy
    by (auto simp: clone_sensor_def erase_sensor_def Let_def split: prod.splits dest!: copy_parts)
  show "block n0 k (sensor_addrs e)"
    using copy
    by (auto simp: clone_sensor_def sensor_addrs_def Let_def split: prod.splits
        intro!: block_append dest!: fresh_parts)
qed

lemmas array_slice = copier_slice [OF array.copier_axioms]

lemmas sensor_slice = copier_slice [OF sensor.copier_axioms]

definition thermal_addrs :: "mem_thermal \<Rightarrow> nat list" where
  "thermal_addrs t = flat_addrs (zt_updated t) @ slice_addrs sensor_addrs (zt_sensors t)"

definition erase_thermal :: "mem_thermal \<Rightarrow> mem_thermal" where
  "erase_thermal t = t\<lparr>zt_updated := flat (zt_updated t), zt_sensors := erase_ptr (map erase_sensor) (zt_sensors t)\<rparr>"

interpretation thermal: copier clone_thermal thermal_addrs erase_thermal
proof
  fix t n0 e k
  assume copy: "clone_thermal t n0 = (e, k)"
  show "erase_thermal e = erase_thermal t"
    using copy
    by (auto simp: clone_thermal_def erase_thermal_def Let_def split: prod.splits dest!: copy_parts
      copier.copy_same [OF sensor_slice])
  show "block n0 k (thermal_addrs e)"
    using copy
    by (auto simp: clone_thermal_def thermal_addrs_def Let_def split: prod.splits
        intro!: block_append dest!: fresh_parts
        copier.copy_fresh [OF sensor_slice])
qed

definition pressure_addrs :: "mem_pressure \<Rightarrow> nat list" where
  "pressure_addrs p = flat_addrs (zp_some p) @ flat_addrs (zp_full p)"

definition erase_pressure :: "mem_pressure \<Rightarrow> mem_pressure" where
  "erase_pressure p = p\<lparr>zp_some := flat (zp_some p), zp_full := flat (zp_full p)\<rparr>"

interpretation pressure: copier clone_pressure pressure_addrs erase_pressure
proof
  fix p n0 e k
  assume copy: "clone_pressure p n0 = (e, k)"
  show "erase_pressure e = erase_pressure p"
    using copy
    by (auto simp: clone_pressure_def erase_pressure_def Let_def split: prod.splits dest!: copy_parts)
  show "block n0 k (pressure_addrs e)"
    using copy
    by (auto simp: clone_pressure_def pressure_addrs_def Let_def split: prod.splits
        intro!: block_append dest!: fresh_parts)
qed

definition snapshot_addrs :: "mem_snapshot \<Rightarrow> nat list" where
  "snapshot_addrs s = slice_addrs no_addrs (zn_physical s) @ slice_addrs no_addrs (zn_logical s) @
     slice_addrs no_addrs (zn_filesystems s) @ slice_addrs no_addrs (zn_baseio s) @
     smart_addrs (zn_smart s) @ slice_addrs no_addrs (zn_network s) @
     slice_addrs array_addrs (zn_raid_arrays s) @ thermal_addrs (zn_thermal s) @
     pressure_addrs (zn_pressure_cpu s) @ pressure_addrs (zn_pressure_memory s) @
     pressure_addrs (zn_pressure_io s)"

definition erase_snapshot :: "mem_snapshot \<Rightarrow> mem_snapshot" where
  "erase_snapshot s = s\<lparr>zn_physical := erase_ptr (map id) (zn_physical s), zn_logical := erase_ptr (map id) (zn_logical s),
     zn_filesystems := erase_ptr (map id) (zn_filesystems s),
     zn_baseio := erase_ptr (map id) (zn_baseio s), zn_smart := erase_smart (zn_smart s),
     zn_network := erase_ptr (map id) (zn_network s),
     zn_raid_arrays := erase_ptr (map erase_array) (zn_raid_arrays s),
     zn_thermal := erase_thermal (zn_thermal s), zn_pressure_cpu := erase_pressure (zn_pressure_cpu s),
     zn_pressure_memory := erase_pressure (zn_pressure_memory s),
     zn_pressure_io := erase_pressure (zn_pressure_io s)\<rparr>"

interpretation snapshot: copier clone_snapshot snapshot_addrs erase_snapshot
proof
  fix s n0 e k
  assume copy: "clone_snapshot s n0 = (e, k)"
  show "erase_snapshot e = erase_snapshot s"
    using copy
    by (auto simp: clone_snapshot_def erase_snapshot_def Let_def split: prod.splits dest!: copy_parts
      copier.copy_same [OF array_slice] pressure.copy_same smart.copy_same thermal.copy_same)
  show "block n0 k (snapshot_addrs e)"
    using copy
    by (auto simp: clone_snapshot_def snapshot_addrs_def Let_def split: prod.splits
        intro!: block_append dest!: fresh_parts
        copier.copy_fresh [OF array_slice] pressure.copy_fresh smart.copy_fresh thermal.copy_fresh)
qed

interpretation snapshot_ptr: copier clone_snapshot_ptr "ptr_addrs snapshot_addrs" "erase_ptr erase_snapshot"
proof
  fix p n q k
  assume copy: "clone_snapshot_ptr p n = (q, k)"
  show "erase_ptr erase_snapshot q = erase_ptr erase_snapshot p"
    using copy by (auto simp: clone_snapshot_ptr_def Let_def split: ref.splits prod.splits dest!: snapshot.copy_same)
  show "block n k (ptr_addrs snapshot_addrs q)"
    using copy
    by (auto simp: clone_snapshot_ptr_def Let_def block_Nil split: ref.splits prod.splits intro!: block_Cons dest!: snapshot.copy_fresh)
qed

definition report_addrs :: "mem_report ref \<Rightarrow> nat list" where
  "report_addrs = ptr_addrs (\<lambda>r. ptr_addrs snapshot_addrs (zo_metrics r))"

definition erase_report :: "mem_report ref \<Rightarrow> mem_report ref" where
  "erase_report = erase_ptr (\<lambda>r. r\<lparr>zo_metrics := erase_ptr erase_snapshot (zo_metrics r)\<rparr>)"

interpretation report: copier clone_report report_addrs erase_report
proof
  fix p n q k
  assume copy: "clone_report p n = (q, k)"
  show "erase_report q = erase_report p"
    using copy by (auto simp: clone_report_def erase_report_def Let_def split: ref.splits prod.splits dest!: snapshot_ptr.copy_same)
  show "block n k (report_addrs q)"
    using copy
    by (auto simp: clone_report_def report_addrs_def Let_def block_Nil split: ref.splits prod.splits
        intro!: block_Cons dest!: snapshot_ptr.copy_fresh)
qed

section \<open>The cache does not share\<close>

text \<open>C18. A report put into the cache and the reports taken from it have the same content, and no two of the
  sender's report, the cached one and the reports of two readers share a cell: a write through one of them,
  however deep, is not seen through another.\<close>

theorem cache_is_isolated:
  assumes "list_all (\<lambda>a. a < zc_next c) (report_addrs r)"
    and "cache_put r c = c1" and "cache_take c1 = (c2, x)" and "cache_take c2 = (c3, y)"
  shows "erase_report x = erase_report r \<and> erase_report y = erase_report r
    \<and> set (report_addrs x) \<inter> set (report_addrs r) = {} \<and> set (report_addrs x) \<inter> set (report_addrs y) = {}
    \<and> set (report_addrs x) \<inter> set (report_addrs (zc_report c3)) = {}
    \<and> set (report_addrs r) \<inter> set (report_addrs (zc_report c3)) = {}"
proof -
  obtain q n where q: "clone_report r (zc_next c) = (q, n)" "zc_report c1 = q" "zc_next c1 = n"
    using assms(2) by (cases "clone_report r (zc_next c)") (auto simp: cache_put_def)
  obtain m where x: "clone_report q n = (x, m)" "zc_report c2 = q" "zc_next c2 = m"
    using assms(3) q(2,3) by (cases "clone_report q n") (auto simp: cache_take_def)
  obtain l where y: "clone_report q m = (y, l)" "zc_report c3 = q"
    using assms(4) x(2,3) by (cases "clone_report q m") (auto simp: cache_take_def)
  have below: "a < zc_next c" if "a \<in> set (report_addrs r)" for a using assms(1) that by (auto simp: list_all_iff)
  then have below': "a < n" if "a \<in> set (report_addrs r)" for a
    using that report.copy_grows [OF q(1)] by fastforce
  have "set (report_addrs q) \<inter> set (report_addrs r) = {}" by (rule report.copy_apart [OF q(1) below])
  moreover have "set (report_addrs x) \<inter> set (report_addrs r) = {}" by (rule report.copy_apart [OF x(1) below'])
  moreover have "set (report_addrs q) \<inter> set (report_addrs x) = {}" by (rule report.copies_apart [OF q(1) x(1)]) simp
  moreover have "set (report_addrs x) \<inter> set (report_addrs y) = {}" by (rule report.copies_apart [OF x(1) y(1)]) simp
  ultimately show ?thesis
    using report.copy_same [OF q(1)] report.copy_same [OF x(1)] report.copy_same [OF y(1)] y(2) by auto
qed

definition demo_pressure :: "nat \<Rightarrow> mem_pressure" where
  "demo_pressure a = \<lparr>zp_status = ''ok'', zp_some = At a \<lparr>ps_avg10 = Fin 0, ps_avg60 = Fin 0, ps_avg300 = Fin 0, ps_total = 0\<rparr>,
     zp_full = Null\<rparr>"

definition demo_mem_report :: "mem_report ref" where
  "demo_mem_report = At 0 \<lparr>zo_version = ''1.2.3'', zo_hostname = ''node1'', zo_timestamp = 1, zo_metrics = At 1
     \<lparr>zn_cpu = \<lparr>cu_ratio = Fin 0, cu_load1 = Fin 0, cu_load5 = Fin 0, cu_load15 = Fin 0,
        cu_times = \<lparr>ct_user = Fin 0, ct_system = Fin 0, ct_idle = Fin 0, ct_iowait = Fin 0, ct_steal = Fin 0\<rparr>\<rparr>,
      zn_memory = \<lparr>my_used = 0, my_available = 0, my_buffers = 0, my_cached = 0, my_ratio = Fin 0, my_swap_used = 0,
        my_swap_free = 0, my_swap_ratio = Fin 0\<rparr>,
      zn_physical = Null, zn_logical = Null, zn_filesystems = Null, zn_baseio = Null,
      zn_smart = \<lparr>zm_status = ''no_cache'', zm_updated = Null, zm_ttl = 0, zm_devices = Null\<rparr>,
      zn_network = At 2 [], zn_system = \<lparr>yp_alive = True, yp_uptime_secs = 1, yp_uptime = ''0d 0h 0m''\<rparr>,
      zn_procs = 1, zn_conns = (0, 0), zn_pressure_cpu = demo_pressure 3, zn_pressure_memory = demo_pressure 4,
      zn_pressure_io = demo_pressure 5, zn_raid_supported = True, zn_raid_available = True,
      zn_raid_arrays = At 6 [\<lparr>zr_name = ''md0'', zr_status = ''active'', zr_active = 1, zr_working = 1, zr_failed = 0,
        zr_health = ''healthy'', zr_members = At 7 [\<lparr>rm_name = ''sda1'', rm_state = ''up''\<rparr>], zr_sync = [], zr_progress = []\<rparr>],
      zn_thermal = \<lparr>zt_status = ''not_found'', zt_updated = At 8 1, zt_sensors = Null\<rparr>\<rparr>\<rparr>"

lemma demo_addrs: "report_addrs demo_mem_report = [0, 1, 2, 6, 7, 8, 3, 4, 5]"
  by (simp add: demo_mem_report_def report_addrs_def snapshot_addrs_def smart_addrs_def thermal_addrs_def pressure_addrs_def
      array_addrs_def demo_pressure_def)

theorem cache_is_isolated_witness:
  "\<exists>x. snd (cache_take (cache_put demo_mem_report \<lparr>zc_report = Null, zc_next = 9\<rparr>)) = x
     \<and> erase_report x = erase_report demo_mem_report \<and> set (report_addrs x) \<inter> {0, 1, 2, 3, 4, 5, 6, 7, 8} = {}"
proof -
  let ?c = "\<lparr>zc_report = Null, zc_next = 9\<rparr>"
  obtain c2 x where x: "cache_take (cache_put demo_mem_report ?c) = (c2, x)" by (metis surj_pair)
  obtain c3 y where y: "cache_take c2 = (c3, y)" by (metis surj_pair)
  have "list_all (\<lambda>a. a < zc_next ?c) (report_addrs demo_mem_report)" by (simp add: demo_addrs)
  from cache_is_isolated [OF this refl x y] x show ?thesis by (force simp: demo_addrs)
qed

end
