(* ===== verification/PveService.thy ===== *)
theory PveService
  imports GoBase
begin

text \<open>
  Starting and stopping the helper (\<open>Serve\<close> of \<open>pve/serve.go\<close>, \<open>guestLock\<close> of \<open>pve/guest_cache.go\<close>): any number
  of processes share the lock file and the path of the socket, each goes through \<open>Serve\<close> one system call
  at a time, and each may be killed at any moment, which releases its lock and leaves its socket.  Only
  helpers touch the path.
\<close>

section \<open>Processes, the lock and the socket\<close>

datatype serve_error =
    SetupFailed | AlreadyRunning | NotASocket | RemoveFailed | LstatFailed | ListenFailed | ChownFailed | ChmodFailed
  | ServeFailed | ShutdownFailed | Killed

text \<open>The way of a process through \<open>Serve\<close>: before the lock, holding it, having found a socket, with the
  path free, listening, with the owner set, serving, with its listener closed, and over.\<close>

datatype serve_phase =
    Idle | Locked | FoundSocket | PathFree | Listening | Owned | Serving | Closed "serve_error option" | Over "serve_error option"

text \<open>What is at the path: nothing, the socket of a listening process, one that nobody listens on, or
  something else.\<close>

datatype socket_path = NoSocket | SocketOf nat | StaleSocket | OtherFile

record service_world =
  wp_lock :: "nat option"
  wp_socket :: socket_path
  wp_phase :: "nat \<Rightarrow> serve_phase"

definition at_phase :: "nat \<Rightarrow> serve_phase \<Rightarrow> service_world \<Rightarrow> service_world" where
  "at_phase p ph w = w\<lparr>wp_phase := (wp_phase w)(p := ph)\<rparr>"

definition release :: "nat \<Rightarrow> service_world \<Rightarrow> service_world" where
  "release p w = (if wp_lock w = Some p then w\<lparr>wp_lock := None\<rparr> else w)"

text \<open>The deferred \<open>lock.Close\<close> ends every return after the lock.\<close>

definition give_up :: "nat \<Rightarrow> serve_error \<Rightarrow> service_world \<Rightarrow> service_world" where
  "give_up p e w = at_phase p (Over (Some e)) (release p w)"

text \<open>Closing a Unix listener removes what is at its path.\<close>

definition close_listener :: "nat \<Rightarrow> serve_error option \<Rightarrow> service_world \<Rightarrow> service_world" where
  "close_listener p e w = at_phase p (Closed e) (w\<lparr>wp_socket := NoSocket\<rparr>)"

text \<open>The error \<open>Serve\<close> returns after the loops ended, of the one of \<open>server.Serve\<close> (\<open>None\<close> also for
  \<open>ErrServerClosed\<close>) and the one of \<open>Shutdown\<close>.\<close>

definition serve_result :: "bool \<Rightarrow> bool \<Rightarrow> serve_error option" where
  "serve_result serve_failed shutdown_failed =
     (if serve_failed then Some ServeFailed else if shutdown_failed then Some ShutdownFailed else None)"

section \<open>Steps\<close>

inductive service_step :: "service_world \<Rightarrow> service_world \<Rightarrow> bool" where
  setup_fails: "wp_phase w p = Idle \<Longrightarrow> service_step w (at_phase p (Over (Some SetupFailed)) w)"
| lock_taken: "wp_phase w p = Idle \<Longrightarrow> wp_lock w = None \<Longrightarrow> service_step w (at_phase p Locked (w\<lparr>wp_lock := Some p\<rparr>))"
| lock_busy: "wp_phase w p = Idle \<Longrightarrow> wp_lock w \<noteq> None \<Longrightarrow> service_step w (at_phase p (Over (Some AlreadyRunning)) w)"
| path_absent: "wp_phase w p = Locked \<Longrightarrow> wp_socket w = NoSocket \<Longrightarrow> service_step w (at_phase p PathFree w)"
| path_other: "wp_phase w p = Locked \<Longrightarrow> wp_socket w = OtherFile \<Longrightarrow> service_step w (give_up p NotASocket w)"
| path_socket: "wp_phase w p = Locked \<Longrightarrow> wp_socket w = StaleSocket \<or> wp_socket w = SocketOf q \<Longrightarrow>
     service_step w (at_phase p FoundSocket w)"
| lstat_fails: "wp_phase w p = Locked \<Longrightarrow> service_step w (give_up p LstatFailed w)"
| socket_removed: "wp_phase w p = FoundSocket \<Longrightarrow> service_step w (at_phase p PathFree (w\<lparr>wp_socket := NoSocket\<rparr>))"
| remove_fails: "wp_phase w p = FoundSocket \<Longrightarrow> service_step w (give_up p RemoveFailed w)"
| listens: "wp_phase w p = PathFree \<Longrightarrow> wp_socket w = NoSocket \<Longrightarrow>
     service_step w (at_phase p Listening (w\<lparr>wp_socket := SocketOf p\<rparr>))"
| listen_fails: "wp_phase w p = PathFree \<Longrightarrow> service_step w (give_up p ListenFailed w)"
| chowned: "wp_phase w p = Listening \<Longrightarrow> service_step w (at_phase p Owned w)"
| chown_fails: "wp_phase w p = Listening \<Longrightarrow> service_step w (close_listener p (Some ChownFailed) w)"
| chmoded: "wp_phase w p = Owned \<Longrightarrow> service_step w (at_phase p Serving w)"
| chmod_fails: "wp_phase w p = Owned \<Longrightarrow> service_step w (close_listener p (Some ChmodFailed) w)"
| stopped: "wp_phase w p = Serving \<Longrightarrow> service_step w (close_listener p (serve_result a b) w)"
| returned: "wp_phase w p = Closed e \<Longrightarrow> service_step w (at_phase p (Over e) (release p w))"
| killed: "(\<And>e. wp_phase w p \<noteq> Over e) \<Longrightarrow>
     service_step w (give_up p Killed (if wp_socket w = SocketOf p then w\<lparr>wp_socket := StaleSocket\<rparr> else w))"

definition quiet_world :: "socket_path \<Rightarrow> service_world" where
  "quiet_world s = \<lparr>wp_lock = None, wp_socket = s, wp_phase = (\<lambda>_. Idle)\<rparr>"

section \<open>One helper\<close>

fun holds_lock :: "serve_phase \<Rightarrow> bool" where
  "holds_lock Idle = False" | "holds_lock (Over e) = False" | "holds_lock _ = True"

fun has_socket :: "serve_phase \<Rightarrow> bool" where
  "has_socket Listening = True" | "has_socket Owned = True" | "has_socket Serving = True" | "has_socket _ = False"

definition service_inv :: "service_world \<Rightarrow> bool" where
  "service_inv w \<longleftrightarrow>
     (\<forall>p. holds_lock (wp_phase w p) \<longleftrightarrow> wp_lock w = Some p) \<and>
     (\<forall>p. has_socket (wp_phase w p) \<longleftrightarrow> wp_socket w = SocketOf p)"

lemma has_socket_holds: "has_socket ph \<Longrightarrow> holds_lock ph"
  by (cases ph) simp_all

lemmas service_simps = at_phase_def release_def give_up_def close_listener_def

text \<open>A step of one process keeps the invariant when it leaves the lock and the socket of the others alone.\<close>

lemma service_inv_change:
  assumes inv: "service_inv w"
    and w': "wp_phase w' = (wp_phase w)(p := ph)"
    and lock: "wp_lock w' = wp_lock w \<or> wp_lock w = Some p \<or> (wp_lock w = None \<and> wp_lock w' = Some p)"
    and mine: "holds_lock ph \<longleftrightarrow> wp_lock w' = Some p" "has_socket ph \<longleftrightarrow> wp_socket w' = SocketOf p"
    and sock: "wp_socket w' = wp_socket w \<or> (wp_lock w = Some p \<and> (wp_socket w' = NoSocket \<or> wp_socket w' = SocketOf p))
      \<or> (wp_socket w = SocketOf p \<and> wp_socket w' = StaleSocket)"
    and none: "wp_lock w' = wp_lock w \<or> wp_lock w' = None \<or> wp_lock w' = Some p"
  shows "service_inv w'"
proof -
  have lk: "holds_lock (wp_phase w q) \<longleftrightarrow> wp_lock w = Some q" and sk: "has_socket (wp_phase w q) \<longleftrightarrow> wp_socket w = SocketOf q" for q
    using inv by (auto simp: service_inv_def)
  have other: "holds_lock (wp_phase w' q) \<longleftrightarrow> wp_lock w' = Some q" if "q \<noteq> p" for q
    using lk [of q] that w' lock none by auto
  have other': "has_socket (wp_phase w' q) \<longleftrightarrow> wp_socket w' = SocketOf q" if "q \<noteq> p" for q
  proof -
    have "wp_lock w = Some p \<Longrightarrow> wp_socket w \<noteq> SocketOf q" using lk [of q] sk [of q] has_socket_holds that by auto
    then show ?thesis using sk [of q] that w' sock by auto
  qed
  show ?thesis
    unfolding service_inv_def using other other' mine w' by (metis fun_upd_same)
qed

lemma service_inv_lock: "service_inv w \<Longrightarrow> holds_lock (wp_phase w p) \<longleftrightarrow> wp_lock w = Some p"
  by (simp add: service_inv_def)

lemma service_inv_socket: "service_inv w \<Longrightarrow> has_socket (wp_phase w p) \<longleftrightarrow> wp_socket w = SocketOf p"
  by (simp add: service_inv_def)

lemma inv_move:
  assumes "service_inv w" and "wp_phase w p = a" and "holds_lock ph = holds_lock a" and "has_socket ph = has_socket a"
  shows "service_inv (at_phase p ph w)"
  using assms service_inv_lock [OF assms(1), of p] service_inv_socket [OF assms(1), of p]
  by (intro service_inv_change [OF assms(1), of _ p ph]) (auto simp: service_simps)

lemma inv_give_up:
  assumes "service_inv w" and "wp_phase w p = a" and "holds_lock a" and "\<not> has_socket a"
  shows "service_inv (give_up p e w)"
  using assms service_inv_lock [OF assms(1), of p] service_inv_socket [OF assms(1), of p]
  by (intro service_inv_change [OF assms(1), of _ p "Over (Some e)"]) (auto simp: service_simps)

lemma inv_close:
  assumes "service_inv w" and "wp_phase w p = a" and "has_socket a"
  shows "service_inv (close_listener p e w)"
  using assms service_inv_lock [OF assms(1), of p] has_socket_holds [OF assms(3)]
  by (intro service_inv_change [OF assms(1), of _ p "Closed e"]) (auto simp: service_simps)

lemma service_inv_step:
  assumes inv: "service_inv w" and step: "service_step w w'"
  shows "service_inv w'"
  using step
proof (cases rule: service_step.cases)
  case (lock_taken p)
  show ?thesis unfolding lock_taken(1)
    by (rule service_inv_change [OF inv, of _ p Locked])
      (use lock_taken service_inv_socket [OF inv, of p] in \<open>auto simp: service_simps\<close>)
next
  case (socket_removed p)
  then have "wp_lock w = Some p" using service_inv_lock [OF inv, of p] by simp
  then show ?thesis unfolding socket_removed(1)
    by (intro service_inv_change [OF inv, of _ p PathFree]) (auto simp: service_simps)
next
  case (listens p)
  then have "wp_lock w = Some p" using service_inv_lock [OF inv, of p] by simp
  then show ?thesis unfolding listens(1)
    by (intro service_inv_change [OF inv, of _ p Listening]) (auto simp: service_simps)
next
  case (returned p e)
  show ?thesis unfolding returned(1)
    by (rule service_inv_change [OF inv, of _ p "Over e"])
      (use returned service_inv_lock [OF inv, of p] service_inv_socket [OF inv, of p] in \<open>auto simp: service_simps\<close>)
next
  case (killed p)
  have "wp_lock w \<noteq> Some p \<Longrightarrow> wp_socket w \<noteq> SocketOf p"
    using service_inv_lock [OF inv, of p] service_inv_socket [OF inv, of p] has_socket_holds by blast
  then show ?thesis unfolding killed(1)
    by (intro service_inv_change [OF inv, of _ p "Over (Some Killed)"]) (auto simp: service_simps)
qed (use inv in \<open>auto intro: inv_move inv_give_up inv_close\<close>)

lemma service_inv_reach:
  assumes "service_step\<^sup>*\<^sup>* (quiet_world s) w" and "\<And>p. s \<noteq> SocketOf p"
  shows "service_inv w"
  using assms(1)
proof (induction rule: rtranclp_induct)
  case base
  show ?case using assms(2) by (simp add: service_inv_def quiet_world_def)
next
  case (step w w')
  then show ?case by (blast intro: service_inv_step)
qed

text \<open>C19. However many helpers are started, stopped and killed, one of them at most is past the lock, and from the
  moment it listens to the moment it closes its listener the socket at the path is its own: a second helper
  never removes the socket of one that serves.\<close>

theorem serving_helper_keeps_socket:
  assumes "service_step\<^sup>*\<^sup>* (quiet_world s) w" and "s \<in> {NoSocket, StaleSocket, OtherFile}"
    and "wp_phase w p = Serving"
  shows "wp_socket w = SocketOf p \<and> wp_lock w = Some p \<and> {q. holds_lock (wp_phase w q)} = {p}"
proof -
  have inv: "service_inv w" by (rule service_inv_reach [OF assms(1)]) (use assms(2) in auto)
  have "wp_lock w = Some p" using service_inv_lock [OF inv, of p] assms(3) by simp
  then have "{q. holds_lock (wp_phase w q)} = {p}" using service_inv_lock [OF inv] by auto
  with \<open>wp_lock w = Some p\<close> show ?thesis using service_inv_socket [OF inv, of p] assms(3) by simp
qed

text \<open>C22. No killed helper blocks the next one: in every reachable state where no helper holds the lock a new one
  can come to serve, unless something that is not a socket is at the path.\<close>

theorem helper_can_start_again:
  assumes "service_step\<^sup>*\<^sup>* (quiet_world s) w" and "s \<in> {NoSocket, StaleSocket}"
    and "wp_lock w = None" and "wp_phase w p = Idle"
  shows "\<exists>w'. service_step\<^sup>*\<^sup>* w w' \<and> wp_phase w' p = Serving"
proof -
  have kept: "wp_socket w \<noteq> OtherFile"
    using assms(1)
  proof (induction rule: rtranclp_induct)
    case base
    show ?case using assms(2) by (auto simp: quiet_world_def)
  next
    case (step w w')
    then show ?case by (auto simp: service_simps elim!: service_step.cases split: if_splits)
  qed
  let ?l = "at_phase p Locked (w\<lparr>wp_lock := Some p\<rparr>)"
  have 1: "service_step w ?l" by (rule lock_taken [OF assms(4,3)])
  have 2: "\<exists>w1. service_step\<^sup>*\<^sup>* ?l w1 \<and> wp_phase w1 p = PathFree \<and> wp_socket w1 = NoSocket"
  proof (cases "wp_socket w")
    case NoSocket
    have "service_step ?l (at_phase p PathFree ?l)" by (rule path_absent) (simp_all add: at_phase_def NoSocket)
    then show ?thesis using NoSocket by (intro exI [of _ "at_phase p PathFree ?l"]) (simp add: at_phase_def)
  next
    case OtherFile
    with kept show ?thesis by simp
  next
    case (SocketOf q)
    let ?f = "at_phase p FoundSocket ?l"
    have "service_step ?l ?f" by (rule path_socket [where q = q]) (simp_all add: at_phase_def SocketOf)
    moreover have "service_step ?f (at_phase p PathFree (?f\<lparr>wp_socket := NoSocket\<rparr>))"
      by (rule socket_removed) (simp add: at_phase_def)
    ultimately show ?thesis
      by (intro exI [of _ "at_phase p PathFree (?f\<lparr>wp_socket := NoSocket\<rparr>)"])
        (auto simp: at_phase_def intro: converse_rtranclp_into_rtranclp)
  next
    case StaleSocket
    let ?f = "at_phase p FoundSocket ?l"
    have "service_step ?l ?f" by (rule path_socket) (simp_all add: at_phase_def StaleSocket)
    moreover have "service_step ?f (at_phase p PathFree (?f\<lparr>wp_socket := NoSocket\<rparr>))"
      by (rule socket_removed) (simp add: at_phase_def)
    ultimately show ?thesis
      by (intro exI [of _ "at_phase p PathFree (?f\<lparr>wp_socket := NoSocket\<rparr>)"])
        (auto simp: at_phase_def intro: converse_rtranclp_into_rtranclp)
  qed
  then obtain w1 where w1: "service_step\<^sup>*\<^sup>* ?l w1" "wp_phase w1 p = PathFree" "wp_socket w1 = NoSocket" by blast
  let ?b = "at_phase p Listening (w1\<lparr>wp_socket := SocketOf p\<rparr>)"
  have 3: "service_step w1 ?b" by (rule listens [OF w1(2,3)])
  have 4: "service_step ?b (at_phase p Owned ?b)" by (rule chowned) (simp add: at_phase_def)
  have 5: "service_step (at_phase p Owned ?b) (at_phase p Serving (at_phase p Owned ?b))"
    by (rule chmoded) (simp add: at_phase_def)
  have "service_step\<^sup>*\<^sup>* w (at_phase p Serving (at_phase p Owned ?b))"
    using 1 w1(1) 3 4 5 by (meson converse_rtranclp_into_rtranclp rtranclp.rtrancl_into_rtrancl)
  then show ?thesis by (intro exI conjI) (assumption, simp add: at_phase_def)
qed

theorem helper_can_start_again_witness:
  "\<exists>w. service_step\<^sup>*\<^sup>* (quiet_world StaleSocket) w \<and> wp_phase w 7 = Serving"
  using helper_can_start_again [of StaleSocket "quiet_world StaleSocket" 7] by (simp add: quiet_world_def)

lemma demo_serving: "\<exists>w. service_step\<^sup>*\<^sup>* (quiet_world NoSocket) w \<and> wp_phase w 7 = Serving"
proof -
  let ?a = "at_phase 7 Locked ((quiet_world NoSocket)\<lparr>wp_lock := Some 7\<rparr>)"
  let ?b = "at_phase 7 PathFree ?a"
  let ?c = "at_phase 7 Listening (?b\<lparr>wp_socket := SocketOf 7\<rparr>)"
  have "service_step (quiet_world NoSocket) ?a" by (rule lock_taken) (simp_all add: quiet_world_def)
  moreover have "service_step ?a ?b" by (rule path_absent) (simp_all add: at_phase_def quiet_world_def)
  moreover have "service_step ?b ?c" by (rule listens) (simp_all add: at_phase_def quiet_world_def)
  moreover have "service_step ?c (at_phase 7 Owned ?c)" by (rule chowned) (simp add: at_phase_def)
  moreover have "service_step (at_phase 7 Owned ?c) (at_phase 7 Serving (at_phase 7 Owned ?c))"
    by (rule chmoded) (simp add: at_phase_def)
  ultimately have "service_step\<^sup>*\<^sup>* (quiet_world NoSocket) (at_phase 7 Serving (at_phase 7 Owned ?c))"
    by (meson converse_rtranclp_into_rtranclp rtranclp.rtrancl_refl)
  then show ?thesis by (intro exI conjI) (assumption, simp add: at_phase_def)
qed

theorem serving_helper_keeps_socket_witness:
  "\<exists>w :: service_world. wp_phase w 7 = Serving \<and> wp_socket w = SocketOf 7 \<and> {q. holds_lock (wp_phase w q)} = {7}"
proof -
  obtain w where w: "service_step\<^sup>*\<^sup>* (quiet_world NoSocket) w" "wp_phase w 7 = Serving" using demo_serving by blast
  have "NoSocket \<in> {NoSocket, StaleSocket, OtherFile}" by simp
  from serving_helper_keeps_socket [OF w(1) this w(2)] w(2) show ?thesis by blast
qed

end
