(* ===== verification/RunnerService.thy ===== *)
theory RunnerService
  imports Runner
begin

text \<open>
  The Windows service around the supervisor (\<open>Run\<close>, \<open>Execute\<close> and \<open>loop\<close> of \<open>runner/runner_windows.go\<close>): the
  loop as a function of how its turns end, the service as a function of the requests and results it takes
  from its channels.
\<close>

section \<open>The loop\<close>

text \<open>How a turn of \<open>loop\<close> ended: the node exited and the delay passed, or the context was done while the
  node ran or during the delay.\<close>

datatype runner_turn = NodeExited | DoneWhileRunning | DoneWhileWaiting

text \<open>The delays a run of the loop waits for in full; a staged update is applied before every start of the
  node.\<close>

fun runner_loop :: "duration \<Rightarrow> runner_turn list \<Rightarrow> duration list" where
  "runner_loop backoff [] = []"
| "runner_loop backoff (NodeExited # ts) = backoff # runner_loop (next_backoff backoff) ts"
| "runner_loop backoff (DoneWhileRunning # ts) = []"
| "runner_loop backoff (DoneWhileWaiting # ts) = []"

section \<open>The service\<close>

datatype loop_end = LoopDone | LoopCanceled | LoopFailed

datatype service_event = Interrogate string | StopRequest | ShutdownRequest | OtherRequest | LoopEnds loop_end

datatype service_status = StartPending | ServiceRunning | StopPending | CurrentStatus string

text \<open>The exit code of the service, once it has one.\<close>

definition loop_code :: "loop_end \<Rightarrow> int" where
  "loop_code e = (case e of LoopFailed \<Rightarrow> 1 | _ \<Rightarrow> 0)"

fun is_end :: "service_event \<Rightarrow> bool" where
  "is_end (LoopEnds e) = True"
| "is_end _ = False"

text \<open>After a request to stop, \<open>Execute\<close> only waits for the loop.\<close>

fun execute_loop :: "service_event list \<Rightarrow> service_status list \<times> int option" where
  "execute_loop [] = ([], None)"
| "execute_loop (Interrogate st # es) = (case execute_loop es of (out, code) \<Rightarrow> (CurrentStatus st # out, code))"
| "execute_loop (StopRequest # es) = ([StopPending], if list_ex is_end es then Some 0 else None)"
| "execute_loop (ShutdownRequest # es) = ([StopPending], if list_ex is_end es then Some 0 else None)"
| "execute_loop (OtherRequest # es) = execute_loop es"
| "execute_loop (LoopEnds e # es) = ([], Some (loop_code e))"

definition service_execute :: "service_event list \<Rightarrow> service_status list \<times> int option" where
  "service_execute es = (case execute_loop es of (out, code) \<Rightarrow> (StartPending # ServiceRunning # out, code))"

text \<open>\<open>Run\<close>: the arguments of the node, and the exit code, in a service (where only a failure of the service
  manager counts) and without one.\<close>

definition runner_args :: "string list \<Rightarrow> string list" where
  "runner_args args = (if args = [] then [''push''] else args)"

definition runner_exit :: "bool \<Rightarrow> bool \<Rightarrow> loop_end \<Rightarrow> int" where
  "runner_exit in_service svc_fails e =
     (if in_service then (if svc_fails then 1 else 0) else loop_code e)"

section \<open>Facts\<close>

lemma runner_loop_delays:
  "length (runner_loop backoff ts) \<le> length ts \<and>
   (\<forall>i < length (runner_loop backoff ts). runner_loop backoff ts ! i = (next_backoff ^^ i) backoff)"
proof (induction backoff ts rule: runner_loop.induct)
  case (2 backoff ts)
  show ?case
  proof (intro conjI allI impI)
    show "length (runner_loop backoff (NodeExited # ts)) \<le> length (NodeExited # ts)" using 2 by simp
    fix i assume "i < length (runner_loop backoff (NodeExited # ts))"
    then show "runner_loop backoff (NodeExited # ts) ! i = (next_backoff ^^ i) backoff"
      using 2 by (cases i) (simp_all add: funpow_swap1)
  qed
qed simp_all

fun ignored_event :: "service_event \<Rightarrow> bool" where
  "ignored_event (Interrogate st) = True"
| "ignored_event OtherRequest = True"
| "ignored_event _ = False"

text \<open>The service ends with a failure only when the loop failed before anybody asked it to stop.\<close>

lemma service_fails_iff:
  "snd (service_execute es) = Some 1 \<longleftrightarrow> (\<exists>after. dropWhile ignored_event es = LoopEnds LoopFailed # after)"
proof -
  have "snd (execute_loop es) = Some 1 \<longleftrightarrow> (\<exists>after. dropWhile ignored_event es = LoopEnds LoopFailed # after)"
    by (induction es rule: execute_loop.induct) (auto simp: loop_code_def split: prod.splits loop_end.splits)
  then show ?thesis by (cases "execute_loop es") (simp add: service_execute_def)
qed

section \<open>The node under the runner\<close>

text \<open>\<open>runNode\<close> adds a variable to the environment of the node, and \<open>Enabled\<close> and \<open>Apply\<close> of
  \<open>selfupdate/update.go\<close> look for it there.  The last entry of a name counts.\<close>

datatype go_os = Windows | Linux | Darwin | OtherOs

definition runner_env :: string where "runner_env = ''ITHILTIR_NODE_RUNNER''"

definition node_environ :: "(string \<times> string) list \<Rightarrow> (string \<times> string) list" where
  "node_environ env = env @ [(runner_env, ''1'')]"

definition getenv :: "(string \<times> string) list \<Rightarrow> string \<Rightarrow> string" where
  "getenv env k = (case map_of (rev env) k of None \<Rightarrow> '''' | Some v \<Rightarrow> v)"

definition update_enabled :: "go_os \<Rightarrow> (string \<times> string) list \<Rightarrow> bool \<Rightarrow> bool" where
  "update_enabled os env installed =
     (case os of Windows \<Rightarrow> getenv env runner_env = ''1'' | Linux \<Rightarrow> installed | Darwin \<Rightarrow> installed | OtherOs \<Rightarrow> False)"

datatype update_way = UpdateOff | UpdateInvalid upd_error | StageForRunner | SwitchRelease | UpdateUnsupported

definition apply_way :: "url_parser \<Rightarrow> go_os \<Rightarrow> (string \<times> string) list \<Rightarrow> bool \<Rightarrow> manifest \<Rightarrow> update_way" where
  "apply_way url_parse os env installed m =
     (if \<not> update_enabled os env installed then UpdateOff
      else case validate_manifest url_parse m of
        Inl e \<Rightarrow> UpdateInvalid e
      | Inr _ \<Rightarrow> (case os of Windows \<Rightarrow> StageForRunner | Linux \<Rightarrow> SwitchRelease | Darwin \<Rightarrow> SwitchRelease
                  | OtherOs \<Rightarrow> UpdateUnsupported))"

text \<open>On Windows a node stages an update when, and only when, its runner can install it.\<close>

lemma supervised_node_stages:
  "apply_way url_parse Windows (node_environ env) installed m = StageForRunner \<longleftrightarrow> validate_manifest url_parse m = Inr ()"
  by (auto simp: apply_way_def update_enabled_def getenv_def node_environ_def split: sum.splits)

lemma unsupervised_node_is_off:
  "getenv env runner_env \<noteq> ''1'' \<Longrightarrow> apply_way url_parse Windows env installed m = UpdateOff"
  by (simp add: apply_way_def update_enabled_def)

end
