(* ===== verification/Requests.thy ===== *)
theory Requests
  imports VirtPush SelfUpdate
begin

text \<open>
  The HTTP requests that carry a secret (\<open>sendReport\<close>, \<open>sendIdentity\<close> and \<open>sendStatic\<close> of \<open>push/push.go\<close>,
  \<open>sendVirtHTTP\<close> of \<open>push/virt.go\<close>, \<open>download\<close> of \<open>selfupdate/update.go\<close>) and the way \<open>net/http\<close> follows
  redirects with them.  The servers are a function from requests to answers.
\<close>

section \<open>Requests\<close>

datatype http_method = GET | POST

record request =
  rq_method :: http_method
  rq_url :: url
  rq_secret :: "string option"
  rq_body :: string

definition post_request :: "target \<Rightarrow> url \<Rightarrow> string \<Rightarrow> request" where
  "post_request t u body = \<lparr>rq_method = POST, rq_url = u, rq_secret = Some (tg_secret t), rq_body = body\<rparr>"

definition report_request :: "target \<Rightarrow> string \<Rightarrow> request" where
  "report_request t body = post_request t (metrics_url t) body"

definition identity_request :: "target \<Rightarrow> request option" where
  "identity_request t = map_option (\<lambda>u. post_request t u ''{}'') (identity_url t)"

text \<open>\<open>json\<close> is the encoded report, if it can be encoded.\<close>

definition static_request :: "target \<Rightarrow> string option \<Rightarrow> request option" where
  "static_request t json =
     (case (static_url t, json) of (Some u, Some body) \<Rightarrow> Some (post_request t u body) | _ \<Rightarrow> None)"

definition virt_request :: "target \<Rightarrow> string \<Rightarrow> request" where
  "virt_request t body = post_request t (virt_url t) body"

definition download_request :: "url_parser \<Rightarrow> manifest \<Rightarrow> request option" where
  "download_request url_parse m =
     (case url_parse (trim_space (m_url m)) of
        None \<Rightarrow> None
      | Some u \<Rightarrow> Some \<lparr>rq_method = GET, rq_url = u,
          rq_secret = (if trim_space (m_secret m) = '''' then None else Some (trim_space (m_secret m))), rq_body = ''''\<rparr>)"

section \<open>The client of net/http\<close>

text \<open>The status of an answer and its \<open>Location\<close>, resolved against the URL of the request.\<close>

record answer =
  an_status :: int
  an_location :: "url option"

type_synonym network = "request \<Rightarrow> go_error + answer"

text \<open>The request that follows an answer: 301, 302 and 303 turn a POST into a GET without its body, 307 and
  308 repeat it.  Headers of the program's own, like \<open>X-Node-Secret\<close>, are copied.\<close>

definition redirected :: "request \<Rightarrow> answer \<Rightarrow> request option" where
  "redirected r a =
     (case an_location a of
        None \<Rightarrow> None
      | Some u \<Rightarrow>
          if an_status a \<in> {301, 302, 303} then Some (r\<lparr>rq_method := GET, rq_url := u, rq_body := ''''\<rparr>)
          else if an_status a \<in> {307, 308} then Some (r\<lparr>rq_url := u\<rparr>)
          else None)"

text \<open>The default \<open>CheckRedirect\<close> gives up after ten requests.\<close>

fun follow :: "nat \<Rightarrow> network \<Rightarrow> request \<Rightarrow> request list \<times> (go_error + int)" where
  "follow 0 net r = ([], Inl (plain_error ''stopped after 10 redirects''))"
| "follow (Suc n) net r =
     (case net r of
        Inl e \<Rightarrow> ([r], Inl e)
      | Inr a \<Rightarrow>
          (case redirected r a of
             None \<Rightarrow> ([r], Inr (an_status a))
           | Some r' \<Rightarrow> (case follow n net r' of (rs, res) \<Rightarrow> (r # rs, res))))"

definition client_do :: "network \<Rightarrow> request \<Rightarrow> request list \<times> (go_error + int)" where
  "client_do net r = follow 10 net r"

text \<open>With a \<open>CheckRedirect\<close> of \<open>ErrUseLastResponse\<close> a redirect is an answer like any other.\<close>

definition client_once :: "network \<Rightarrow> request \<Rightarrow> request list \<times> (go_error + int)" where
  "client_once net r = ([r], case net r of Inl e \<Rightarrow> Inl e | Inr a \<Rightarrow> Inr (an_status a))"

section \<open>Sending\<close>

definition send_report :: "network \<Rightarrow> target \<Rightarrow> string \<Rightarrow> request list \<times> (go_error + int)" where
  "send_report net t body = client_do net (report_request t body)"

definition identity_requests :: "network \<Rightarrow> target \<Rightarrow> request list \<times> (go_error + int)" where
  "identity_requests net t =
     (case identity_request t of
        None \<Rightarrow> ([], Inl (plain_error ''url must end with /metrics to resolve identity''))
      | Some r \<Rightarrow> client_do net r)"

definition send_static_http :: "network \<Rightarrow> target \<Rightarrow> string option \<Rightarrow> request list \<times> go_error option" where
  "send_static_http net t json =
     (case static_request t json of
        None \<Rightarrow> ([], Some (plain_error ''json''))
      | Some r \<Rightarrow>
          (case client_do net r of
             (rs, Inl e) \<Rightarrow> (rs, Some e)
           | (rs, Inr status) \<Rightarrow>
               (rs, if status \<noteq> 200 then Some (plain_error ''static non-200 status'') else None)))"

definition send_virt_http :: "network \<Rightarrow> target \<Rightarrow> string \<Rightarrow> request list \<times> (go_error + int)" where
  "send_virt_http net t body = client_once net (virt_request t body)"

text \<open>The HTTP part of \<open>sendVirt\<close>: one more attempt after a fallback.\<close>

definition virt_attempts :: "network \<Rightarrow> tls_probe \<Rightarrow> target \<Rightarrow> string \<Rightarrow> target \<times> request list \<times> (go_error + int)" where
  "virt_attempts net probe t body =
     (case send_virt_http net t body of
        (rs, Inr status) \<Rightarrow> (t, rs, Inr status)
      | (rs, Inl e) \<Rightarrow>
          (case fallback_http probe e t of
             (t', False) \<Rightarrow> (t', rs, Inl e)
           | (t', True) \<Rightarrow> (case send_virt_http net t' body of (rs', res) \<Rightarrow> (t', rs @ rs', res))))"

definition fetch_update :: "network \<Rightarrow> url_parser \<Rightarrow> manifest \<Rightarrow> request list \<times> (go_error + int)" where
  "fetch_update net url_parse m =
     (case download_request url_parse m of
        None \<Rightarrow> ([], Inl (plain_error ''build update request''))
      | Some r \<Rightarrow> client_do net r)"

section \<open>What is sent\<close>

lemma redirected_secret [simp]: "redirected r a = Some r' \<Longrightarrow> rq_secret r' = rq_secret r"
  by (auto simp: redirected_def split: option.splits if_splits)

lemma redirected_body: "redirected r a = Some r' \<Longrightarrow> rq_body r' = rq_body r \<or> rq_body r' = '''' \<and> rq_method r' = GET"
  by (auto simp: redirected_def split: option.splits if_splits)

lemma follow_head: "follow (Suc n) net r = (rs, res) \<Longrightarrow> \<exists>rs'. rs = r # rs'"
  by (auto split: sum.splits option.splits prod.splits)

lemma follow_requests:
  "follow n net r = (rs, res) \<Longrightarrow>
     length rs \<le> n \<and> (\<forall>q\<in>set rs. rq_secret q = rq_secret r \<and> (rq_body q = rq_body r \<or> rq_body q = ''''))"
proof (induction n arbitrary: r rs res)
  case (Suc n)
  show ?case
  proof (cases "net r")
    case (Inl e)
    with Suc.prems show ?thesis by auto
  next
    case (Inr a)
    show ?thesis
    proof (cases "redirected r a")
      case None
      with Suc.prems Inr show ?thesis by auto
    next
      case (Some r')
      obtain rs' where rs': "follow n net r' = (rs', res)" "rs = r # rs'"
        using Suc.prems Inr Some by (auto split: prod.splits)
      from Suc.IH [OF rs'(1)] redirected_secret [OF Some] redirected_body [OF Some] rs'(2) show ?thesis by fastforce
    qed
  qed
qed simp

text \<open>A call makes at least one and at most ten requests.  All of them carry the secret of the call, and
  each has the body of the first or none.\<close>

lemma client_do_requests:
  "client_do net r = (rs, res) \<Longrightarrow>
     rs \<noteq> [] \<and> hd rs = r \<and> length rs \<le> 10 \<and> (\<forall>q\<in>set rs. rq_secret q = rq_secret r \<and> (rq_body q = rq_body r \<or> rq_body q = ''''))"
  using follow_requests [of 10 net r rs res] follow_head [of 9 net r rs res] by (auto simp: client_do_def)

text \<open>A target as \<open>newTarget\<close> makes it, and what failed attempts turn it into.\<close>

inductive target_run :: "target \<Rightarrow> target \<Rightarrow> bool" where
  run_start: "target_run t t"
| run_fallback: "target_run t u \<Longrightarrow> fallback_http probe e u = (v, b) \<Longrightarrow> target_run t v"
| run_error: "target_run t u \<Longrightarrow> handle_error now ctx probe e u = (v, r) \<Longrightarrow> target_run t v"
| run_virt: "target_run t u \<Longrightarrow> virt_attempts net probe u body = (v, rs, res) \<Longrightarrow> target_run t v"

text \<open>Attempts never change the secret or the policy, and the endpoint at most in its scheme, which is kept
  under \<open>--require-https\<close>.\<close>

definition same_home :: "target \<Rightarrow> target \<Rightarrow> bool" where
  "same_home t u \<longleftrightarrow> tg_secret u = tg_secret t \<and> tg_require_https u = tg_require_https t \<and>
     (tg_endpoint u = tg_endpoint t \<or>
      \<not> tg_require_https t \<and> tg_endpoint u = (tg_endpoint t)\<lparr>u_scheme := ''http''\<rparr>)"

lemma same_home_refl [simp]: "same_home t t"
  by (simp add: same_home_def)

lemma same_home_trans: "same_home t u \<Longrightarrow> same_home u v \<Longrightarrow> same_home t v"
  by (auto simp: same_home_def)

lemma same_home_fallback: "fallback_http probe e t = (t', b) \<Longrightarrow> same_home t t'"
  using fallback_http_cases [where probe = probe and e = e and t = t] by (auto simp: same_home_def split: if_splits)

lemma same_home_error:
  assumes "handle_error now ctx probe e t = (t', r)"
  shows "same_home t t'"
proof -
  obtain t1 b where t1: "fallback_http probe e t = (t1, b)" by (metis surj_pair)
  have "t' = t \<or> same_home t1 t'"
    using assms t1 by (auto simp: handle_error_def log_err_def same_home_def Let_def split: option.splits bool.splits if_splits)
  then show ?thesis using same_home_fallback [OF t1] same_home_trans by auto
qed

lemma virt_attempts_cases:
  assumes "virt_attempts net probe t body = (t', rs, res)" and "q \<in> set rs"
  shows "\<exists>u. same_home t u \<and> q = virt_request u body"
proof -
  have "q = virt_request t body \<or> (\<exists>e. fallback_http probe e t = (t', True) \<and> q = virt_request t' body)"
    using assms by (auto simp: virt_attempts_def send_virt_http_def client_once_def split: sum.splits prod.splits bool.splits)
  then show ?thesis using same_home_fallback by (metis same_home_refl)
qed

lemma same_home_virt: "virt_attempts net probe t body = (t', rs, res) \<Longrightarrow> same_home t t'"
  by (auto simp: virt_attempts_def same_home_fallback split: sum.splits prod.splits bool.splits)

lemma target_run_home: "target_run t u \<Longrightarrow> same_home t u"
  by (induction rule: target_run.induct)
    (auto intro: same_home_trans same_home_fallback same_home_error same_home_virt)

text \<open>C20. Whatever the servers answer and however often attempts failed before, the snapshots of the virtual
  machines and the secret they are sent with only go to the configured host, below its path, and only over
  HTTPS when the operator requires it.\<close>

theorem virt_secret_stays_home:
  assumes "new_target url_parse parse_ip transport spec require_https = Inr t" and "target_run t u"
    and "virt_attempts net probe u body = (v, rs, res)" and "q \<in> set rs"
  shows "\<exists>home. url_parse (trim_space (rt_url spec)) = Some home \<and> rq_secret q = Some (rt_key spec)
     \<and> u_host (rq_url q) = u_host home \<and> u_path (rq_url q) = trim_suffix (u_path home) ''/metrics'' @ ''/virt''
     \<and> (if require_https then u_scheme (rq_url q) = ''https''
        else u_scheme (rq_url q) = u_scheme home \<or> u_scheme (rq_url q) = ''http'')"
proof -
  from assms(1) obtain home where home: "url_parse (trim_space (rt_url spec)) = Some home"
    "tg_endpoint t = home" "tg_secret t = rt_key spec" "tg_require_https t = require_https"
    "require_https \<Longrightarrow> u_scheme home = ''https''"
    by (auto simp: new_target_def split: option.splits if_splits)
  obtain w where w: "same_home u w" "q = virt_request w body" using virt_attempts_cases [OF assms(3,4)] by blast
  from same_home_trans [OF target_run_home [OF assms(2)] w(1)] home w(2) show ?thesis
    by (auto simp: same_home_def virt_request_def post_request_def virt_url_def)
qed

text \<open>A server that moves everything to one URL and accepts it there.\<close>

definition diverting :: "url \<Rightarrow> network" where
  "diverting elsewhere r =
     Inr (if rq_url r = elsewhere then \<lparr>an_status = 200, an_location = None\<rparr>
          else \<lparr>an_status = 307, an_location = Some elsewhere\<rparr>)"

text \<open>C36. The other calls follow redirects: a server, or anyone who answers in its place, can send the report and
  the secret to any other URL, also to one without HTTPS when the operator requires it.  A snapshot of the
  virtual machines stays where it is.\<close>

theorem redirect_carries_secret_away:
  "send_report (diverting elsewhere) t body =
     (if metrics_url t = elsewhere then ([report_request t body], Inr 200)
      else ([report_request t body,
             \<lparr>rq_method = POST, rq_url = elsewhere, rq_secret = Some (tg_secret t), rq_body = body\<rparr>], Inr 200))
   \<and> fst (send_virt_http (diverting elsewhere) t body) = [virt_request t body]"
  by (simp add: diverting_def send_report_def client_do_def redirected_def report_request_def post_request_def
      send_virt_http_def client_once_def eval_nat_numeral)

definition demo_spec :: rtarget where
  "demo_spec = \<lparr>rt_id = 1, rt_url = ''https://d.example/api/metrics'', rt_key = ''k'', rt_install = ''i''\<rparr>"

definition demo_refused :: go_error where
  "demo_refused = (plain_error ''refused'')\<lparr>ge_refused := True\<rparr>"

definition demo_home :: target where
  "demo_home = (case new_target demo_parse (\<lambda>_. False) ''http'' demo_spec False of Inr t \<Rightarrow> t)"

lemma demo_home: "new_target demo_parse (\<lambda>_. False) ''http'' demo_spec False = Inr demo_home"
  unfolding demo_home_def by code_simp

text \<open>A server that speaks plain HTTP: the second attempt is the fallback.\<close>

definition demo_plain :: go_error where
  "demo_plain = (plain_error ''plain'')\<lparr>ge_record_header := True\<rparr>"

definition demo_probe_off :: tls_probe where
  "demo_probe_off = \<lparr>tp_dial_ok = False, tp_peers = [], tp_now = 0, tp_verifies = (\<lambda>_. False)\<rparr>"

definition demo_sent :: "request list" where
  "demo_sent = fst (snd (virt_attempts (\<lambda>_. Inl demo_plain) demo_probe_off demo_home ''{}''))"

lemma demo_sent_urls:
  "map (\<lambda>q. (u_scheme (rq_url q), u_host (rq_url q))) demo_sent = [(''https'', ''d.example''), (''http'', ''d.example'')]"
  by code_simp

theorem virt_secret_stays_home_witness:
  "\<exists>q home. q \<in> set demo_sent \<and> demo_parse (trim_space (rt_url demo_spec)) = Some home
     \<and> u_host (rq_url q) = u_host home \<and> rq_secret q = Some ''k''"
proof -
  obtain v rs res where sent: "virt_attempts (\<lambda>_. Inl demo_plain) demo_probe_off demo_home ''{}'' = (v, rs, res)"
    by (metis surj_pair)
  have "demo_sent \<noteq> []" using arg_cong [OF demo_sent_urls, of length] by (auto simp del: length_map)
  then obtain q where q: "q \<in> set demo_sent" by (meson hd_in_set)
  then have "q \<in> set rs" by (simp add: demo_sent_def sent)
  from virt_secret_stays_home [OF demo_home run_start sent this] q show ?thesis
    by (auto simp: demo_spec_def)
qed

end
