(* ===== verification/PveQuery.thy ===== *)
theory PveQuery
  imports PveHistory
begin

text \<open>
  What the helper takes from its host: running \<open>pvesh\<close> (\<open>query\<close>, \<open>runCommand\<close> and \<open>limitedBuffer\<close> of \<open>pve/collect.go\<close>, \<open>history\<close> of
  \<open>pve/history.go\<close>), and the lock file of a VM that a history query holds (\<open>guestLock\<close> of
  \<open>pve/guest_cache.go\<close>): the lock belongs to an open file description, which the query inherits, so it
  lasts as long as the helper or the query has it open.  Also the files of the host (\<open>pve/local.go\<close>) and
  the start of a round of \<open>CollectGuests\<close>.
\<close>

section \<open>Bounded output\<close>

definition limited_write :: "int \<Rightarrow> string \<Rightarrow> string \<Rightarrow> string option" where
  "limited_write limit buf p = (if int (length p) > limit - int (length buf) then None else Some (buf @ p))"

text \<open>The goroutine of \<open>os/exec\<close> copies what the command writes until a write fails.\<close>

fun copy_output :: "int \<Rightarrow> string \<Rightarrow> string list \<Rightarrow> string \<times> bool" where
  "copy_output limit buf [] = (buf, True)"
| "copy_output limit buf (p # ps) =
     (case limited_write limit buf p of None \<Rightarrow> (buf, False) | Some buf' \<Rightarrow> copy_output limit buf' ps)"

text \<open>A run of the command: whether it could not be started, ended with a failure, was killed or kept its
  pipes open for too long; what it wrote; and \<open>ctx.Err()\<close> afterwards.  The text of an error is left out.\<close>

record command_run =
  cr_fails :: bool
  cr_out :: "string list"
  cr_err :: "string list"
  cr_ctx :: "hist_error option"

definition max_snapshot_bytes :: int where "max_snapshot_bytes = 4 * 2 ^ 20"

definition run_command :: "command_run \<Rightarrow> hist_error + string" where
  "run_command r =
     (case (copy_output max_snapshot_bytes [] (cr_out r), copy_output 4096 [] (cr_err r)) of
        ((stdout, out_ok), (stderr, err_ok)) \<Rightarrow>
          if cr_fails r \<or> \<not> out_ok \<or> \<not> err_ok
          then Inl (case cr_ctx r of Some e \<Rightarrow> e | None \<Rightarrow> HistOther)
          else Inr stdout)"

definition query_args :: "string \<Rightarrow> string list \<Rightarrow> string list" where
  "query_args p options = [''get'', p, ''--output-format'', ''json''] @ options"

definition rrd_path :: "string \<Rightarrow> history_query \<Rightarrow> string" where
  "rrd_path host q = ''/nodes/'' @ host @ ''/qemu/'' @ itoa (hq_vmid q) @ ''/rrddata''"

text \<open>The lookup of the history cache; \<open>pvesh\<close> is the program, from its arguments to a run.\<close>

definition history_lookup ::
  "(string list \<Rightarrow> command_run) \<Rightarrow> (string \<Rightarrow> rrd_sample list option option) \<Rightarrow> (vm_history \<Rightarrow> string option) \<Rightarrow>
   string \<Rightarrow> time \<Rightarrow> history_query \<Rightarrow> string \<times> hist_error option" where
  "history_lookup pvesh decode encode host now q =
     (case run_command (pvesh (query_args (rrd_path host q)
             [''--timeframe'', hq_timeframe q, ''--cf'', hq_consolidation q])) of
        Inl e \<Rightarrow> ('''', Some e)
      | Inr raw \<Rightarrow>
          (case decode_history decode encode raw q now of None \<Rightarrow> ('''', Some HistOther) | Some out \<Rightarrow> (out, None)))"

lemma copy_output_ok:
  "int (length buf) \<le> limit \<Longrightarrow>
     copy_output limit buf ps = (out, True) \<longleftrightarrow> out = buf @ concat ps \<and> int (length out) \<le> limit"
proof (induction ps arbitrary: buf)
  case (Cons p ps)
  then show ?case by (auto simp: limited_write_def)
qed auto

lemma copy_output_bounded: "int (length buf) \<le> limit \<Longrightarrow> int (length (fst (copy_output limit buf ps))) \<le> limit"
  by (induction ps arbitrary: buf) (auto simp: limited_write_def)

text \<open>A result is everything the command wrote, at most four megabytes of it: output is never cut.\<close>

lemma command_output_whole:
  "run_command r = Inr out \<longleftrightarrow>
     \<not> cr_fails r \<and> out = concat (cr_out r) \<and> int (length (concat (cr_out r))) \<le> max_snapshot_bytes
     \<and> int (length (concat (cr_err r))) \<le> 4096"
proof -
  obtain o1 b1 o2 b2 where o: "copy_output max_snapshot_bytes [] (cr_out r) = (o1, b1)"
    "copy_output 4096 [] (cr_err r) = (o2, b2)" by (metis surj_pair)
  have "(copy_output max_snapshot_bytes [] (cr_out r) = (o1, True))
      \<longleftrightarrow> o1 = concat (cr_out r) \<and> int (length o1) \<le> max_snapshot_bytes"
    using copy_output_ok [of "[]" max_snapshot_bytes "cr_out r" o1] by (simp add: max_snapshot_bytes_def)
  moreover have "(copy_output 4096 [] (cr_err r) = (o2, True)) \<longleftrightarrow> o2 = concat (cr_err r) \<and> int (length o2) \<le> 4096"
    using copy_output_ok [of "[]" 4096 "cr_err r" o2] by simp
  moreover have "(\<exists>x. copy_output max_snapshot_bytes [] (cr_out r) = (x, True)) \<longleftrightarrow> int (length (concat (cr_out r))) \<le> max_snapshot_bytes"
    using copy_output_ok [of "[]" max_snapshot_bytes "cr_out r"] by (auto simp: max_snapshot_bytes_def)
  moreover have "(\<exists>x. copy_output 4096 [] (cr_err r) = (x, True)) \<longleftrightarrow> int (length (concat (cr_err r))) \<le> 4096"
    using copy_output_ok [of "[]" 4096 "cr_err r"] by auto
  ultimately show ?thesis using o by (auto simp: run_command_def)
qed

text \<open>An answer of the cache is made from all that \<open>pvesh\<close> wrote.\<close>

lemma history_lookup_whole:
  assumes "bounded_lookup (history_lookup pvesh decode encode host now q) = (out, None)"
  shows "\<exists>r. r = pvesh (query_args (rrd_path host q) [''--timeframe'', hq_timeframe q, ''--cf'', hq_consolidation q])
     \<and> \<not> cr_fails r \<and> decode_history decode encode (concat (cr_out r)) q now = Some out"
  using assms command_output_whole
  by (auto simp: history_lookup_def bounded_lookup_def Let_def split: sum.splits option.splits if_splits)

section \<open>Files of the host\<close>

text \<open>\<open>files\<close> is \<open>os.ReadFile\<close>, \<open>None\<close> for an error.\<close>

definition host_cpu_count :: "int option \<Rightarrow> int option" where
  "host_cpu_count counted = (case counted of None \<Rightarrow> None | Some n \<Rightarrow> if n < 1 then None else Some n)"

definition read_config ::
  "(string \<Rightarrow> string option) \<Rightarrow> (string \<Rightarrow> float64 option) \<Rightarrow> (float64 \<Rightarrow> float64) \<Rightarrow> int \<Rightarrow> int \<Rightarrow> vm_config option" where
  "read_config files parse_float mbps i host_cpus =
     (case files (''/etc/pve/qemu-server/'' @ itoa i @ ''.conf'') of
        None \<Rightarrow> None
      | Some raw \<Rightarrow> (case parse_config parse_float mbps i raw host_cpus of Inl _ \<Rightarrow> None | Inr c \<Rightarrow> Some c))"

definition interface_bytes :: "(string \<Rightarrow> string option) \<Rightarrow> string \<Rightarrow> string \<Rightarrow> int option" where
  "interface_bytes files nic direction =
     (case files (''/sys/class/net/'' @ nic @ ''/statistics/'' @ direction @ ''_bytes'') of
        None \<Rightarrow> None
      | Some raw \<Rightarrow> parse_int (trim_space raw))"

section \<open>The start of a round of guest queries\<close>

text \<open>\<open>CollectGuests\<close> up to the candidates: the round is refused or fails, another process has it, or it is
  about these targets.\<close>

datatype guest_round = RoundRefused | RoundFails | RoundElsewhere | RoundOf "guest_target list"

definition start_guest_round ::
  "time \<Rightarrow> snapshot \<Rightarrow> int option \<Rightarrow> (int \<Rightarrow> int \<Rightarrow> vm_config option) \<Rightarrow> (int \<Rightarrow> int option) \<Rightarrow> bool \<Rightarrow>
   unit + bool \<Rightarrow> guest_round" where
  "start_guest_round now s counted config started mkdir_ok lock =
     (if \<not> guests_allowed now s then RoundRefused
      else case host_cpu_count counted of
        None \<Rightarrow> RoundFails
      | Some cpus \<Rightarrow>
          if \<not> mkdir_ok then RoundFails
          else case lock of
            Inl _ \<Rightarrow> RoundFails
          | Inr False \<Rightarrow> RoundElsewhere
          | Inr True \<Rightarrow> RoundOf (guest_targets (\<lambda>i. map_option vc_agent (config i cpus)) started
                 (case sn_vms s of None \<Rightarrow> [] | Some vms \<Rightarrow> vms)))"

lemma start_guest_round_targets:
  assumes "start_guest_round now s counted config started mkdir_ok lock = RoundOf ts" and "g \<in> set ts"
  shows "sn_status s = ''ok'' \<and> lock = Inr True \<and> (\<exists>vms v. sn_vms s = Some vms \<and> v \<in> set vms \<and> guest_eligible v \<and> gt_id g = vm_id v
     \<and> started (vm_id v) = Some (gt_start g))"
  using assms
  by (auto simp: start_guest_round_def guests_allowed_def guest_targets_def
      split: if_splits option.splits sum.splits bool.splits) (metis (no_types, lifting))

section \<open>The lock of a VM\<close>

text \<open>One entry per open of a lock file: the VM, the process that opened it, whether that process and the
  query it started have the file open, and whether the query was started already.\<close>

record lock_open =
  lo_vm :: int
  lo_proc :: nat
  lo_helper :: bool
  lo_query :: bool
  lo_asked :: bool

definition holds_vm :: "lock_open \<Rightarrow> bool" where
  "holds_vm l \<longleftrightarrow> lo_helper l \<or> lo_query l"

inductive vm_lock_step :: "lock_open list \<Rightarrow> lock_open list \<Rightarrow> bool" where
  lock_granted: "\<not> list_ex (\<lambda>l. lo_vm l = v \<and> holds_vm l) w \<Longrightarrow>
     vm_lock_step w (w @ [\<lparr>lo_vm = v, lo_proc = p, lo_helper = True, lo_query = False, lo_asked = False\<rparr>])"
| query_started: "i < length w \<Longrightarrow> lo_helper (w ! i) \<Longrightarrow> \<not> lo_asked (w ! i) \<Longrightarrow>
     vm_lock_step w (w[i := (w ! i)\<lparr>lo_query := True, lo_asked := True\<rparr>])"
| query_ended: "i < length w \<Longrightarrow> lo_query (w ! i) \<Longrightarrow> vm_lock_step w (w[i := (w ! i)\<lparr>lo_query := False\<rparr>])"
| lock_closed: "i < length w \<Longrightarrow> lo_helper (w ! i) \<Longrightarrow> \<not> lo_query (w ! i) \<Longrightarrow>
     vm_lock_step w (w[i := (w ! i)\<lparr>lo_helper := False\<rparr>])"
| helper_killed: "vm_lock_step w (map (\<lambda>l. if lo_proc l = p then l\<lparr>lo_helper := False\<rparr> else l) w)"

definition one_holder :: "lock_open list \<Rightarrow> bool" where
  "one_holder w \<longleftrightarrow>
     (\<forall>i j. i < length w \<longrightarrow> j < length w \<longrightarrow> lo_vm (w ! i) = lo_vm (w ! j) \<longrightarrow>
        holds_vm (w ! i) \<longrightarrow> holds_vm (w ! j) \<longrightarrow> i = j)"

text \<open>A step that gives nobody the lock keeps one holder at most.\<close>

lemma one_holder_mono:
  assumes "one_holder w" and "length w' = length w"
    and "\<And>i. i < length w \<Longrightarrow> lo_vm (w' ! i) = lo_vm (w ! i) \<and> (holds_vm (w' ! i) \<longrightarrow> holds_vm (w ! i))"
  shows "one_holder w'"
  using assms unfolding one_holder_def by metis

lemma one_holder_step:
  assumes "vm_lock_step w w'" and "one_holder w"
  shows "one_holder w'"
  using assms(1)
proof cases
  case (lock_granted v p)
  then have "\<not> holds_vm (w ! i)" if "i < length w" and "lo_vm (w ! i) = v" for i
    using that by (auto simp: list_ex_length)
  with assms(2) lock_granted(1) show ?thesis
    unfolding one_holder_def by (auto simp: nth_append less_Suc_eq)
qed (auto intro!: one_holder_mono [OF assms(2)] simp: nth_list_update holds_vm_def split: if_splits)

text \<open>C21. However queries of any number of helper processes start, end, and outlive helpers that are killed, at
  most one runs per VM.\<close>

theorem one_pvesh_per_vm:
  assumes "vm_lock_step\<^sup>*\<^sup>* [] w"
  shows "length (filter (\<lambda>l. lo_vm l = v \<and> lo_query l) w) \<le> 1"
proof -
  from assms have "one_holder w"
    by (induction rule: rtranclp_induct) (auto simp: one_holder_def [of "[]"] one_holder_step)
  then have "\<forall>i\<in>{i. i < length w \<and> lo_vm (w ! i) = v \<and> lo_query (w ! i)}.
      \<forall>j\<in>{i. i < length w \<and> lo_vm (w ! i) = v \<and> lo_query (w ! i)}. i = j"
    unfolding one_holder_def holds_vm_def by blast
  then show ?thesis by (simp add: length_filter_conv_card card_le_Suc0_iff_eq)
qed

text \<open>A query that outlives its killed helper keeps the next helper from the VM.\<close>

definition orphaned :: "lock_open list" where
  "orphaned = [\<lparr>lo_vm = 100, lo_proc = 1, lo_helper = False, lo_query = True, lo_asked = True\<rparr>]"

lemma demo_orphaned: "vm_lock_step\<^sup>*\<^sup>* [] orphaned"
proof -
  let ?o = "\<lambda>a b c. [\<lparr>lo_vm = 100, lo_proc = 1, lo_helper = a, lo_query = b, lo_asked = c\<rparr>]"
  have "vm_lock_step [] (?o True False False)" using lock_granted [of 100 "[]" 1] by simp
  moreover have "vm_lock_step (?o True False False) (?o True True True)"
    using query_started [of 0 "?o True False False"] by simp
  moreover have "vm_lock_step (?o True True True) orphaned"
    using helper_killed [of "?o True True True" 1] by (simp add: orphaned_def)
  ultimately show ?thesis by (meson converse_rtranclp_into_rtranclp rtranclp.rtrancl_refl)
qed

theorem one_pvesh_per_vm_witness:
  "length (filter (\<lambda>l. lo_vm l = 100 \<and> lo_query l) orphaned) = 1 \<and> list_ex (\<lambda>l. lo_vm l = 100 \<and> holds_vm l) orphaned"
  using one_pvesh_per_vm [OF demo_orphaned, of 100] by (simp add: orphaned_def holds_vm_def)

end
